(* ===== verification/Ws_Prelude.thy ===== *)
theory Ws_Prelude
  imports Main "HOL-Library.Word" "HOL-Library.Code_Target_Nat"
begin

text \<open>
  Shared vocabulary of the development: bytes, C strings, the C library's byte
  routines that the sources call (\<^verbatim>\<open>memchr\<close>, \<^verbatim>\<open>strncasecmp\<close>), PHP errors and the
  generic lemmas on lists and words that the component theories share.

  A \<^verbatim>\<open>zend_string\<close> or a C buffer with its length is a list of bytes; \<^verbatim>\<open>size_t\<close>
  lengths of objects in memory are \<open>nat\<close>, values read from the wire or computed by
  64-bit arithmetic are \<open>64 word\<close>.
\<close>

unbundle bit_operations_syntax

type_synonym byte = "8 word"
type_synonym bytes = "byte list"
type_synonym u64 = "64 word"

named_theorems ws_eval \<open>definitions unfolded to evaluate the model on concrete input\<close>
named_theorems ws_frame \<open>fields and components an operation leaves unchanged\<close>

text \<open>A string literal of the sources as bytes.\<close>

definition lit :: "string \<Rightarrow> bytes" where
  [ws_eval]: "lit s = map of_char s"

text \<open>\<^verbatim>\<open>SIZE_MAX\<close> of a 64-bit platform.\<close>

definition SIZE_MAX :: nat where
  [ws_eval]: "SIZE_MAX = 2 ^ 64 - 1"

subsection \<open>PHP exceptions raised by the sources\<close>

text \<open>
  \<^verbatim>\<open>zend_argument_value_error\<close>, \<^verbatim>\<open>zend_argument_type_error\<close> (argument number and
  message), \<^verbatim>\<open>zend_type_error\<close> and \<^verbatim>\<open>zend_throw_error(NULL, ...)\<close>.
\<close>

datatype php_error =
    ArgumentValueError nat string
  | ArgumentTypeError nat string
  | TypeError string
  | Error string

text \<open>The \<^verbatim>\<open>errno\<close> values the sources test or set; any other is \<open>OtherErrno\<close>.\<close>

datatype errno =
    EINTR | EAGAIN | EWOULDBLOCK | ENOBUFS | EMFILE | EBADF | ENOENT | EEXIST | EIO | EPIPE
  | ENOSYS | NoErrno | OtherErrno nat

subsection \<open>Byte routines of the C library\<close>

text \<open>\<^verbatim>\<open>memchr(p, c, n)\<close>: offset of the first \<open>c\<close> among the first \<open>n\<close> bytes of \<open>p\<close>.\<close>

fun memchr_list :: "bytes \<Rightarrow> byte \<Rightarrow> nat option" where
  "memchr_list [] c = None"
| "memchr_list (b # bs) c = (if b = c then Some 0 else map_option Suc (memchr_list bs c))"

definition memchr :: "bytes \<Rightarrow> byte \<Rightarrow> nat \<Rightarrow> nat option" where
  [ws_eval]: "memchr p c n = memchr_list (take n p) c"

text \<open>ASCII lower case, as \<^verbatim>\<open>tolower\<close> in the C locale and \<^verbatim>\<open>zend_string_tolower\<close>.\<close>

definition to_lower :: "byte \<Rightarrow> byte" where
  [ws_eval]: "to_lower b = (if 65 \<le> b \<and> b \<le> 90 then b + 32 else b)"

subsection \<open>Decimal numerals (\<^verbatim>\<open>%u\<close>, \<^verbatim>\<open>%zu\<close>, \<^verbatim>\<open>%ld\<close>)\<close>

fun decimal :: "nat \<Rightarrow> string" where
  "decimal n = (if n < 10 then [char_of (48 + n)] else decimal (n div 10) @ [char_of (48 + n mod 10)])"

declare decimal.simps [simp del]

definition decimal_int :: "int \<Rightarrow> string" where
  [ws_eval]: "decimal_int i = (if i < 0 then ''-'' @ decimal (nat (- i)) else decimal (nat i))"

subsection \<open>Lemmas on \<^const>\<open>memchr\<close>\<close>

lemma memchr_list_SomeD:
  "memchr_list bs c = Some i \<Longrightarrow>
     i < length bs \<and> bs ! i = c \<and> c \<notin> set (take i bs)"
  by (induction bs arbitrary: i) (auto split: if_splits simp: less_Suc_eq_0_disj)

lemma memchr_list_None_iff: "memchr_list bs c = None \<longleftrightarrow> c \<notin> set bs"
  by (induction bs) auto

lemma memchr_list_append_hit [simp]:
  "c \<notin> set xs \<Longrightarrow> memchr_list (xs @ c # ys) c = Some (length xs)"
  by (induction xs) auto

lemma memchr_SomeD:
  assumes "memchr p c n = Some i"
  shows "i < n" "i < length p" "p ! i = c" "c \<notin> set (take i p)"
proof -
  have "i < length (take n p) \<and> take n p ! i = c \<and> c \<notin> set (take i (take n p))"
    using assms by (auto simp: memchr_def dest: memchr_list_SomeD)
  then show "i < n" "i < length p" "p ! i = c" "c \<notin> set (take i p)"
    by (auto simp: min_def split: if_splits)
qed

lemma memchr_None_iff: "memchr p c n = None \<longleftrightarrow> c \<notin> set (take n p)"
  by (simp add: memchr_def memchr_list_None_iff)

subsection \<open>Lemmas on lists\<close>

lemma take_drop_nth_Cons:
  "i < length xs \<Longrightarrow> drop i xs = xs ! i # drop (Suc i) xs"
  by (simp add: Cons_nth_drop_Suc)

lemma drop_eq_ConsD:
  assumes "drop i xs = y # ys"
  shows "i < length xs" "xs ! i = y" "drop (Suc i) xs = ys"
proof -
  show i: "i < length xs"
    using assms by (metis drop_all list.distinct(1) not_le)
  from i assms show "xs ! i = y" and "drop (Suc i) xs = ys"
    by (simp_all add: take_drop_nth_Cons)
qed

lemma length_le_4_Cons:
  "length xs = 4 \<longleftrightarrow> (\<exists>a b c d. xs = [a, b, c, d])"
  by (auto simp: length_Suc_conv eval_nat_numeral)

subsection \<open>Exhaustive reasoning on bytes\<close>

lemma byte_all_iff: "(\<forall>b::byte. P b) \<longleftrightarrow> (\<forall>n\<in>set [0..<256]. P (word_of_nat n))"
proof
  assume h: "\<forall>n\<in>set [0..<256]. P (word_of_nat n)"
  show "\<forall>b::byte. P b"
  proof
    fix b :: byte
    have "unat b \<in> set [0..<256]" using unsigned_less [of b] by simp
    with h have "P (word_of_nat (unat b))" by (rule bspec)
    then show "P b" by simp
  qed
qed auto

lemma unat_byte_less [simp]: "unat (b::byte) < 256"
  using unsigned_less [of b] by simp

end
