(* ===== verification/Ws_Utf8.thy ===== *)
theory Ws_Utf8
  imports Ws_Prelude
begin

text \<open>
  UTF-8 validation (\<^verbatim>\<open>websocket_protocol_is_valid_utf8\<close> of \<^verbatim>\<open>websocket_protocol.c\<close>):
  the loop over the payload as the code writes it, and its specification: the
  accepted byte strings are exactly the concatenations of the UTF-8 encodings of
  Unicode scalar values (Unicode Standard, definitions D76 and D92).
\<close>

subsection \<open>The loop of the code\<close>

text \<open>
  \<open>i\<close> is the loop index; every read \<open>bytes ! (i + k)\<close> stands behind the code's own
  test of \<open>i + k\<close> against \<open>payload_len\<close>.
\<close>

function utf8_loop :: "bytes \<Rightarrow> nat \<Rightarrow> nat \<Rightarrow> bool" where
  "utf8_loop bytes payload_len i =
    (if i < payload_len then
       (let c = bytes ! i in
        if c \<le> 0x7f then utf8_loop bytes payload_len (i + 1)
        else if c \<ge> 0xc2 \<and> c \<le> 0xdf then
          (if i + 1 \<ge> payload_len \<or> bytes ! (i + 1) AND 0xc0 \<noteq> 0x80 then False
           else utf8_loop bytes payload_len (i + 2))
        else if c = 0xe0 then
          (if i + 2 \<ge> payload_len \<or> bytes ! (i + 1) < 0xa0 \<or> bytes ! (i + 1) > 0xbf
              \<or> bytes ! (i + 2) AND 0xc0 \<noteq> 0x80 then False
           else utf8_loop bytes payload_len (i + 3))
        else if (c \<ge> 0xe1 \<and> c \<le> 0xec) \<or> (c \<ge> 0xee \<and> c \<le> 0xef) then
          (if i + 2 \<ge> payload_len \<or> bytes ! (i + 1) AND 0xc0 \<noteq> 0x80
              \<or> bytes ! (i + 2) AND 0xc0 \<noteq> 0x80 then False
           else utf8_loop bytes payload_len (i + 3))
        else if c = 0xed then
          (if i + 2 \<ge> payload_len \<or> bytes ! (i + 1) < 0x80 \<or> bytes ! (i + 1) > 0x9f
              \<or> bytes ! (i + 2) AND 0xc0 \<noteq> 0x80 then False
           else utf8_loop bytes payload_len (i + 3))
        else if c = 0xf0 then
          (if i + 3 \<ge> payload_len \<or> bytes ! (i + 1) < 0x90 \<or> bytes ! (i + 1) > 0xbf
              \<or> bytes ! (i + 2) AND 0xc0 \<noteq> 0x80 \<or> bytes ! (i + 3) AND 0xc0 \<noteq> 0x80 then False
           else utf8_loop bytes payload_len (i + 4))
        else if c \<ge> 0xf1 \<and> c \<le> 0xf3 then
          (if i + 3 \<ge> payload_len \<or> bytes ! (i + 1) AND 0xc0 \<noteq> 0x80
              \<or> bytes ! (i + 2) AND 0xc0 \<noteq> 0x80 \<or> bytes ! (i + 3) AND 0xc0 \<noteq> 0x80 then False
           else utf8_loop bytes payload_len (i + 4))
        else if c = 0xf4 then
          (if i + 3 \<ge> payload_len \<or> bytes ! (i + 1) < 0x80 \<or> bytes ! (i + 1) > 0x8f
              \<or> bytes ! (i + 2) AND 0xc0 \<noteq> 0x80 \<or> bytes ! (i + 3) AND 0xc0 \<noteq> 0x80 then False
           else utf8_loop bytes payload_len (i + 4))
        else False)
     else True)"
  by pat_completeness auto
termination
  by (relation "measure (\<lambda>(bytes, payload_len, i). payload_len - i)") auto

declare utf8_loop.simps [simp del]

definition websocket_protocol_is_valid_utf8 :: "bytes \<Rightarrow> bool" where
  [ws_eval]: "websocket_protocol_is_valid_utf8 payload = utf8_loop payload (length payload) 0"

subsection \<open>Specification: encodings of Unicode scalar values\<close>

definition unicode_scalar :: "nat \<Rightarrow> bool" where
  [ws_eval]: "unicode_scalar cp \<longleftrightarrow> cp < 0xD800 \<or> 0xE000 \<le> cp \<and> cp \<le> 0x10FFFF"

definition utf8_units :: "nat \<Rightarrow> nat list" where
  [ws_eval]: "utf8_units cp =
    (if cp < 0x80 then [cp]
     else if cp < 0x800 then [0xC0 + cp div 64, 0x80 + cp mod 64]
     else if cp < 0x10000 then [0xE0 + cp div 4096, 0x80 + cp div 64 mod 64, 0x80 + cp mod 64]
     else [0xF0 + cp div 262144, 0x80 + cp div 4096 mod 64, 0x80 + cp div 64 mod 64,
           0x80 + cp mod 64])"

definition utf8_encode :: "nat \<Rightarrow> bytes" where
  [ws_eval]: "utf8_encode cp = map word_of_nat (utf8_units cp)"

definition utf8_text :: "bytes \<Rightarrow> bool" where
  "utf8_text bs \<longleftrightarrow>
    (\<exists>cps. (\<forall>cp\<in>set cps. unicode_scalar cp) \<and> bs = concat (map utf8_encode cps))"

subsection \<open>One step of the loop, read off the remaining bytes\<close>

text \<open>
  \<open>utf8_len n ns\<close> is the length of the well-formed sequence that starts with the byte
  \<open>n\<close> and goes on with \<open>ns\<close>, over the values of the bytes.
\<close>

definition cont_byte :: "nat \<Rightarrow> bool" where
  "cont_byte n \<longleftrightarrow> 128 \<le> n \<and> n \<le> 191"

fun utf8_len :: "nat \<Rightarrow> nat list \<Rightarrow> nat option" where
  "utf8_len c ns =
    (if c \<le> 127 then Some 1
     else case ns of [] \<Rightarrow> None
     | d # ns1 \<Rightarrow>
       if 194 \<le> c \<and> c \<le> 223 then (if cont_byte d then Some 2 else None)
       else (case ns1 of [] \<Rightarrow> None
       | e # ns2 \<Rightarrow>
         if 224 \<le> c \<and> c \<le> 239 then
           (if cont_byte d \<and> cont_byte e \<and> (c = 224 \<longrightarrow> 160 \<le> d) \<and> (c = 237 \<longrightarrow> d \<le> 159)
            then Some 3 else None)
         else (case ns2 of [] \<Rightarrow> None
         | f # ns3 \<Rightarrow>
           if 240 \<le> c \<and> c \<le> 244 \<and> cont_byte d \<and> cont_byte e \<and> cont_byte f
              \<and> (c = 240 \<longrightarrow> 144 \<le> d) \<and> (c = 244 \<longrightarrow> d \<le> 143)
           then Some 4 else None)))"

lemma cont_byte_word: "((b::byte) AND 0xc0 = 0x80) = cont_byte (unat b)"
proof -
  have "b AND push_bit 6 (mask 2) = push_bit 6 (drop_bit 6 b)"
    by (auto simp: bit_simps intro!: bit_word_eqI dest: bit_imp_le_length)
  then have "b AND 0xc0 = push_bit 6 (drop_bit 6 b)" by (simp add: mask_eq_exp_minus_1)
  moreover have "unat b div 64 * 64 < 256"
    using div_times_less_eq_dividend [of "unat b" 64] unat_byte_less [of b] by linarith
  then have "unat (push_bit 6 (drop_bit 6 b)) = unat b div 64 * 64"
    by (simp add: unsigned_push_bit_eq unsigned_drop_bit_eq take_bit_eq_mod)
      (simp add: push_bit_eq_mult drop_bit_eq_div)
  ultimately show ?thesis by (auto simp: cont_byte_def word_unat_eq_iff)
qed

lemmas byte_unat = word_le_nat_alt word_less_nat_alt word_unat_eq_iff cont_byte_word

lemma utf8_len_cases [consumes 1, case_names one two three four]:
  assumes "utf8_len c ns = Some k"
  obtains (one) "k = 1" "c \<le> 127"
  | (two) d r where "k = 2" "ns = d # r" "194 \<le> c" "c \<le> 223" "cont_byte d"
  | (three) d e r where "k = 3" "ns = d # e # r" "224 \<le> c" "c \<le> 239" "cont_byte d"
      "cont_byte e" "c = 224 \<longrightarrow> 160 \<le> d" "c = 237 \<longrightarrow> d \<le> 159"
  | (four) d e f r where "k = 4" "ns = d # e # f # r" "240 \<le> c" "c \<le> 244" "cont_byte d"
      "cont_byte e" "cont_byte f" "c = 240 \<longrightarrow> 144 \<le> d" "c = 244 \<longrightarrow> d \<le> 143"
  using assms by (auto split: if_splits list.splits)

lemma lead_byte_cases:
  "(c::nat) \<le> 127 \<or> (128 \<le> c \<and> c \<le> 193) \<or> (194 \<le> c \<and> c \<le> 223) \<or> c = 224
   \<or> (225 \<le> c \<and> c \<le> 236) \<or> c = 237 \<or> (238 \<le> c \<and> c \<le> 239) \<or> c = 240
   \<or> (241 \<le> c \<and> c \<le> 243) \<or> c = 244 \<or> 245 \<le> c"
  by arith

lemma utf8_loop_step:
  assumes i: "i < length bs"
  shows "utf8_loop bs (length bs) i =
    (case utf8_len (unat (bs ! i)) (map unat (drop (Suc i) bs)) of
       None \<Rightarrow> False | Some k \<Rightarrow> utf8_loop bs (length bs) (i + k))"
proof -
  have len: "length bs = Suc i + length (drop (Suc i) bs)" using i by simp
  have nth: "bs ! (i + Suc k) = drop (Suc i) bs ! k" for k using i by simp
  note nths = nth [of 0] nth [of 1] nth [of 2]
  consider (z) "drop (Suc i) bs = []" | (o) d where "drop (Suc i) bs = [d]"
    | (t) d e where "drop (Suc i) bs = [d, e]"
    | (m) d e f r where "drop (Suc i) bs = d # e # f # r"
    by (metis list.exhaust)
  then show ?thesis
  proof cases
    case z
    have "length bs = Suc i" using len unfolding z by simp
    then show ?thesis unfolding z using lead_byte_cases [of "unat (bs ! i)"]
      by (subst utf8_loop.simps, unfold cont_byte_word Let_def) (elim disjE; simp add: byte_unat)
  next
    case (o d)
    have "length bs = i + 2" "bs ! (i + 1) = d" using len nths unfolding o by simp_all
    then show ?thesis unfolding o using lead_byte_cases [of "unat (bs ! i)"]
      by (subst utf8_loop.simps, unfold cont_byte_word Let_def) (elim disjE; simp add: byte_unat)
  next
    case (t d e)
    have "length bs = i + 3" "bs ! (i + 1) = d" "bs ! (i + 2) = e"
      using len nths unfolding t by (simp_all add: numeral_2_eq_2)
    then show ?thesis unfolding t using lead_byte_cases [of "unat (bs ! i)"]
      by (subst utf8_loop.simps, unfold cont_byte_word Let_def) (elim disjE; simp add: byte_unat cont_byte_def)
  next
    case (m d e f r)
    have "length bs = i + 4 + length r" "bs ! (i + 1) = d" "bs ! (i + 2) = e" "bs ! (i + 3) = f"
      using len nths unfolding m by (simp_all add: numeral_2_eq_2 numeral_3_eq_3)
    then show ?thesis unfolding m using lead_byte_cases [of "unat (bs ! i)"]
      by (subst utf8_loop.simps, unfold cont_byte_word Let_def) (elim disjE; simp add: byte_unat cont_byte_def)
  qed
qed
subsection \<open>The sequences accepted by one step are the encoded scalar values\<close>

lemma div_mod_parts:
  fixes n :: nat
  shows "n = 64 * (n div 64) + n mod 64" "n mod 64 < 64"
    "n div 4096 = n div 64 div 64" "n div 262144 = n div 64 div 64 div 64"
    "n div 4096 mod 64 = n div 64 div 64 mod 64"
  by (simp_all add: div_mult2_eq [symmetric])

lemma utf8_units_len:
  assumes "unicode_scalar cp"
  shows "\<exists>c cs. utf8_units cp = c # cs \<and> utf8_len c (cs @ ns) = Some (length (utf8_units cp))"
proof -
  define q r s where "q = cp div 64" and "r = q div 64" and "s = r div 64"
  define z y x where "z = cp mod 64" and "y = q mod 64" and "x = r mod 64"
  have eqs: "cp = 64 * q + z" "q = 64 * r + y" "r = 64 * s + x" "z < 64" "y < 64" "x < 64"
    unfolding q_def r_def s_def x_def y_def z_def by (simp_all only: div_mod_parts)
  have units: "utf8_units cp =
    (if cp < 0x80 then [cp] else if cp < 0x800 then [0xC0 + q, 0x80 + z]
     else if cp < 0x10000 then [0xE0 + r, 0x80 + y, 0x80 + z]
     else [0xF0 + s, 0x80 + x, 0x80 + y, 0x80 + z])"
    unfolding utf8_units_def q_def r_def s_def x_def y_def z_def by (simp only: div_mod_parts)
  consider "cp < 0x80" | "0x80 \<le> cp" "cp < 0x800" | "0x800 \<le> cp" "cp < 0x10000"
    | "0x10000 \<le> cp" "cp \<le> 0x10FFFF"
    using assms unfolding unicode_scalar_def by linarith
  then show ?thesis
  proof cases
    case 1 then show ?thesis by (simp add: units)
  next
    case 2
    have "2 \<le> q" "q \<le> 31" using 2 eqs by linarith+
    with 2 eqs(4-6) show ?thesis by (simp add: units cont_byte_def)
  next
    case 3
    have "r \<le> 15" "r = 0 \<longrightarrow> 32 \<le> y" using 3 eqs by linarith+
    moreover have "r = 13 \<longrightarrow> y \<le> 31"
      using assms eqs unfolding unicode_scalar_def by linarith
    ultimately show ?thesis using 3 eqs(4-6) by (simp add: units cont_byte_def)
  next
    case 4
    have "s \<le> 4" "s = 0 \<longrightarrow> 16 \<le> x" "s = 4 \<longrightarrow> x \<le> 15" using 4 eqs by linarith+
    then show ?thesis using 4 eqs(4-6) by (simp add: units cont_byte_def)
  qed
qed

lemma utf8_len_units:
  assumes "utf8_len c ns = Some k"
  shows "\<exists>cp. unicode_scalar cp \<and> utf8_units cp = take k (c # ns) \<and> k \<le> Suc (length ns)"
  using assms
proof (cases rule: utf8_len_cases)
  case one
  then show ?thesis by (intro exI [of _ c]) (simp add: utf8_units_def unicode_scalar_def)
next
  case (two d r)
  define x y where "x = c - 192" and "y = d - 128"
  then have v: "c = 192 + x" "d = 128 + y" "2 \<le> x" "x < 32" "y < 64"
    using two by (auto simp: cont_byte_def)
  define cp where "cp = 64 * x + y"
  have "0x80 \<le> cp" "cp < 0x800" "cp div 64 = x" "cp mod 64 = y"
    using v by (simp_all add: cp_def)
  with two v show ?thesis by (intro exI [of _ cp]) (simp add: utf8_units_def unicode_scalar_def)
next
  case (three d e r)
  define x y z where "x = c - 224" and "y = d - 128" and "z = e - 128"
  then have v: "c = 224 + x" "d = 128 + y" "e = 128 + z" "x < 16" "y < 64" "z < 64"
    and c: "x = 0 \<longrightarrow> 32 \<le> y" "x = 13 \<longrightarrow> y < 32"
    using three by (auto simp: cont_byte_def)
  define q where "q = 64 * x + y"
  define cp where "cp = 64 * q + z"
  have b: "0x800 \<le> cp" "cp < 0x10000"
    using v c by (cases "x = 0"; simp add: cp_def q_def)+
  moreover have "x \<le> 12 \<Longrightarrow> cp < 0xD800" "x = 13 \<Longrightarrow> cp < 0xD800" "14 \<le> x \<Longrightarrow> 0xE000 \<le> cp"
    using v c by (simp_all add: cp_def q_def)
  with b have "unicode_scalar cp" unfolding unicode_scalar_def by linarith
  moreover have "cp div 64 = q" "cp mod 64 = z" using v by (simp_all add: cp_def)
  moreover have "q div 64 = x" "q mod 64 = y" using v by (simp_all add: q_def)
  ultimately show ?thesis using three v
    by (intro exI [of _ cp]) (simp add: utf8_units_def div_mod_parts(3))
next
  case (four d e f r)
  define w x y z where "w = c - 240" and "x = d - 128" and "y = e - 128" and "z = f - 128"
  then have v: "c = 240 + w" "d = 128 + x" "e = 128 + y" "f = 128 + z" "w \<le> 4" "x < 64" "y < 64"
    "z < 64" and c: "w = 0 \<longrightarrow> 16 \<le> x" "w = 4 \<longrightarrow> x < 16"
    using four by (auto simp: cont_byte_def)
  define r' where "r' = 64 * w + x"
  define q where "q = 64 * r' + y"
  define cp where "cp = 64 * q + z"
  have "0x10000 \<le> cp" "cp \<le> 0x10FFFF"
    using v c by (cases "w = 0"; cases "w = 4"; simp add: cp_def q_def r'_def)+
  moreover have "cp div 64 = q" "cp mod 64 = z" using v by (simp_all add: cp_def)
  moreover have "q div 64 = r'" "q mod 64 = y" using v by (simp_all add: q_def)
  moreover have "r' div 64 = w" "r' mod 64 = x" using v by (simp_all add: r'_def)
  ultimately show ?thesis using four v
    by (intro exI [of _ cp]) (simp add: utf8_units_def div_mod_parts(3-5) unicode_scalar_def)
qed
subsection \<open>The loop accepts exactly the UTF-8 texts\<close>

lemma utf8_units_byte:
  assumes "unicode_scalar cp" "n \<in> set (utf8_units cp)"
  shows "n < 256"
proof -
  obtain c cs where c: "utf8_units cp = c # cs" "utf8_len c (cs @ []) = Some (length (c # cs))"
    using utf8_units_len [OF assms(1), of "[]"] by auto
  from c(2) show ?thesis
    by (cases rule: utf8_len_cases) (use c(1) assms(2) in \<open>auto simp: cont_byte_def\<close>)
qed

lemma map_unat_utf8_encode: "unicode_scalar cp \<Longrightarrow> map unat (utf8_encode cp) = utf8_units cp"
  using utf8_units_byte by (simp add: utf8_encode_def map_idI unat_of_nat o_def)

lemma utf8_text_Nil [simp]: "utf8_text []"
  unfolding utf8_text_def by (intro exI [of _ "[]"]) simp

lemma utf8_text_append:
  assumes "unicode_scalar cp" "utf8_text bs"
  shows "utf8_text (utf8_encode cp @ bs)"
proof -
  obtain cps where "\<forall>cp\<in>set cps. unicode_scalar cp" "bs = concat (map utf8_encode cps)"
    using assms(2) by (auto simp: utf8_text_def)
  with assms(1) show ?thesis
    unfolding utf8_text_def by (intro exI [of _ "cp # cps"]) simp
qed

lemma utf8_loop_sound:
  assumes "i \<le> length bs" "utf8_loop bs (length bs) i"
  shows "utf8_text (drop i bs)"
  using assms
proof (induction "length bs - i" arbitrary: i rule: less_induct)
  case less
  show ?case
  proof (cases "i = length bs")
    case False
    with less.prems have i: "i < length bs" by simp
    let ?b = "bs ! i" and ?r = "drop (Suc i) bs"
    from utf8_loop_step [OF i] less.prems obtain k where
      k: "utf8_len (unat ?b) (map unat ?r) = Some k" "utf8_loop bs (length bs) (i + k)"
      by (auto split: option.splits)
    obtain cp where cp: "unicode_scalar cp" "utf8_units cp = take k (map unat (drop i bs))"
      and len: "k \<le> length (drop i bs)"
      using utf8_len_units [OF k(1)] i by (auto simp: take_drop_nth_Cons simp del: utf8_len.simps)
    have "0 < k" using k(1) by (cases rule: utf8_len_cases) simp_all
    moreover have "i + k \<le> length bs" using len i by simp
    ultimately have "utf8_text (drop (i + k) bs)" using less.hyps [of "i + k"] k(2) i by simp
    moreover have "utf8_encode cp = take k (drop i bs)"
      by (simp add: utf8_encode_def cp(2) take_map o_def)
    ultimately show ?thesis using utf8_text_append [OF cp(1)]
      by (metis add.commute append_take_drop_id drop_drop)
  qed simp
qed

lemma utf8_loop_end [simp]: "n \<le> i \<Longrightarrow> utf8_loop bs n i"
  by (simp add: utf8_loop.simps [of bs n i])

lemma utf8_loop_complete:
  assumes "i \<le> length bs" "drop i bs = concat (map utf8_encode cps)"
    "\<forall>cp\<in>set cps. unicode_scalar cp"
  shows "utf8_loop bs (length bs) i"
  using assms
proof (induction cps arbitrary: i)
  case Nil
  then show ?case by simp
next
  case (Cons cp cps)
  let ?rest = "concat (map utf8_encode cps)"
  have cp: "unicode_scalar cp" using Cons.prems by simp
  obtain c cs where c: "utf8_units cp = c # cs"
    "utf8_len c (cs @ map unat ?rest) = Some (length (utf8_units cp))"
    using utf8_units_len [OF cp] by blast
  have len: "length (utf8_encode cp) = length (utf8_units cp)" by (simp add: utf8_encode_def)
  have d: "map unat (drop i bs) = c # cs @ map unat ?rest"
    using Cons.prems(2) map_unat_utf8_encode [OF cp] c(1) by simp
  then have i: "i < length bs" by (cases "i < length bs") auto
  with d have h: "unat (bs ! i) = c" "map unat (drop (Suc i) bs) = cs @ map unat ?rest"
    by (simp_all add: take_drop_nth_Cons)
  have dr: "drop (i + length (utf8_units cp)) bs = ?rest"
    using arg_cong [OF Cons.prems(2), of "drop (length (utf8_units cp))"] len
    by (simp add: add.commute)
  have "i + length (utf8_units cp) \<le> length bs"
    using arg_cong [OF d, of length] i c(1) by simp
  then have "utf8_loop bs (length bs) (i + length (utf8_units cp))"
    using Cons.IH dr Cons.prems(3) by simp
  then show ?case using utf8_loop_step [OF i] h c(2) by simp
qed

lemma valid_utf8_text: "websocket_protocol_is_valid_utf8 payload \<longleftrightarrow> utf8_text payload"
  using utf8_loop_sound [of 0 payload] utf8_loop_complete [of 0 payload]
  by (auto simp: websocket_protocol_is_valid_utf8_def utf8_text_def)

text \<open>The UTF-8 check of the protocol layer accepts a byte string exactly when it is the
  concatenation of the UTF-8 encodings of Unicode scalar values: no overlong form, no
  surrogate, nothing above U+10FFFF, no truncated sequence.
\<close>

theorem is_valid_utf8_iff:
  "websocket_protocol_is_valid_utf8 payload \<longleftrightarrow> utf8_text payload"
  by (rule valid_utf8_text)

end
