(* ===== verification/Ws_Mask.thy ===== *)
theory Ws_Mask
  imports Ws_Prelude
begin

text \<open>
  Payload masking: the word-at-a-time copy \<^verbatim>\<open>websocket_mask_payload_copy\<close> of
  \<^verbatim>\<open>websocket_protocol.c\<close>, the byte loop \<^verbatim>\<open>websocket_server_mask_payload\<close> of
  \<^verbatim>\<open>websocket_server_runtime.c\<close>, and the proof that both write the same bytes,
  those of the RFC 6455 masking rule.

  A buffer is a list; a store of bytes at an offset replaces that many bytes. The
  copy loads and stores machine words with \<^verbatim>\<open>memcpy\<close>, so its intermediate values
  depend on the byte order of the host, the parameter \<open>le\<close> (\<open>True\<close> for little endian).
\<close>

subsection \<open>Memory accesses\<close>

definition store_at :: "bytes \<Rightarrow> nat \<Rightarrow> bytes \<Rightarrow> bytes" where
  [ws_eval]: "store_at dst i bs = take i dst @ bs @ drop (i + length bs) dst"

definition load32 :: "bool \<Rightarrow> bytes \<Rightarrow> 32 word" where
  [ws_eval]: "load32 le bs =
    (let b = (if le then bs else rev bs) in
     ucast (b ! 0) OR push_bit 8 (ucast (b ! 1)) OR push_bit 16 (ucast (b ! 2))
     OR push_bit 24 (ucast (b ! 3)))"

definition store32 :: "bool \<Rightarrow> 32 word \<Rightarrow> bytes" where
  [ws_eval]: "store32 le w =
    (let b = [ucast w, ucast (drop_bit 8 w), ucast (drop_bit 16 w), ucast (drop_bit 24 w)] in
     if le then b else rev b)"

definition load64 :: "bool \<Rightarrow> bytes \<Rightarrow> u64" where
  [ws_eval]: "load64 le bs =
    (let b = (if le then bs else rev bs) in
     ucast (b ! 0) OR push_bit 8 (ucast (b ! 1)) OR push_bit 16 (ucast (b ! 2))
     OR push_bit 24 (ucast (b ! 3)) OR push_bit 32 (ucast (b ! 4)) OR push_bit 40 (ucast (b ! 5))
     OR push_bit 48 (ucast (b ! 6)) OR push_bit 56 (ucast (b ! 7)))"

definition store64 :: "bool \<Rightarrow> u64 \<Rightarrow> bytes" where
  [ws_eval]: "store64 le w =
    (let b = [ucast w, ucast (drop_bit 8 w), ucast (drop_bit 16 w), ucast (drop_bit 24 w),
              ucast (drop_bit 32 w), ucast (drop_bit 40 w), ucast (drop_bit 48 w),
              ucast (drop_bit 56 w)] in
     if le then b else rev b)"

subsection \<open>The copy of the protocol layer\<close>

function mask_copy64 :: "bool \<Rightarrow> bytes \<Rightarrow> bytes \<Rightarrow> nat \<Rightarrow> u64 \<Rightarrow> nat \<Rightarrow> bytes \<times> nat" where
  "mask_copy64 le dst src len mask64 i =
    (if i + 8 \<le> len then
       (let chunk = load64 le (take 8 (drop i src)) XOR mask64 in
        mask_copy64 le (store_at dst i (store64 le chunk)) src len mask64 (i + 8))
     else (dst, i))"
  by pat_completeness auto
termination
  by (relation "measure (\<lambda>(le, dst, src, len, mask64, i). len - i)") auto

function mask_copy_bytes :: "bytes \<Rightarrow> bytes \<Rightarrow> nat \<Rightarrow> bytes \<Rightarrow> nat \<Rightarrow> bytes" where
  "mask_copy_bytes dst src len key i =
    (if i < len then
       mask_copy_bytes (store_at dst i [src ! i XOR key ! (i AND 3)]) src len key (i + 1)
     else dst)"
  by pat_completeness auto
termination
  by (relation "measure (\<lambda>(dst, src, len, key, i). len - i)") auto

declare mask_copy64.simps [simp del] mask_copy_bytes.simps [simp del]

definition websocket_mask_payload_copy ::
    "bool \<Rightarrow> bytes \<Rightarrow> bytes \<Rightarrow> nat \<Rightarrow> bytes \<Rightarrow> bytes" where
  [ws_eval]: "websocket_mask_payload_copy le dst src len key =
    (let mask32 = load32 le key;
         mask64 = push_bit 32 (ucast mask32) OR ucast mask32;
         (dst1, i) = mask_copy64 le dst src len mask64 0;
         (dst2, i2) =
           (if i + 4 \<le> len then
              (let chunk = load32 le (take 4 (drop i src)) XOR mask32 in
               (store_at dst1 i (store32 le chunk), i + 4))
            else (dst1, i))
     in mask_copy_bytes dst2 src len key i2)"

subsection \<open>The byte loop of the server\<close>

definition websocket_server_mask_payload :: "bytes \<Rightarrow> bytes \<Rightarrow> nat \<Rightarrow> bytes \<Rightarrow> bytes" where
  [ws_eval]: "websocket_server_mask_payload dst src len key = mask_copy_bytes dst src len key 0"

subsection \<open>The masking rule\<close>

definition mask_payload :: "bytes \<Rightarrow> bytes \<Rightarrow> bytes" where
  [ws_eval]: "mask_payload key src = map (\<lambda>i. src ! i XOR key ! (i mod 4)) [0..<length src]"

lemma length_mask_payload [simp]: "length (mask_payload key src) = length src"
  by (simp add: mask_payload_def)

lemma nth_mask_payload [simp]:
  "i < length src \<Longrightarrow> mask_payload key src ! i = src ! i XOR key ! (i mod 4)"
  by (simp add: mask_payload_def)

lemma mask_payload_involution [simp]: "mask_payload key (mask_payload key src) = src"
  by (rule nth_equalityI) (simp_all add: xor.assoc)

lemma nat_and_3: "(i::nat) AND 3 = i mod 4"
proof -
  have "(3::nat) = mask 2" by (simp add: mask_eq_exp_minus_1)
  then show ?thesis by (simp only: take_bit_eq_mask [symmetric]) (simp add: take_bit_eq_mod)
qed

subsection \<open>The word-at-a-time copy masks every byte\<close>

lemma bit_byte_ge [simp]: "8 \<le> n \<Longrightarrow> \<not> bit (b::byte) n"
  by (auto dest: bit_imp_le_length)

lemma bit_word32_ge [simp]: "32 \<le> n \<Longrightarrow> \<not> bit (b::32 word) n"
  by (auto dest: bit_imp_le_length)

lemma store32_load32 [simp]: "store32 le (load32 le [a, b, c, d]) = [a, b, c, d]"
  by (cases le) (auto simp: store32_def load32_def Let_def bit_simps intro!: bit_word_eqI)

lemma store64_load64 [simp]:
  "store64 le (load64 le [a, b, c, d, e, f, g, h]) = [a, b, c, d, e, f, g, h]"
  by (cases le) (auto simp: store64_def load64_def Let_def bit_simps intro!: bit_word_eqI)

lemma store32_xor: "store32 le (v XOR w) = map2 (XOR) (store32 le v) (store32 le w)"
  by (cases le) (auto simp: store32_def Let_def bit_simps intro!: bit_word_eqI)

lemma store64_xor: "store64 le (v XOR w) = map2 (XOR) (store64 le v) (store64 le w)"
  by (cases le) (auto simp: store64_def Let_def bit_simps intro!: bit_word_eqI)

lemma store64_pair:
  "store64 le (push_bit 32 (ucast m) OR ucast (m :: 32 word)) = store32 le m @ store32 le m"
  by (cases le) (auto simp: store64_def store32_def Let_def bit_simps intro!: bit_word_eqI)

text \<open>One masked word is the bytes of the source masked from an offset divisible by four.\<close>

lemma list4E: "length xs = 4 \<Longrightarrow> (\<And>a b c d. xs = [a, b, c, d] \<Longrightarrow> P) \<Longrightarrow> P"
  by (auto simp: length_Suc_conv eval_nat_numeral)

lemma store32_masked:
  assumes "length bs = 4" "length key = 4"
  shows "store32 le (load32 le bs XOR load32 le key) = map2 (XOR) bs key"
  using assms by (elim list4E) (simp add: store32_xor)

lemma store64_masked:
  assumes "length bs = 8" "length key = 4"
  shows "store64 le (load64 le bs XOR
     (push_bit 32 (ucast (load32 le key)) OR ucast (load32 le key))) = map2 (XOR) bs (key @ key)"
proof -
  obtain a b c d e f g h where "bs = [a, b, c, d, e, f, g, h]"
    using assms(1) by (auto simp: length_Suc_conv eval_nat_numeral)
  with assms(2) show ?thesis by (elim list4E) (simp add: store64_xor store64_pair)
qed

text \<open>
  \<open>masked_upto dst src key i\<close>: the destination holds the masked source before \<open>i\<close> and
  has the source's length.
\<close>

definition masked_upto :: "bytes \<Rightarrow> bytes \<Rightarrow> bytes \<Rightarrow> nat \<Rightarrow> bool" where
  "masked_upto dst src key i \<longleftrightarrow>
     length dst = length src \<and> take i dst = take i (mask_payload key src)"

lemma masked_upto_0 [simp]: "masked_upto dst src key 0 \<longleftrightarrow> length dst = length src"
  by (simp add: masked_upto_def)

lemma masked_upto_full: "masked_upto dst src key (length src) \<Longrightarrow> dst = mask_payload key src"
  by (metis length_mask_payload masked_upto_def take_all_iff order_refl)

lemma masked_upto_store:
  assumes "masked_upto dst src key i" "i + length bs \<le> length src"
    and "\<And>k. k < length bs \<Longrightarrow> bs ! k = src ! (i + k) XOR key ! ((i + k) mod 4)"
  shows "masked_upto (store_at dst i bs) src key (i + length bs)"
proof -
  let ?n = "i + length bs"
  have "bs = drop i (take ?n (mask_payload key src))"
    using assms(2,3) by (intro nth_equalityI) simp_all
  then have "take ?n (mask_payload key src) = take i (mask_payload key src) @ bs"
    by (metis append_take_drop_id le_add1 min_absorb1 take_take)
  with assms(1,2) show ?thesis by (simp add: masked_upto_def store_at_def)
qed

lemma mask_copy64_masked:
  assumes "masked_upto dst src key i" "i \<le> len" "len = length src" "length key = 4" "4 dvd i"
    and "mask64 = push_bit 32 (ucast (load32 le key)) OR ucast (load32 le key)"
    and "mask_copy64 le dst src len mask64 i = (dst', i')"
  shows "masked_upto dst' src key i' \<and> i' \<le> len \<and> 4 dvd i'"
  using assms
proof (induction le dst src len mask64 i rule: mask_copy64.induct)
  case (1 le dst src len mask64 i)
  show ?case
  proof (cases "i + 8 \<le> len")
    case True
    let ?c = "store64 le (load64 le (take 8 (drop i src)) XOR mask64)"
    have c: "?c = map2 (XOR) (take 8 (drop i src)) (key @ key)"
      using True "1.prems"(3,4,6) by (simp add: store64_masked)
    have len: "length ?c = 8" using c True "1.prems"(3,4) by simp
    have "?c ! k = src ! (i + k) XOR key ! ((i + k) mod 4)" if k: "k < 8" for k
    proof -
      have "(key @ key) ! k = key ! (k mod 4)" using k "1.prems"(4) by (auto simp: nth_append mod_if)
      then show ?thesis using k c True "1.prems"(3-5) by (auto simp: dvd_def)
    qed
    then have "masked_upto (store_at dst i ?c) src key (i + 8)"
      using masked_upto_store [of dst src key i ?c] "1.prems"(1,3) True len by simp
    then show ?thesis
      using "1.IH" [OF True refl] True "1.prems" by (subst (asm) (2) mask_copy64.simps) (simp add: Let_def)
  next
    case False
    with "1.prems" show ?thesis by (subst (asm) mask_copy64.simps) simp
  qed
qed

lemma mask_copy_bytes_masked:
  assumes "masked_upto dst src key i" "i \<le> len" "len = length src"
  shows "mask_copy_bytes dst src len key i = mask_payload key src"
  using assms
proof (induction dst src len key i rule: mask_copy_bytes.induct)
  case (1 dst src len key i)
  show ?case
  proof (cases "i < len")
    case True
    have "masked_upto (store_at dst i [src ! i XOR key ! (i AND 3)]) src key (i + 1)"
      using masked_upto_store [of dst src key i "[src ! i XOR key ! (i AND 3)]"] "1.prems" True
      by (simp add: nat_and_3)
    with "1.IH" [OF True] True "1.prems" show ?thesis by (subst mask_copy_bytes.simps) simp
  next
    case False
    with "1.prems" show ?thesis
      by (subst mask_copy_bytes.simps) (simp add: masked_upto_full)
  qed
qed

lemma websocket_mask_payload_copy_eq:
  assumes "length dst = length src" "length key = 4"
  shows "websocket_mask_payload_copy le dst src (length src) key = mask_payload key src"
proof -
  let ?m = "push_bit 32 (ucast (load32 le key)) OR ucast (load32 le key)"
  obtain dst1 i where r: "mask_copy64 le dst src (length src) ?m 0 = (dst1, i)"
    by fastforce
  have i: "masked_upto dst1 src key i" "i \<le> length src" "4 dvd i"
    using mask_copy64_masked [OF _ _ refl assms(2) _ refl r] assms(1) by auto
  show ?thesis
  proof (cases "i + 4 \<le> length src")
    case True
    let ?c = "store32 le (load32 le (take 4 (drop i src)) XOR load32 le key)"
    have c: "?c = map2 (XOR) (take 4 (drop i src)) key"
      using True assms(2) by (intro store32_masked) simp_all
    have "?c ! k = src ! (i + k) XOR key ! ((i + k) mod 4)" if "k < 4" for k
      using that c True assms(2) i(3) by (auto simp: dvd_def)
    then have "masked_upto (store_at dst1 i ?c) src key (i + 4)"
      using masked_upto_store [of dst1 src key i ?c] i True c assms(2) by simp
    then show ?thesis using True r
      by (simp add: websocket_mask_payload_copy_def mask_copy_bytes_masked)
  next
    case False
    with r i show ?thesis
      by (simp add: websocket_mask_payload_copy_def mask_copy_bytes_masked)
  qed
qed

text \<open>The word-at-a-time mask copy of the protocol layer writes, on a host of either byte
  order and into a destination with any previous content, the same bytes as the byte loop of
  the server, and those are the source bytes XORed with the key byte of their index modulo 4.
\<close>

theorem mask_payload_copy_eq_byte_loop:
  assumes "length key = 4" "length dst = length src" "length dst' = length src"
  shows "websocket_mask_payload_copy le dst src (length src) key
           = websocket_server_mask_payload dst' src (length src) key
       \<and> websocket_server_mask_payload dst' src (length src) key = mask_payload key src"
  using assms
  by (simp add: websocket_mask_payload_copy_eq websocket_server_mask_payload_def
        mask_copy_bytes_masked)

theorem mask_payload_copy_eq_byte_loop_witness:
  "websocket_mask_payload_copy True (replicate 5 0) [1, 2, 3, 4, 5] (length [1, 2, 3, 4, 5 :: byte])
     [0x11, 0x22, 0x33, 0x44] = [0x10, 0x20, 0x30, 0x40, 0x14]"
proof -
  have "mask_payload [0x11, 0x22, 0x33, 0x44] [1, 2, 3, 4, 5] = [0x10, 0x20, 0x30, 0x40, 0x14]"
    by code_simp
  then show ?thesis
    using mask_payload_copy_eq_byte_loop
      [of "[0x11, 0x22, 0x33, 0x44]" "replicate 5 0" "[1, 2, 3, 4, 5]" "replicate 5 7" True] by simp
qed

end
