(* ===== verification/Ws_Frame.thy ===== *)
theory Ws_Frame
  imports Ws_Utf8 Ws_Mask
begin

text \<open>
  The protocol layer (\<^verbatim>\<open>websocket_protocol.c\<close>): opcodes and close codes, the frame
  builder \<^verbatim>\<open>websocket_protocol_pack_payload\<close>, the value objects \<^verbatim>\<open>Frame\<close> and
  \<^verbatim>\<open>CloseFrame\<close>, and the static methods \<^verbatim>\<open>Protocol::encode\<close>, \<^verbatim>\<open>pack\<close>, \<^verbatim>\<open>decode\<close> and
  \<^verbatim>\<open>unpack\<close>.

  A \<^verbatim>\<open>zend_long\<close> is an \<open>int\<close>, a \<^verbatim>\<open>uint8_t\<close> a byte, the payload length read from the
  wire a \<open>64 word\<close>. A PHP exception is the left summand of the result. SHA-1 and Base64
  come from PHP's own library and are parameters.
\<close>

subsection \<open>Opcodes, flags and close codes\<close>

abbreviation (input) OPCODE_CONTINUATION :: byte where "OPCODE_CONTINUATION \<equiv> 0x0"
abbreviation (input) OPCODE_TEXT :: byte where "OPCODE_TEXT \<equiv> 0x1"
abbreviation (input) OPCODE_BINARY :: byte where "OPCODE_BINARY \<equiv> 0x2"
abbreviation (input) OPCODE_CLOSE :: byte where "OPCODE_CLOSE \<equiv> 0x8"
abbreviation (input) OPCODE_PING :: byte where "OPCODE_PING \<equiv> 0x9"
abbreviation (input) OPCODE_PONG :: byte where "OPCODE_PONG \<equiv> 0xA"

abbreviation (input) FLAG_FIN :: byte where "FLAG_FIN \<equiv> 0x01"
abbreviation (input) FLAG_COMPRESS :: byte where "FLAG_COMPRESS \<equiv> 0x02"
abbreviation (input) FLAG_RSV1 :: byte where "FLAG_RSV1 \<equiv> 0x04"
abbreviation (input) FLAG_RSV2 :: byte where "FLAG_RSV2 \<equiv> 0x08"
abbreviation (input) FLAG_RSV3 :: byte where "FLAG_RSV3 \<equiv> 0x10"
abbreviation (input) FLAG_MASK :: byte where "FLAG_MASK \<equiv> 0x20"

definition WEBSOCKET_FLAGS_ALL :: byte where
  [ws_eval]: "WEBSOCKET_FLAGS_ALL =
    FLAG_FIN OR FLAG_COMPRESS OR FLAG_RSV1 OR FLAG_RSV2 OR FLAG_RSV3 OR FLAG_MASK"

abbreviation (input) CLOSE_NORMAL :: int where "CLOSE_NORMAL \<equiv> 1000"
abbreviation (input) CLOSE_PROTOCOL_ERROR :: int where "CLOSE_PROTOCOL_ERROR \<equiv> 1002"
abbreviation (input) CLOSE_INVALID_PAYLOAD :: int where "CLOSE_INVALID_PAYLOAD \<equiv> 1007"
abbreviation (input) CLOSE_MESSAGE_TOO_BIG :: int where "CLOSE_MESSAGE_TOO_BIG \<equiv> 1009"

definition WEBSOCKET_CLOSE_REASON_MAX_LEN :: nat where
  [ws_eval]: "WEBSOCKET_CLOSE_REASON_MAX_LEN = 123"

definition websocket_protocol_opcode_is_valid :: "int \<Rightarrow> bool" where
  [ws_eval]: "websocket_protocol_opcode_is_valid opcode \<longleftrightarrow>
    opcode = 0x0 \<or> opcode = 0x1 \<or> opcode = 0x2 \<or> opcode = 0x8 \<or> opcode = 0x9 \<or> opcode = 0xA"

definition websocket_protocol_opcode_is_control :: "int \<Rightarrow> bool" where
  [ws_eval]: "websocket_protocol_opcode_is_control opcode \<longleftrightarrow> opcode \<ge> 0x8 \<and> opcode \<le> 0xf"

definition websocket_protocol_close_code_is_valid :: "int \<Rightarrow> bool" where
  [ws_eval]: "websocket_protocol_close_code_is_valid code =
    (if code < 1000 \<or> code > 4999 then False
     else \<not> (code = 1004 \<or> code = 1005 \<or> code = 1006 \<or> code = 1015))"

datatype message_type = Continuation | Text | Binary | Close | Ping | Pong

fun websocket_protocol_message_type_opcode :: "message_type \<Rightarrow> byte" where
  "websocket_protocol_message_type_opcode Continuation = OPCODE_CONTINUATION"
| "websocket_protocol_message_type_opcode Text = OPCODE_TEXT"
| "websocket_protocol_message_type_opcode Binary = OPCODE_BINARY"
| "websocket_protocol_message_type_opcode Close = OPCODE_CLOSE"
| "websocket_protocol_message_type_opcode Ping = OPCODE_PING"
| "websocket_protocol_message_type_opcode Pong = OPCODE_PONG"

definition websocket_protocol_message_type_from_opcode :: "byte \<Rightarrow> message_type option" where
  [ws_eval]: "websocket_protocol_message_type_from_opcode opcode =
    (if opcode = OPCODE_CONTINUATION then Some Continuation
     else if opcode = OPCODE_TEXT then Some Text
     else if opcode = OPCODE_BINARY then Some Binary
     else if opcode = OPCODE_CLOSE then Some Close
     else if opcode = OPCODE_PING then Some Ping
     else if opcode = OPCODE_PONG then Some Pong
     else None)"

subsection \<open>Random mask keys\<close>

text \<open>
  \<^verbatim>\<open>websocket_protocol_random_bytes\<close> on Linux. The kernel is given by the results of the
  successive calls: \<open>Got bs\<close> for a call that returned the bytes \<open>bs\<close> (at most as many as
  asked for; none is a return value of 0), \<open>Failed e\<close> for one that returned \<open>-1\<close> with
  \<^verbatim>\<open>errno\<close> \<open>e\<close>. A call after the last listed one fails with \<open>EIO\<close>.
\<close>

datatype read_result = Got bytes | Failed errno

record entropy =
  getrandom_results :: "read_result list"
  open_results :: "errno option list" \<comment> \<open>\<open>None\<close>: the device opened\<close>
  read_results :: "read_result list"

datatype random_result = Filled bytes | NotAvailable bytes | RandomError php_error

fun getrandom_loop :: "read_result list \<Rightarrow> nat \<Rightarrow> bytes \<Rightarrow> random_result" where
  "getrandom_loop rs n acc =
    (if length acc < n then
       (case rs of
          [] \<Rightarrow> RandomError (Error ''Unable to generate WebSocket mask key'')
        | Got bs # rs' \<Rightarrow>
            if bs \<noteq> [] then getrandom_loop rs' n (acc @ take (n - length acc) bs)
            else RandomError (Error ''Unable to generate WebSocket mask key'')
        | Failed e # rs' \<Rightarrow>
            if e = EINTR then getrandom_loop rs' n acc
            else if e = ENOSYS then NotAvailable acc
            else RandomError (Error ''Unable to generate WebSocket mask key''))
     else Filled acc)"

fun urandom_open_loop :: "errno option list \<Rightarrow> bool" where
  "urandom_open_loop [] = False"
| "urandom_open_loop (None # rs) = True"
| "urandom_open_loop (Some e # rs) = (if e = EINTR then urandom_open_loop rs else False)"

fun urandom_read_loop :: "read_result list \<Rightarrow> nat \<Rightarrow> bytes \<Rightarrow> php_error + bytes" where
  "urandom_read_loop rs n acc =
    (if length acc < n then
       (case rs of
          [] \<Rightarrow> Inl (Error ''Unable to read /dev/urandom for WebSocket mask key'')
        | Got bs # rs' \<Rightarrow>
            if bs \<noteq> [] then urandom_read_loop rs' n (acc @ take (n - length acc) bs)
            else Inl (Error ''Unable to read /dev/urandom for WebSocket mask key'')
        | Failed e # rs' \<Rightarrow>
            if e = EINTR then urandom_read_loop rs' n acc
            else Inl (Error ''Unable to read /dev/urandom for WebSocket mask key''))
     else Inr acc)"

declare getrandom_loop.simps [simp del] urandom_read_loop.simps [simp del]

definition websocket_protocol_random_bytes :: "entropy \<Rightarrow> nat \<Rightarrow> php_error + bytes" where
  [ws_eval]: "websocket_protocol_random_bytes k n =
    (case getrandom_loop (getrandom_results k) n [] of
       RandomError e \<Rightarrow> Inl e
     | Filled bs \<Rightarrow> Inr bs
     | NotAvailable _ \<Rightarrow>
         if \<not> urandom_open_loop (open_results k) then
           Inl (Error ''Unable to open /dev/urandom for WebSocket mask key'')
         else urandom_read_loop (read_results k) n [])"

subsection \<open>Building a frame\<close>

text \<open>The first byte of a frame: opcode, FIN and the reserved bits.\<close>

definition frame_first_byte :: "byte \<Rightarrow> byte \<Rightarrow> byte" where
  [ws_eval]: "frame_first_byte opcode flags =
    (let b0 = opcode AND 0x0f;
         b0 = (if flags AND FLAG_FIN \<noteq> 0 then b0 OR 0x80 else b0);
         b0 = (if flags AND (FLAG_COMPRESS OR FLAG_RSV1) \<noteq> 0 then b0 OR 0x40 else b0);
         b0 = (if flags AND FLAG_RSV2 \<noteq> 0 then b0 OR 0x20 else b0)
     in (if flags AND FLAG_RSV3 \<noteq> 0 then b0 OR 0x10 else b0))"

text \<open>The length field of the header, from the second byte on.\<close>

definition frame_length_bytes :: "bool \<Rightarrow> nat \<Rightarrow> bytes" where
  [ws_eval]: "frame_length_bytes masked payload_len =
    (let m = (if masked then 0x80 else 0) in
     if payload_len < 126 then [m OR word_of_nat payload_len]
     else if payload_len \<le> 0xffff then
       [m OR 126, ucast (drop_bit 8 (word_of_nat payload_len :: u64) AND 0xff),
        ucast (word_of_nat payload_len AND 0xff :: u64)]
     else (m OR 127) # map (\<lambda>i. ucast (drop_bit (56 - i * 8) (word_of_nat payload_len :: u64)
                                          AND 0xff)) [0..<8])"

definition websocket_protocol_pack_payload ::
    "bool \<Rightarrow> entropy \<Rightarrow> bytes \<Rightarrow> byte \<Rightarrow> byte \<Rightarrow> php_error + bytes" where
  [ws_eval]: "websocket_protocol_pack_payload le k payload opcode flags =
    (let masked = (flags AND FLAG_MASK \<noteq> 0) in
     case (if masked then websocket_protocol_random_bytes k 4 else Inr []) of
       Inl e \<Rightarrow> Inl e
     | Inr key \<Rightarrow>
       (let header = frame_first_byte opcode flags # frame_length_bytes masked (length payload)
        in if masked then
             Inr (header @ key @
                  websocket_mask_payload_copy le (replicate (length payload) 0) payload
                    (length payload) key)
           else Inr (header @ payload)))"

definition websocket_protocol_close_payload :: "int \<Rightarrow> bytes \<Rightarrow> php_error + bytes" where
  [ws_eval]: "websocket_protocol_close_payload code reason =
    (if \<not> websocket_protocol_close_code_is_valid code then
       Inl (ArgumentValueError 1 ''must be a valid WebSocket close code'')
     else if length reason > WEBSOCKET_CLOSE_REASON_MAX_LEN then
       Inl (ArgumentValueError 2 ''must be at most 123 bytes'')
     else if \<not> websocket_protocol_is_valid_utf8 reason then
       Inl (ArgumentValueError 2 ''must be valid UTF-8'')
     else Inr ([word_of_int (drop_bit 8 code AND 0xff), word_of_int (code AND 0xff)] @ reason))"

subsection \<open>The value objects\<close>

record ws_frame =
  frame_type :: message_type
  frame_opcode :: int
  frame_flags :: int
  frame_payload :: bytes
  frame_final :: bool
  frame_bytes_consumed :: nat

record ws_close_frame =
  close_code :: int
  close_reason :: bytes
  close_flags :: int
  close_bytes_consumed :: nat

text \<open>\<^verbatim>\<open>Frame::__construct\<close> and \<^verbatim>\<open>CloseFrame::__construct\<close>.\<close>

definition Frame_construct :: "message_type \<Rightarrow> bytes \<Rightarrow> bool \<Rightarrow> ws_frame" where
  [ws_eval]: "Frame_construct type payload final =
    \<lparr>frame_type = type, frame_opcode = uint (websocket_protocol_message_type_opcode type),
     frame_flags = (if final then uint FLAG_FIN else 0), frame_payload = payload,
     frame_final = final, frame_bytes_consumed = 0\<rparr>"

definition CloseFrame_construct :: "int \<Rightarrow> bytes option \<Rightarrow> php_error + ws_close_frame" where
  [ws_eval]: "CloseFrame_construct code reason_arg =
    (let reason = (case reason_arg of None \<Rightarrow> [] | Some r \<Rightarrow> r) in
     if \<not> websocket_protocol_close_code_is_valid code then
       Inl (ArgumentValueError 1 ''must be a valid WebSocket close code'')
     else if length reason > WEBSOCKET_CLOSE_REASON_MAX_LEN then
       Inl (ArgumentValueError 2 ''must be at most 123 bytes'')
     else if \<not> websocket_protocol_is_valid_utf8 reason then
       Inl (ArgumentValueError 2 ''must be valid UTF-8'')
     else Inr \<lparr>close_code = code, close_reason = reason, close_flags = uint FLAG_FIN,
               close_bytes_consumed = 0\<rparr>)"

subsection \<open>The static methods of \<^verbatim>\<open>Protocol\<close>\<close>

definition websocket_protocol_accept_key :: "(bytes \<Rightarrow> bytes) \<Rightarrow> (bytes \<Rightarrow> bytes) \<Rightarrow> bytes \<Rightarrow> bytes" where
  [ws_eval]: "websocket_protocol_accept_key sha1 base64_encode key =
    base64_encode (sha1 (key @ lit ''258EAFA5-E914-47DA-95CA-C5AB0DC85B11''))"

definition Protocol_acceptKey :: "(bytes \<Rightarrow> bytes) \<Rightarrow> (bytes \<Rightarrow> bytes) \<Rightarrow> bytes \<Rightarrow> bytes" where
  [ws_eval]: "Protocol_acceptKey sha1 base64_encode key = websocket_protocol_accept_key sha1 base64_encode key"

definition Protocol_encode ::
    "bool \<Rightarrow> entropy \<Rightarrow> bytes \<Rightarrow> message_type option \<Rightarrow> bool \<Rightarrow> php_error + bytes" where
  [ws_eval]: "Protocol_encode le k payload type masked =
    (let opcode = (case type of Some t \<Rightarrow> websocket_protocol_message_type_opcode t
                              | None \<Rightarrow> OPCODE_TEXT);
         flags = (if masked then FLAG_FIN OR FLAG_MASK else FLAG_FIN)
     in if opcode = OPCODE_TEXT \<and> \<not> websocket_protocol_is_valid_utf8 payload then
          Inl (ArgumentValueError 1 ''must be valid UTF-8 for text frames'')
        else websocket_protocol_pack_payload le k payload opcode flags)"

datatype pack_data = PackString bytes | PackFrame ws_frame | PackClose ws_close_frame
  | PackOther string \<comment> \<open>any other PHP value, with the name of its type\<close>

text \<open>What \<^verbatim>\<open>Protocol::pack\<close> reads off its first argument: payload, opcode and flags.\<close>

definition pack_arguments :: "pack_data \<Rightarrow> int \<Rightarrow> int \<Rightarrow> php_error + bytes \<times> int \<times> int" where
  [ws_eval]: "pack_arguments data opcode flags =
    (case data of
       PackString s \<Rightarrow> Inr (s, opcode, flags)
     | PackFrame f \<Rightarrow> Inr (frame_payload f, frame_opcode f, frame_flags f)
     | PackClose c \<Rightarrow>
         (case websocket_protocol_close_payload (close_code c) (close_reason c) of
            Inl e \<Rightarrow> Inl e
          | Inr payload \<Rightarrow> Inr (payload, uint OPCODE_CLOSE, close_flags c))
     | PackOther t \<Rightarrow>
         Inl (ArgumentTypeError 1
           (''must be of type string|WebSocket'' @ [CHR 0x5C] @ ''Frame|WebSocket'' @ [CHR 0x5C]
            @ ''CloseFrame, '' @ t @ '' given'')))"

definition Protocol_pack ::
    "bool \<Rightarrow> entropy \<Rightarrow> pack_data \<Rightarrow> int \<Rightarrow> int \<Rightarrow> php_error + bytes" where
  [ws_eval]: "Protocol_pack le k data opcode_arg flags_arg =
    (case pack_arguments data opcode_arg flags_arg of
       Inl e \<Rightarrow> Inl e
     | Inr (payload, opcode, flags) \<Rightarrow>
         if \<not> websocket_protocol_opcode_is_valid opcode then
           Inl (ArgumentValueError 2 ''must be a valid WebSocket opcode'')
         else if websocket_protocol_opcode_is_control opcode \<and> flags AND uint FLAG_FIN = 0 then
           Inl (ArgumentValueError 3 ''must include FIN for control frames'')
         else if websocket_protocol_opcode_is_control opcode \<and> length payload > 125 then
           Inl (ArgumentValueError 1 ''control frame payload must be at most 125 bytes'')
         else if opcode = uint OPCODE_TEXT \<and> flags AND uint FLAG_FIN \<noteq> 0
              \<and> \<not> websocket_protocol_is_valid_utf8 payload then
           Inl (ArgumentValueError 1 ''must be valid UTF-8 for text frames'')
         else websocket_protocol_pack_payload le k payload (word_of_int opcode)
                (word_of_int (flags AND uint WEBSOCKET_FLAGS_ALL)))"

datatype decoded = DecodedFrame ws_frame | DecodedClose ws_close_frame

text \<open>The 8-byte length field, most significant byte first.\<close>

definition read_length64 :: "bytes \<Rightarrow> u64" where
  [ws_eval]: "read_length64 in_buf =
    foldl (\<lambda>len i. push_bit 8 len OR ucast (in_buf ! (2 + i))) 0 [0..<8]"

text \<open>
  The end of \<^verbatim>\<open>websocket_protocol_unpack\<close>: from the unmasked payload to the returned
  object.
\<close>

definition unpack_object :: "byte \<Rightarrow> byte \<Rightarrow> bool \<Rightarrow> bytes \<Rightarrow> nat \<Rightarrow> php_error + decoded option" where
  [ws_eval]: "unpack_object opcode flags final payload consumed =
    (if opcode = OPCODE_CLOSE then
       (if length payload \<ge> 2 then
          (if \<not> websocket_protocol_is_valid_utf8 (drop 2 payload) then
             Inl (Error ''Invalid WebSocket close reason UTF-8'')
           else
             Inr (Some (DecodedClose
               \<lparr>close_code = push_bit 8 (uint (payload ! 0)) OR uint (payload ! 1),
                close_reason = drop 2 payload, close_flags = uint flags,
                close_bytes_consumed = consumed\<rparr>)))
        else
          Inr (Some (DecodedClose
            \<lparr>close_code = CLOSE_NORMAL, close_reason = [], close_flags = uint flags,
             close_bytes_consumed = consumed\<rparr>)))
     else
       (case websocket_protocol_message_type_from_opcode opcode of
          None \<Rightarrow> Inl (Error (''Unsupported WebSocket opcode '' @ decimal (unat opcode)))
        | Some type \<Rightarrow>
            if opcode = OPCODE_TEXT \<and> final \<and> \<not> websocket_protocol_is_valid_utf8 payload then
              Inl (Error ''Invalid WebSocket text frame UTF-8'')
            else
              Inr (Some (DecodedFrame
                \<lparr>frame_type = type, frame_opcode = uint opcode, frame_flags = uint flags,
                 frame_payload = payload, frame_final = final,
                 frame_bytes_consumed = consumed\<rparr>))))"

definition websocket_protocol_unpack :: "bool \<Rightarrow> bytes \<Rightarrow> php_error + decoded option" where
  [ws_eval]: "websocket_protocol_unpack le in_buf =
    (let len = length in_buf in
     if len < 2 then Inr None
     else
       (let b0 = in_buf ! 0; b1 = in_buf ! 1;
            final = (b0 AND 0x80 \<noteq> 0);
            opcode = b0 AND 0x0f;
            masked = (b1 AND 0x80 \<noteq> 0);
            flags = (if final then FLAG_FIN else 0);
            flags = (if b0 AND 0x40 \<noteq> 0 then flags OR FLAG_RSV1 else flags);
            flags = (if b0 AND 0x20 \<noteq> 0 then flags OR FLAG_RSV2 else flags);
            flags = (if b0 AND 0x10 \<noteq> 0 then flags OR FLAG_RSV3 else flags);
            flags = (if masked then flags OR FLAG_MASK else flags);
            short_len = b1 AND 0x7f
        in if short_len = 126 \<and> len < 4 \<or> short_len = 127 \<and> len < 10 then Inr None
        else
          (let payload_len :: u64 =
                 (if short_len = 126 then push_bit 8 (ucast (in_buf ! 2)) OR ucast (in_buf ! 3)
                  else if short_len = 127 then read_length64 in_buf
                  else ucast short_len);
               pos = (if short_len = 126 then 4 else if short_len = 127 then 10 else 2)
           in if masked \<and> len < pos + 4 then Inr None
           else
             (let key = (if masked then take 4 (drop pos in_buf) else []);
                  pos = (if masked then pos + 4 else pos);
                  n = unat payload_len
              in if n > SIZE_MAX \<or> n > SIZE_MAX - pos \<or> len < pos + n then Inr None
              else if \<not> websocket_protocol_opcode_is_valid (uint opcode) then
                Inl (Error (''Unsupported WebSocket opcode '' @ decimal (unat opcode)))
              else if websocket_protocol_opcode_is_control (uint opcode) \<and> (\<not> final \<or> n > 125) then
                Inl (Error ''Invalid WebSocket control frame'')
              else if opcode = OPCODE_CLOSE \<and> n = 1 then
                Inl (Error ''Invalid WebSocket close frame'')
              else
                (let payload =
                   (if masked then
                      websocket_mask_payload_copy le (replicate n 0) (take n (drop pos in_buf)) n key
                    else take n (drop pos in_buf))
                 in unpack_object opcode flags final payload (pos + n))))))"

text \<open>\<^verbatim>\<open>Protocol::decode\<close> and \<^verbatim>\<open>Protocol::unpack\<close> are the same function.\<close>

definition Protocol_decode :: "bool \<Rightarrow> bytes \<Rightarrow> php_error + decoded option" where
  [ws_eval]: "Protocol_decode le in_buf = websocket_protocol_unpack le in_buf"

definition Protocol_unpack :: "bool \<Rightarrow> bytes \<Rightarrow> php_error + decoded option" where
  [ws_eval]: "Protocol_unpack le in_buf = websocket_protocol_unpack le in_buf"

subsection \<open>Single bits of a byte\<close>

lemma and_two_power_iff: "((b::'a::len word) AND 2 ^ n = 0) = (\<not> bit b n)"
  by (rule and_exp_eq_0_iff_not_bit)

lemma byte_bit_tests:
  "((b::byte) AND 0x80 = 0) = (\<not> bit b 7)" "(b AND 0x40 = 0) = (\<not> bit b 6)"
  "(b AND 0x20 = 0) = (\<not> bit b 5)" "(b AND 0x10 = 0) = (\<not> bit b 4)"
  "(b AND 0x08 = 0) = (\<not> bit b 3)" "(b AND 0x04 = 0) = (\<not> bit b 2)"
  "(b AND 0x02 = 0) = (\<not> bit b 1)" "(b AND 0x01 = 0) = (\<not> bit b 0)"
  using and_two_power_iff [of b 7] and_two_power_iff [of b 6] and_two_power_iff [of b 5]
    and_two_power_iff [of b 4] and_two_power_iff [of b 3] and_two_power_iff [of b 2]
    and_two_power_iff [of b 1] and_two_power_iff [of b 0]
  by simp_all

lemma byte_and_6: "((b::byte) AND 6 = 0) = (\<not> bit b 1 \<and> \<not> bit b 2)"
proof -
  have "(b AND (2 OR 4) = 0) = (b AND 2 = 0 \<and> b AND 4 = 0)"
    by (simp only: bit.conj_disj_distrib or_eq_0_iff)
  then show ?thesis by (simp add: byte_bit_tests)
qed

lemma frame_first_byte_opcode [simp]: "frame_first_byte opcode flags AND 0x0f = opcode AND 0x0f"
  by (simp add: frame_first_byte_def Let_def bit.conj_disj_distrib2 and.assoc)

lemma frame_first_byte_bits [simp]:
  "bit (frame_first_byte opcode flags) 7 = bit flags 0"
  "bit (frame_first_byte opcode flags) 6 = (bit flags 1 \<or> bit flags 2)"
  "bit (frame_first_byte opcode flags) 5 = bit flags 3"
  "bit (frame_first_byte opcode flags) 4 = bit flags 4"
  by (simp_all add: frame_first_byte_def Let_def byte_bit_tests byte_and_6 bit_simps)

subsection \<open>The length field\<close>

definition short_length :: "nat \<Rightarrow> byte" where
  "short_length n = (if n < 126 then word_of_nat n else if n \<le> 0xffff then 126 else 127)"

lemma and_7f_or_80: 
  assumes "n < 128"
  shows "((if m then 0x80 else 0) OR word_of_nat n :: byte) AND 0x7f = word_of_nat n"
    "bit ((if m then 0x80 else 0) OR word_of_nat n :: byte) 7 = m"
proof -
  have t: "take_bit 7 (word_of_nat n :: byte) = word_of_nat n"
  proof -
    have "take_bit 7 n = n" using assms by (simp add: take_bit_nat_eq_self)
    then show ?thesis by (simp only: take_bit_of_nat)
  qed
  have "(0x7f::byte) = mask 7" by (simp add: mask_eq_exp_minus_1)
  then have "(x AND 0x7f :: byte) = take_bit 7 x" for x
    by (simp only: take_bit_eq_mask)
  then show "((if m then 0x80 else 0) OR word_of_nat n :: byte) AND 0x7f = word_of_nat n"
    using t by (simp add: bit.conj_disj_distrib2)
  show "bit ((if m then 0x80 else 0) OR word_of_nat n :: byte) 7 = m"
    using assms by (simp add: bit_simps bit_iff_odd [of n])
qed

lemma byte_merge64:
  "push_bit 8 (drop_bit (k + 8) (w::u64)) OR ucast (ucast (drop_bit k w AND 0xff) :: byte)
     = drop_bit k w"
proof -
  have m: "(0xff::u64) = mask 8" by (simp add: mask_eq_exp_minus_1)
  show ?thesis unfolding m
  proof (rule bit_word_eqI)
    fix n assume n: "n < LENGTH(64)"
    show "bit (push_bit 8 (drop_bit (k + 8) w) OR ucast (ucast (drop_bit k w AND Bit_Operations.mask 8) :: byte)) n
        = bit (drop_bit k w) n"
      using n by (cases "n < 8") (auto simp: bit_simps add.assoc)
  qed
qed

lemma word16_merge:
  assumes "n \<le> 0xffff"
  shows "push_bit 8 (ucast (ucast (drop_bit 8 (word_of_nat n :: u64) AND 0xff) :: byte))
    OR ucast (ucast (word_of_nat n AND 0xff :: u64) :: byte) = (word_of_nat n :: u64)"
proof -
  have "take_bit 16 n = n" using assms by (simp add: take_bit_nat_eq_self)
  then have t: "take_bit 16 (word_of_nat n :: u64) = word_of_nat n" by (simp only: take_bit_of_nat)
  have "drop_bit 16 (word_of_nat n :: u64) = 0"
    by (subst t [symmetric]) (simp add: drop_bit_take_bit)
  then have "ucast (ucast (drop_bit 8 (word_of_nat n :: u64) AND 0xff) :: byte) = drop_bit 8 (word_of_nat n :: u64)"
    using byte_merge64 [of 8 "word_of_nat n"] by simp
  then show ?thesis using byte_merge64 [of 0 "word_of_nat n"] by simp
qed

lemma frame_length_bytes_simps:
  "n < 126 \<Longrightarrow> frame_length_bytes m n = [(if m then 0x80 else 0) OR word_of_nat n]"
  "126 \<le> n \<Longrightarrow> n \<le> 0xffff \<Longrightarrow> frame_length_bytes m n =
     [(if m then 0x80 else 0) OR 126, ucast (drop_bit 8 (word_of_nat n :: u64) AND 0xff),
      ucast (word_of_nat n AND 0xff :: u64)]"
  "0xffff < n \<Longrightarrow> frame_length_bytes m n =
     ((if m then 0x80 else 0) OR 127) # map (\<lambda>i. ucast (drop_bit (56 - i * 8) (word_of_nat n :: u64)
                                          AND 0xff)) [0..<8]"
  by (simp_all add: frame_length_bytes_def Let_def)

lemma frame_length_bytes_hd:
  "frame_length_bytes m n =
     ((if m then 0x80 else 0) OR short_length n) # tl (frame_length_bytes m n)"
  by (simp add: frame_length_bytes_def short_length_def Let_def)

lemma length_frame_length_bytes [simp]:
  "length (frame_length_bytes m n) = (if n < 126 then 1 else if n \<le> 0xffff then 3 else 9)"
  by (simp add: frame_length_bytes_def Let_def)

lemma length_byte_fields:
  assumes "b = (if m then 0x80 else 0) OR short_length n"
  shows "b AND 0x7f = short_length n" "bit b 7 = m"
proof -
  have "\<exists>k < 128. short_length n = word_of_nat k"
    by (cases "n < 126"; cases "n \<le> 0xffff")
       (auto simp: short_length_def intro: exI [of _ n] exI [of _ 126] exI [of _ 127])
  then obtain k where "k < 128" "short_length n = word_of_nat k" by blast
  then show "b AND 0x7f = short_length n" "bit b 7 = m"
    unfolding assms using and_7f_or_80 [of k m] by simp_all
qed

lemma short_length_cases:
  "short_length n = 126 \<longleftrightarrow> 126 \<le> n \<and> n \<le> 0xffff"
  "short_length n = 127 \<longleftrightarrow> 0xffff < n"
  "n < 126 \<Longrightarrow> ucast (short_length n) = (word_of_nat n :: u64)"
  by (auto simp: short_length_def word_unat_eq_iff unat_of_nat unsigned_ucast_eq take_bit_nat_eq_self)

lemma read_length64_bytes:
  assumes "0xffff < n" "n < 2 ^ 64"
    "\<And>i. i < 8 \<Longrightarrow> buf ! (2 + i) = ucast (drop_bit (56 - i * 8) (word_of_nat n :: u64) AND 0xff)"
  shows "read_length64 buf = word_of_nat n"
proof -
  let ?w = "word_of_nat n :: u64"
  have "foldl (\<lambda>len i. push_bit 8 len OR ucast (buf ! (2 + i))) 0 [0..<k] = drop_bit (64 - 8 * k) ?w"
    if "k \<le> 8" for k
    using that
  proof (induction k)
    case 0
    have "drop_bit 64 ?w = 0" by (rule bit_word_eqI) (auto simp: bit_simps dest: bit_imp_le_length)
    then show ?case by simp
  next
    case (Suc k)
    have "64 - 8 * k = (56 - k * 8) + 8" using Suc.prems by simp
    with Suc show ?case
      using byte_merge64 [of "56 - k * 8" ?w] assms(3) [of k] by (simp add: mult.commute)
  qed
  from this [of 8] show ?thesis by (simp add: read_length64_def)
qed

subsection \<open>Reading back a frame\<close>

text \<open>A buffer that starts with the frame of \<open>body\<close>.\<close>

definition raw_frame :: "byte \<Rightarrow> bool \<Rightarrow> bytes \<Rightarrow> bytes \<Rightarrow> bytes" where
  "raw_frame b0 masked key body = b0 # frame_length_bytes masked (length body) @ key @ body"

definition header_length :: "bool \<Rightarrow> nat \<Rightarrow> nat" where
  "header_length masked n =
    (if n < 126 then 2 else if n \<le> 0xffff then 4 else 10) + (if masked then 4 else 0)"

abbreviation (input) key_fits :: "bool \<Rightarrow> bytes \<Rightarrow> bool" where "key_fits masked key \<equiv> length key = (if masked then 4 else 0)"

lemma length_raw_frame [simp]:
  "key_fits masked key \<Longrightarrow>
     length (raw_frame b0 masked key body) = header_length masked (length body) + length body"
  by (simp add: raw_frame_def header_length_def)

lemma raw_frame_nth_0 [simp]: "raw_frame b0 masked key body ! 0 = b0"
  by (simp add: raw_frame_def)

lemma raw_frame_nth_1:
  "raw_frame b0 masked key body ! 1 = (if masked then 0x80 else 0) OR short_length (length body)"
  unfolding raw_frame_def by (subst frame_length_bytes_hd) simp

lemma raw_frame_length16:
  assumes "126 \<le> length body" "length body \<le> 0xffff"
  shows "push_bit 8 (ucast (raw_frame b0 masked key body ! 2)) OR
           ucast (raw_frame b0 masked key body ! 3) = (word_of_nat (length body) :: u64)"
  using assms word16_merge [OF assms(2)]
  by (simp add: raw_frame_def frame_length_bytes_simps(2) numeral_2_eq_2 numeral_3_eq_3)

lemma raw_frame_length64_nth:
  assumes "0xffff < length body" "i < 8"
  shows "raw_frame b0 masked key body ! (2 + i) =
    ucast (drop_bit (56 - i * 8) (word_of_nat (length body) :: u64) AND 0xff)"
  using assms by (simp add: raw_frame_def frame_length_bytes_simps(3) nth_append del: upt_Suc)

lemma drop_raw_frame:
  "drop (if length body < 126 then 2 else if length body \<le> 0xffff then 4 else 10)
     (raw_frame b0 masked key body) = key @ body"
  by (simp add: raw_frame_def)

text \<open>The checks of \<^verbatim>\<open>websocket_protocol_unpack\<close> behind the incompleteness tests.\<close>

definition unpack_flags :: "byte \<Rightarrow> bool \<Rightarrow> byte" where
  "unpack_flags b0 masked =
    (let flags = (if bit b0 7 then FLAG_FIN else 0);
         flags = (if bit b0 6 then flags OR FLAG_RSV1 else flags);
         flags = (if bit b0 5 then flags OR FLAG_RSV2 else flags);
         flags = (if bit b0 4 then flags OR FLAG_RSV3 else flags)
     in (if masked then flags OR FLAG_MASK else flags))"

definition unpack_checked :: "byte \<Rightarrow> bool \<Rightarrow> bytes \<Rightarrow> nat \<Rightarrow> php_error + decoded option" where
  "unpack_checked b0 masked payload consumed =
    (let opcode = b0 AND 0x0f; final = bit b0 7; n = length payload in
     if \<not> websocket_protocol_opcode_is_valid (uint opcode) then
       Inl (Error (''Unsupported WebSocket opcode '' @ decimal (unat opcode)))
     else if websocket_protocol_opcode_is_control (uint opcode) \<and> (\<not> final \<or> n > 125) then
       Inl (Error ''Invalid WebSocket control frame'')
     else if opcode = OPCODE_CLOSE \<and> n = 1 then
       Inl (Error ''Invalid WebSocket close frame'')
     else unpack_object opcode (unpack_flags b0 masked) final payload consumed)"

abbreviation (input) fits_size_t :: "bytes \<Rightarrow> bool" where "fits_size_t body \<equiv> length body + 14 \<le> SIZE_MAX"

text \<open>
  \<open>frame_view buf b0 masked key n\<close>: the fields that the header of \<open>buf\<close> shows, as far as
  \<open>buf\<close> holds them. It is all the two parsers read of a header.
\<close>

definition frame_view :: "bytes \<Rightarrow> byte \<Rightarrow> bool \<Rightarrow> nat \<Rightarrow> bool" where
  "frame_view buf b0 masked n \<longleftrightarrow>
     (2 \<le> length buf \<longrightarrow> buf ! 0 = b0 \<and> buf ! 1 AND 0x7f = short_length n \<and> bit (buf ! 1) 7 = masked)
   \<and> (4 \<le> length buf \<and> 126 \<le> n \<and> n \<le> 0xffff \<longrightarrow>
        push_bit 8 (ucast (buf ! 2)) OR ucast (buf ! 3) = (word_of_nat n :: u64))
   \<and> (10 \<le> length buf \<and> 0xffff < n \<longrightarrow>
        read_length64 buf = word_of_nat n \<and> buf ! 2 = ucast (drop_bit 56 (word_of_nat n :: u64) AND 0xff))"

definition length_field_end :: "nat \<Rightarrow> nat" where
  "length_field_end n = (if n < 126 then 2 else if n \<le> 0xffff then 4 else 10)"

lemma frame_view_take_raw_frame:
  assumes "key_fits masked key" "length body < 2 ^ 64"
  shows "frame_view (take m (raw_frame b0 masked key body @ rest)) b0 masked (length body)"
proof -
  let ?n = "length body"
  define full where "full = raw_frame b0 masked key body @ rest"
  define buf where "buf = take m full"
  have len: "length (raw_frame b0 masked key body) = header_length masked ?n + ?n"
      "2 \<le> header_length masked ?n"
    using assms by (simp_all add: header_length_def)
  have nth: "buf ! i = full ! i" if "i < length buf" for i using that by (simp add: buf_def)
  have full01: "full ! 0 = b0" "full ! 1 = (if masked then 0x80 else 0) OR short_length ?n"
    using len raw_frame_nth_1 [of b0 masked key body] by (simp_all add: full_def nth_append)
  have full16: "push_bit 8 (ucast (full ! 2)) OR ucast (full ! 3) = (word_of_nat ?n :: u64)"
    if "126 \<le> ?n" "?n \<le> 0xffff"
    using that raw_frame_length16 [OF that, of b0 masked key] len
    by (simp add: full_def nth_append header_length_def)
  have full64: "full ! (2 + i) = ucast (drop_bit (56 - i * 8) (word_of_nat ?n :: u64) AND 0xff)"
    if "0xffff < ?n" "i < 8" for i
    using that raw_frame_length64_nth [OF that, of b0 masked key] len
    by (simp add: full_def nth_append header_length_def)
  have "frame_view buf b0 masked ?n"
    unfolding frame_view_def
  proof (intro conjI impI)
    assume "2 \<le> length buf"
    then have "0 < length buf" "1 < length buf" by linarith+
    then have "buf ! 0 = b0" "buf ! 1 = (if masked then 0x80 else 0) OR short_length ?n"
      using nth full01 by simp_all
    then show "buf ! 0 = b0" "buf ! 1 AND 0x7f = short_length ?n" "bit (buf ! 1) 7 = masked"
      using length_byte_fields by blast+
  next
    assume "4 \<le> length buf \<and> 126 \<le> ?n \<and> ?n \<le> 0xffff"
    then show "push_bit 8 (ucast (buf ! 2)) OR ucast (buf ! 3) = (word_of_nat ?n :: u64)"
      using nth [of 2] nth [of 3] full16 by simp
  next
    assume b: "10 \<le> length buf \<and> 0xffff < ?n"
    then have "buf ! (2 + i) = ucast (drop_bit (56 - i * 8) (word_of_nat ?n :: u64) AND 0xff)"
      if "i < 8" for i
      using nth [of "2 + i"] full64 [of i] that by simp
    from this this [of 0] show "read_length64 buf = word_of_nat ?n"
      "buf ! 2 = ucast (drop_bit 56 (word_of_nat ?n :: u64) AND 0xff)"
      using b assms(2) by (auto intro!: read_length64_bytes)
  qed
  then show ?thesis by (simp add: buf_def full_def)
qed

lemma header_length_eq: "header_length masked n = length_field_end n + (if masked then 4 else 0)"
  by (simp add: header_length_def length_field_end_def)

lemma mask_copy_prefix:
  assumes "length dst = n" "length src = n" "length key = 4"
  shows "websocket_mask_payload_copy le dst src n key = mask_payload key src"
  using websocket_mask_payload_copy_eq [of dst src key le] assms by simp

text \<open>The fields of any header, minimal or not, as both parsers read them.\<close>

definition wire_masked :: "bytes \<Rightarrow> bool" where
  "wire_masked buf = bit (buf ! 1) 7"

definition wire_pos :: "bytes \<Rightarrow> nat" where
  "wire_pos buf = (if buf ! 1 AND 0x7f = 126 then 4 else if buf ! 1 AND 0x7f = 127 then 10 else 2)"

definition wire_length :: "bytes \<Rightarrow> nat" where
  "wire_length buf =
    unat (if buf ! 1 AND 0x7f = 126 then push_bit 8 (ucast (buf ! 2)) OR ucast (buf ! 3)
          else if buf ! 1 AND 0x7f = 127 then read_length64 buf
          else (ucast (buf ! 1 AND 0x7f) :: u64))"

definition wire_start :: "bytes \<Rightarrow> nat" where
  "wire_start buf = (if wire_masked buf then wire_pos buf + 4 else wire_pos buf)"

definition wire_payload :: "bytes \<Rightarrow> bytes" where
  "wire_payload buf =
    (let body = take (wire_length buf) (drop (wire_start buf) buf) in
     if wire_masked buf then mask_payload (take 4 (drop (wire_pos buf) buf)) body else body)"

definition wire_complete :: "bytes \<Rightarrow> bool" where
  "wire_complete buf \<longleftrightarrow> 2 \<le> length buf \<and> wire_pos buf \<le> length buf
    \<and> wire_length buf \<le> SIZE_MAX - wire_start buf
    \<and> wire_start buf + wire_length buf \<le> length buf"

lemma wire_length_le [simp]: "wire_length buf \<le> SIZE_MAX"
proof -
  have "unat (w::u64) < 2 ^ LENGTH(64)" for w by (rule unsigned_less)
  then have "unat (w::u64) \<le> SIZE_MAX" for w by (simp add: SIZE_MAX_def less_Suc_eq_le [symmetric])
  then show ?thesis by (simp add: wire_length_def)
qed

lemma length_wire_payload [simp]:
  "wire_complete buf \<Longrightarrow> length (wire_payload buf) = wire_length buf"
  by (auto simp: wire_payload_def wire_complete_def Let_def)

lemma unpack_eq:
  "websocket_protocol_unpack le buf =
    (if wire_complete buf then
       unpack_checked (buf ! 0) (wire_masked buf) (wire_payload buf) (wire_start buf + wire_length buf)
     else Inr None)"
proof (cases "length buf < 2 \<or> length buf < wire_pos buf")
  case True
  then have "\<not> wire_complete buf" by (auto simp: wire_complete_def)
  moreover have "websocket_protocol_unpack le buf = Inr None"
    using True unfolding websocket_protocol_unpack_def Let_def wire_pos_def
    by (cases "length buf < 2"; cases "buf ! 1 AND 0x7f = 126"; cases "buf ! 1 AND 0x7f = 127")
       (simp_all split del: if_split)
  ultimately show ?thesis by simp
next
  case False
  define pos n masked where "pos = wire_pos buf" and "n = wire_length buf" and "masked = wire_masked buf"
  have c: "\<not> length buf < 2"
    "\<not> (buf ! 1 AND 0x7f = 126 \<and> length buf < 4 \<or> buf ! 1 AND 0x7f = 127 \<and> length buf < 10)"
    "\<not> n > SIZE_MAX" "pos \<le> length buf"
    using False by (auto simp: wire_pos_def pos_def n_def not_less)
  have ws: "wire_start buf = (if masked then pos + 4 else pos)"
    by (simp add: wire_start_def pos_def masked_def)
  note unfold = websocket_protocol_unpack_def Let_def byte_bit_tests not_not
    wire_pos_def [symmetric] wire_masked_def [symmetric] wire_length_def [symmetric]
    pos_def [symmetric] n_def [symmetric] masked_def [symmetric]
    if_not_P [OF c(1)] if_not_P [OF c(2)]
  show ?thesis
  proof (cases "wire_complete buf")
    case True
    then have ok: "\<not> (masked \<and> length buf < pos + 4)"
      "\<not> (n > SIZE_MAX \<or> n > SIZE_MAX - (if masked then pos + 4 else pos)
          \<or> length buf < (if masked then pos + 4 else pos) + n)"
      using c(3) by (auto simp: wire_complete_def ws simp flip: n_def)
    have "(if masked then websocket_mask_payload_copy le (replicate n 0) (take n (drop (pos + 4) buf)) n
             (take 4 (drop pos buf)) else take n (drop pos buf)) = wire_payload buf"
      using ok by (auto simp: wire_payload_def ws simp flip: n_def masked_def pos_def intro!: mask_copy_prefix)
    moreover have "length (wire_payload buf) = n" using True by (simp add: n_def)
    ultimately show ?thesis using True unfolding unfold if_not_P [OF ok(1)] if_not_P [OF ok(2)]
      by (cases masked)
         (simp_all only: unpack_checked_def unpack_flags_def Let_def ws if_True if_False)
  next
    case False
    then have "masked \<and> length buf < pos + 4 \<or> n > SIZE_MAX - (if masked then pos + 4 else pos)
        \<or> length buf < (if masked then pos + 4 else pos) + n"
      using c by (auto simp: wire_complete_def ws simp flip: n_def pos_def split: if_splits)
    with False show ?thesis unfolding unfold by (elim disjE) simp_all
  qed
qed


lemma frame_view_wire:
  assumes "frame_view buf b0 masked n" "n < 2 ^ 64"
  shows "2 \<le> length buf \<Longrightarrow> buf ! 0 = b0"
    "2 \<le> length buf \<Longrightarrow> wire_pos buf = length_field_end n"
    "2 \<le> length buf \<Longrightarrow> wire_masked buf = masked"
    "length_field_end n \<le> length buf \<Longrightarrow> wire_length buf = n"
    "length_field_end n \<le> length buf \<Longrightarrow> wire_start buf = header_length masked n"
proof -
  have v: "2 \<le> length buf \<Longrightarrow> buf ! 0 = b0 \<and> buf ! 1 AND 0x7f = short_length n \<and> bit (buf ! 1) 7 = masked"
    "4 \<le> length buf \<Longrightarrow> 126 \<le> n \<Longrightarrow> n \<le> 0xffff \<Longrightarrow>
        push_bit 8 (ucast (buf ! 2)) OR ucast (buf ! 3) = (word_of_nat n :: u64)"
    "10 \<le> length buf \<Longrightarrow> 0xffff < n \<Longrightarrow> read_length64 buf = word_of_nat n"
    using assms(1) by (auto simp: frame_view_def)
  show r: "buf ! 0 = b0" "wire_pos buf = length_field_end n" "wire_masked buf = masked" if "2 \<le> length buf"
    using v(1) [OF that] by (simp_all add: wire_pos_def wire_masked_def length_field_end_def short_length_cases)
  have u: "unat (word_of_nat n :: u64) = n" using assms(2) by (simp add: unat_of_nat)
  show n: "wire_length buf = n" if l: "length_field_end n \<le> length buf"
  proof -
    have l2: "2 \<le> length buf" using l by (simp add: length_field_end_def split: if_splits)
    consider "n < 126" | "126 \<le> n" "n \<le> 0xffff" | "0xffff < n" by linarith
    then show ?thesis
    proof cases
      case 1
      then have "short_length n \<noteq> 126" "short_length n \<noteq> 127" by (auto simp: short_length_cases)
      then show ?thesis using v(1) [OF l2] short_length_cases(3) [OF 1] u by (simp add: wire_length_def)
    next
      case 2
      then have "short_length n = 126" by (simp add: short_length_cases)
      then show ?thesis using v(1) [OF l2] v(2) 2 l u by (simp add: wire_length_def length_field_end_def)
    next
      case 3
      then have "short_length n = 127" by (simp add: short_length_cases)
      then show ?thesis using v(1) [OF l2] v(3) 3 l u by (simp add: wire_length_def length_field_end_def)
    qed
  qed
  show "wire_start buf = header_length masked n" if l: "length_field_end n \<le> length buf"
  proof -
    have l2: "2 \<le> length buf" using l by (simp add: length_field_end_def split: if_splits)
    show ?thesis using r [OF l2] by (simp add: wire_start_def header_length_eq)
  qed
qed

lemma frame_view_complete:
  assumes "frame_view buf b0 masked n" "n + 14 \<le> SIZE_MAX"
  shows "wire_complete buf \<longleftrightarrow> header_length masked n + n \<le> length buf"
proof -
  have n: "n < 2 ^ 64" using assms(2) by (simp add: SIZE_MAX_def)
  note w = frame_view_wire [OF assms(1) n]
  have h: "2 \<le> length_field_end n" "length_field_end n \<le> header_length masked n" "header_length masked n \<le> 14"
    by (simp_all add: length_field_end_def header_length_def)
  show ?thesis
  proof (cases "length_field_end n \<le> length buf")
    case True
    then show ?thesis using w(2,4,5) h assms(2) by (auto simp: wire_complete_def)
  next
    case False
    then have "\<not> wire_complete buf" using w(2) by (auto simp: wire_complete_def)
    then show ?thesis using False h by linarith
  qed
qed

text \<open>A buffer that starts with a frame, and a prefix of it.\<close>

lemma raw_frame_wire:
  assumes "key_fits masked key" "fits_size_t body"
    and buf_def: "buf = raw_frame b0 masked key body @ rest"
  shows "wire_complete buf" "buf ! 0 = b0" "wire_masked buf = masked"
    "wire_start buf = header_length masked (length body)" "wire_length buf = length body"
    "wire_payload buf = (if masked then mask_payload key body else body)"
proof -
  have n: "length body < 2 ^ 64" using assms(2) by (simp add: SIZE_MAX_def)
  have v: "frame_view buf b0 masked (length body)"
    using frame_view_take_raw_frame [OF assms(1) n, where m = "length buf" and rest = rest and ?b0.0 = b0]
    by (simp add: buf_def)
  have l: "length_field_end (length body) \<le> length buf" "2 \<le> length buf"
    using assms(1) by (simp_all add: buf_def header_length_def length_field_end_def)
  note w = frame_view_wire [OF v n]
  show "buf ! 0 = b0" "wire_masked buf = masked"
    "wire_start buf = header_length masked (length body)" "wire_length buf = length body"
    using w l by simp_all
  show "wire_complete buf" using frame_view_complete [OF v assms(2)] assms(1) by (simp add: buf_def)
  have "drop (length_field_end (length body)) buf = key @ body @ rest"
    by (simp add: buf_def length_field_end_def raw_frame_def)
  then have d: "drop (wire_pos buf) buf = key @ body @ rest" using w(2) l by simp
  have "drop (wire_start buf) buf = drop (length key) (drop (wire_pos buf) buf)"
    using w l assms(1) by (auto simp: wire_start_def header_length_eq add.commute)
  then have "drop (wire_start buf) buf = body @ rest" using d by simp
  then show "wire_payload buf = (if masked then mask_payload key body else body)"
    using d w l assms(1) by (simp add: wire_payload_def Let_def)
qed

lemma raw_frame_prefix_incomplete:
  assumes "key_fits masked key" "fits_size_t body" "m < length (raw_frame b0 masked key body)"
  shows "\<not> wire_complete (take m (raw_frame b0 masked key body))"
proof -
  have n: "length body < 2 ^ 64" using assms(2) by (simp add: SIZE_MAX_def)
  show ?thesis
    using frame_view_complete [OF frame_view_take_raw_frame [OF assms(1) n, where rest = "[]"] assms(2)] assms(1,3)
    by simp
qed

text \<open>A complete header and payload stay what they are when more bytes arrive.\<close>

lemma wire_append:
  assumes "wire_complete buf"
  shows "wire_complete (buf @ extra)" "(buf @ extra) ! 0 = buf ! 0" "wire_masked (buf @ extra) = wire_masked buf"
    "wire_start (buf @ extra) = wire_start buf" "wire_length (buf @ extra) = wire_length buf"
    "wire_payload (buf @ extra) = wire_payload buf"
proof -
  have l: "2 \<le> length buf" "wire_pos buf \<le> length buf" using assms by (auto simp: wire_complete_def)
  show m: "(buf @ extra) ! 0 = buf ! 0" "wire_masked (buf @ extra) = wire_masked buf"
    using l by (simp_all add: wire_masked_def nth_append not_less flip: length_greater_0_conv)
  have p: "wire_pos (buf @ extra) = wire_pos buf" using l by (simp add: wire_pos_def nth_append)
  then show s: "wire_start (buf @ extra) = wire_start buf" using m by (simp add: wire_start_def)
  have "read_length64 (buf @ extra) = read_length64 buf" if "10 \<le> length buf"
    unfolding read_length64_def using that by (intro foldl_cong) (auto simp: nth_append)
  then show n: "wire_length (buf @ extra) = wire_length buf"
    using l by (auto simp: wire_length_def wire_pos_def nth_append split: if_splits)
  show "wire_complete (buf @ extra)" using assms p s n by (auto simp: wire_complete_def)
  have "take (wire_length buf) (drop (wire_start buf) (buf @ extra)) = take (wire_length buf) (drop (wire_start buf) buf)"
    using assms by (auto simp: wire_complete_def)
  moreover have "wire_masked buf \<Longrightarrow> take 4 (drop (wire_pos buf) (buf @ extra)) = take 4 (drop (wire_pos buf) buf)"
    using assms by (auto simp: wire_complete_def wire_start_def)
  ultimately show "wire_payload (buf @ extra) = wire_payload buf"
    using m n s p by (auto simp: wire_payload_def Let_def)
qed

lemma unpack_checked_not_None: "unpack_checked b0 masked payload consumed \<noteq> Inr None"
  by (auto simp: unpack_checked_def unpack_object_def Let_def split: option.splits)


subsection \<open>What the frame builder writes\<close>

lemma getrandom_loop_length:
  "getrandom_loop rs n acc = Filled bs \<Longrightarrow> length acc \<le> n \<Longrightarrow> length bs = n"
  by (induction rs n acc rule: getrandom_loop.induct)
     (subst (asm) (3) getrandom_loop.simps, auto split: if_splits list.splits read_result.splits)

lemma urandom_read_loop_length:
  "urandom_read_loop rs n acc = Inr bs \<Longrightarrow> length acc \<le> n \<Longrightarrow> length bs = n"
  by (induction rs n acc rule: urandom_read_loop.induct)
     (subst (asm) (3) urandom_read_loop.simps, auto split: if_splits list.splits read_result.splits)

lemma random_bytes_length:
  "websocket_protocol_random_bytes k n = Inr bs \<Longrightarrow> length bs = n"
  by (auto simp: websocket_protocol_random_bytes_def getrandom_loop_length urandom_read_loop_length
      split: random_result.splits if_splits)

lemma pack_payload_raw_frame:
  assumes "websocket_protocol_pack_payload le k payload opcode flags = Inr frame"
  obtains key where "key_fits (bit flags 5) key"
    "frame = raw_frame (frame_first_byte opcode flags) (bit flags 5) key
               (if bit flags 5 then mask_payload key payload else payload)"
proof (cases "bit flags 5")
  case True
  with assms obtain key where k: "websocket_protocol_random_bytes k 4 = Inr key"
    and f: "frame = frame_first_byte opcode flags # frame_length_bytes True (length payload) @ key
        @ websocket_mask_payload_copy le (replicate (length payload) 0) payload (length payload) key"
    by (auto simp: websocket_protocol_pack_payload_def byte_bit_tests Let_def split: sum.splits)
  have "length key = 4" using k by (rule random_bytes_length)
  with True f show thesis by (intro that [of key]) (simp_all add: raw_frame_def mask_copy_prefix)
next
  case False
  with assms show thesis
    by (intro that [of "[]"])
       (simp_all add: raw_frame_def websocket_protocol_pack_payload_def byte_bit_tests Let_def)
qed

text \<open>The flags a receiver sees: \<^verbatim>\<open>COMPRESS\<close> travels as RSV1.\<close>

definition received_flags :: "byte \<Rightarrow> byte" where
  [ws_eval]: "received_flags flags = (flags AND 0x39) OR (if flags AND 6 = 0 then 0 else FLAG_RSV1)"

lemma unpack_flags_first_byte:
  "unpack_flags (frame_first_byte opcode flags) (bit flags 5) = received_flags flags"
proof (rule bit_word_eqI)
  fix n assume "n < LENGTH(8)"
  then have "n = 0 \<or> n = 1 \<or> n = 2 \<or> n = 3 \<or> n = 4 \<or> n = 5 \<or> n = 6 \<or> n = 7" by simp linarith
  then show "bit (unpack_flags (frame_first_byte opcode flags) (bit flags 5)) n = bit (received_flags flags) n"
    by (elim disjE) (simp_all add: unpack_flags_def received_flags_def Let_def byte_and_6 bit_simps)
qed

text \<open>The arguments \<^verbatim>\<open>Protocol::pack\<close> lets through.\<close>

definition pack_checks :: "bytes \<Rightarrow> int \<Rightarrow> int \<Rightarrow> bool" where
  "pack_checks payload opcode flags \<longleftrightarrow>
     websocket_protocol_opcode_is_valid opcode
   \<and> (websocket_protocol_opcode_is_control opcode \<longrightarrow> bit flags 0 \<and> length payload \<le> 125)
   \<and> (opcode = 1 \<and> bit flags 0 \<longrightarrow> websocket_protocol_is_valid_utf8 payload)"

lemma Protocol_pack_InrD:
  assumes "Protocol_pack le k data opcode_arg flags_arg = Inr frame"
    "pack_arguments data opcode_arg flags_arg = Inr (payload, opcode, flags)"
  shows "pack_checks payload opcode flags"
    "websocket_protocol_pack_payload le k payload (word_of_int opcode)
       (word_of_int (flags AND uint WEBSOCKET_FLAGS_ALL)) = Inr frame"
proof -
  have "flags AND 1 = 0 \<longleftrightarrow> \<not> bit flags 0" by (simp add: and_one_eq bit_0 odd_iff_mod_2_eq_one)
  then show "pack_checks payload opcode flags"
    "websocket_protocol_pack_payload le k payload (word_of_int opcode)
       (word_of_int (flags AND uint WEBSOCKET_FLAGS_ALL)) = Inr frame"
    using assms by (auto simp: Protocol_pack_def pack_checks_def not_less split: if_splits)
qed

lemma flags_word:
  fixes flags :: int
  defines "w \<equiv> word_of_int (flags AND uint WEBSOCKET_FLAGS_ALL) :: byte"
  shows "bit w 0 = bit flags 0" "bit w 5 = bit flags 5" "received_flags w = received_flags (word_of_int flags)"
proof -
  have m: "uint WEBSOCKET_FLAGS_ALL = Bit_Operations.mask 6" by (simp add: WEBSOCKET_FLAGS_ALL_def mask_eq_exp_minus_1)
  show b: "bit w 0 = bit flags 0" "bit w 5 = bit flags 5"
    unfolding w_def m by (simp_all add: bit_simps)
  have "w = word_of_int flags AND 0x3f"
    unfolding w_def WEBSOCKET_FLAGS_ALL_def by (simp add: of_int_and_eq)
  then have "w AND 0x39 = word_of_int flags AND 0x39" "w AND 6 = word_of_int flags AND 6"
    by (simp_all add: and.assoc)
  then show "received_flags w = received_flags (word_of_int flags)" by (simp add: received_flags_def)
qed


lemma valid_opcode_byte:
  assumes "websocket_protocol_opcode_is_valid opcode"
  shows "uint (word_of_int opcode :: byte) = opcode" "(word_of_int opcode :: byte) AND 0x0f = word_of_int opcode"
  using assms by (auto simp: websocket_protocol_opcode_is_valid_def)

lemma control_opcode_byte:
  "websocket_protocol_opcode_is_valid opcode \<Longrightarrow>
     websocket_protocol_opcode_is_control opcode \<longleftrightarrow> opcode = 8 \<or> opcode = 9 \<or> opcode = 10"
  by (auto simp: websocket_protocol_opcode_is_valid_def websocket_protocol_opcode_is_control_def)

text \<open>What a receiver reads of a packed frame, whatever follows it.\<close>

lemma unpack_packed:
  assumes "pack_checks payload opcode flags" "fits_size_t payload" "\<not> (opcode = 8 \<and> length payload = 1)"
    and "websocket_protocol_pack_payload le k payload (word_of_int opcode)
       (word_of_int (flags AND uint WEBSOCKET_FLAGS_ALL)) = Inr frame"
  shows "websocket_protocol_unpack le' (frame @ rest) =
    unpack_object (word_of_int opcode) (received_flags (word_of_int flags)) (bit flags 0) payload (length frame)"
proof -
  define fl :: byte where "fl = word_of_int (flags AND uint WEBSOCKET_FLAGS_ALL)"
  define b0 where "b0 = frame_first_byte (word_of_int opcode) fl"
  have v: "websocket_protocol_opcode_is_valid opcode" using assms(1) by (simp add: pack_checks_def)
  obtain key where k: "key_fits (bit fl 5) key"
    and f: "frame = raw_frame b0 (bit fl 5) key (if bit fl 5 then mask_payload key payload else payload)"
    using assms(4) pack_payload_raw_frame unfolding b0_def fl_def by blast
  define body where "body = (if bit fl 5 then mask_payload key payload else payload)"
  have body: "length body = length payload" "fits_size_t body"
    "(if bit fl 5 then mask_payload key body else body) = payload"
    using assms(2) by (simp_all add: body_def)
  have f: "frame = raw_frame b0 (bit fl 5) key body" using f by (simp add: body_def)
  note w = raw_frame_wire [OF k body(2) refl, of b0 rest, folded f]
  have b: "b0 AND 0x0f = word_of_int opcode" "bit b0 7 = bit flags 0"
    using valid_opcode_byte [OF v] flags_word [of flags, folded fl_def] by (simp_all add: b0_def)
  have b': "unpack_flags b0 (bit fl 5) = received_flags (word_of_int flags)"
    using flags_word(3) [of flags, folded fl_def] by (simp only: b0_def unpack_flags_first_byte)
  have c: "length frame = header_length (bit fl 5) (length payload) + length payload"
    using k body by (simp add: f)
  have "websocket_protocol_unpack le' (frame @ rest) = unpack_checked b0 (bit fl 5) payload (length frame)"
    using w body by (simp add: unpack_eq c)
  also have "\<dots> = unpack_object (word_of_int opcode) (received_flags (word_of_int flags)) (bit flags 0) payload (length frame)"
  proof -
    have "opcode = 8 \<longleftrightarrow> (word_of_int opcode :: byte) = OPCODE_CLOSE"
      using v by (auto simp: websocket_protocol_opcode_is_valid_def)
    then show ?thesis
      using assms(1,3) v valid_opcode_byte [OF v]
      by (auto simp: unpack_checked_def Let_def b b' pack_checks_def)
  qed
  finally show ?thesis .
qed

lemma packed_prefix:
  assumes "websocket_protocol_pack_payload le k payload opcode flags = Inr frame"
    "fits_size_t payload" "m < length frame"
  shows "\<not> wire_complete (take m frame)"
proof -
  from assms(1) obtain key where k: "key_fits (bit flags 5) key"
    and f: "frame = raw_frame (frame_first_byte opcode flags) (bit flags 5) key
             (if bit flags 5 then mask_payload key payload else payload)"
    by (rule pack_payload_raw_frame)
  show ?thesis unfolding f
    by (rule raw_frame_prefix_incomplete [OF k]) (use assms(2,3) f in auto)
qed


text \<open>C11. A payload packed as a string or as a \<^verbatim>\<open>Frame\<close> comes back from \<^verbatim>\<open>Protocol::unpack\<close>, at the
  head of any buffer: same payload, opcode and FIN, \<^verbatim>\<open>COMPRESS\<close> turned into RSV1, and
  \<^verbatim>\<open>bytesConsumed\<close> the length of the frame.\<close>

theorem unpack_pack_frame:
  assumes "Protocol_pack le k data opcode_arg flags_arg = Inr frame"
    and "pack_arguments data opcode_arg flags_arg = Inr (payload, opcode, flags)"
    and "opcode \<noteq> uint OPCODE_CLOSE" "length payload + 14 \<le> SIZE_MAX"
  shows "\<exists>type. websocket_protocol_message_type_opcode type = word_of_int opcode
    \<and> Protocol_unpack le' (frame @ rest) = Inr (Some (DecodedFrame
        \<lparr>frame_type = type, frame_opcode = opcode,
         frame_flags = uint (received_flags (word_of_int flags)), frame_payload = payload,
         frame_final = bit flags 0, frame_bytes_consumed = length frame\<rparr>))"
proof -
  note p = Protocol_pack_InrD [OF assms(1,2)]
  have u: "Protocol_unpack le' (frame @ rest) =
    unpack_object (word_of_int opcode) (received_flags (word_of_int flags)) (bit flags 0) payload (length frame)"
    unfolding Protocol_unpack_def using unpack_packed [OF p(1) assms(4) _ p(2)] assms(3) by simp
  have v: "opcode = 0 \<or> opcode = 1 \<or> opcode = 2 \<or> opcode = 9 \<or> opcode = 10"
    using p(1) assms(3) by (auto simp: pack_checks_def websocket_protocol_opcode_is_valid_def)
  then obtain t where t: "websocket_protocol_message_type_from_opcode (word_of_int opcode) = Some t"
      "websocket_protocol_message_type_opcode t = word_of_int opcode"
    by (elim disjE) (simp_all add: websocket_protocol_message_type_from_opcode_def)
  have o: "(word_of_int opcode :: byte) \<noteq> 8" "(word_of_int opcode :: byte) = 1 \<longleftrightarrow> opcode = 1"
      "uint (word_of_int opcode :: byte) = opcode"
    using v by auto
  show ?thesis
    unfolding u using p(1) t o by (intro exI [of _ t]) (simp add: unpack_object_def pack_checks_def)
qed

theorem unpack_pack_frame_witness:
  "Protocol_pack True \<lparr>getrandom_results = [], open_results = [], read_results = []\<rparr>
     (PackString [72, 105]) 1 (1 + 2) = Inr [0xc1, 2, 72, 105]
   \<and> (\<exists>type. websocket_protocol_message_type_opcode type = 1
      \<and> Protocol_unpack True ([0xc1, 2, 72, 105] @ [0x81]) = Inr (Some (DecodedFrame
        \<lparr>frame_type = type, frame_opcode = 1, frame_flags = 5, frame_payload = [72, 105],
         frame_final = True, frame_bytes_consumed = 4\<rparr>)))"
proof -
  have p: "Protocol_pack True \<lparr>getrandom_results = [], open_results = [], read_results = []\<rparr>
     (PackString [72, 105]) 1 (1 + 2) = Inr [0xc1, 2, 72, 105]"
    by code_simp
  show ?thesis
    using p unpack_pack_frame [OF p, where payload = "[72, 105]" and opcode = 1 and flags = 3 and rest = "[0x81]" and le' = True]
    by (simp add: pack_arguments_def SIZE_MAX_def received_flags_def bit_0 flip: numeral_2_eq_2)
qed

text \<open>The payload of a close frame: the code, most significant byte first, and the reason.\<close>

lemma close_payload_bytes:
  assumes "websocket_protocol_close_payload code reason = Inr payload"
  shows "push_bit 8 (uint (payload ! 0)) OR uint (payload ! 1) = code" "drop 2 payload = reason"
    "websocket_protocol_close_code_is_valid code" "websocket_protocol_is_valid_utf8 reason"
    "2 \<le> length payload" "length payload \<le> 125"
proof -
  have c: "websocket_protocol_close_code_is_valid code" "length reason \<le> 123" "websocket_protocol_is_valid_utf8 reason"
    and pl: "payload = [word_of_int (drop_bit 8 code AND 0xff), word_of_int (code AND 0xff)] @ reason"
    using assms by (auto simp: websocket_protocol_close_payload_def WEBSOCKET_CLOSE_REASON_MAX_LEN_def split: if_splits)
  show "drop 2 payload = reason" "websocket_protocol_close_code_is_valid code" "websocket_protocol_is_valid_utf8 reason"
    "2 \<le> length payload" "length payload \<le> 125"
    using c by (simp_all add: pl)
  have range: "0 \<le> code" "code < 2 ^ 16"
    using c(1) by (auto simp: websocket_protocol_close_code_is_valid_def split: if_splits)
  have m: "(0xff::int) = Bit_Operations.mask 8" by (simp add: mask_eq_exp_minus_1)
  have "uint (payload ! 0) = take_bit 8 (drop_bit 8 code)" "uint (payload ! 1) = take_bit 8 code"
    by (simp_all add: pl m unsigned_of_int flip: take_bit_eq_mask)
  moreover have "take_bit 8 (drop_bit 8 code) = drop_bit 8 code"
    using range by (simp add: take_bit_int_eq_self drop_bit_eq_div)
  moreover have "push_bit 8 (drop_bit 8 x) OR take_bit 8 x = x" for x :: int
    by (rule bit_eqI) (auto simp: bit_simps)
  ultimately show "push_bit 8 (uint (payload ! 0)) OR uint (payload ! 1) = code" by simp
qed

text \<open>C26. A \<^verbatim>\<open>CloseFrame\<close> that \<^verbatim>\<open>pack\<close> accepts comes back with its code and reason.\<close>

theorem unpack_pack_close:
  assumes "Protocol_pack le k (PackClose c) opcode_arg flags_arg = Inr frame"
  shows "Protocol_unpack le' (frame @ rest) = Inr (Some (DecodedClose
     (c\<lparr>close_flags := uint (received_flags (word_of_int (close_flags c))), close_bytes_consumed := length frame\<rparr>)))
   \<and> websocket_protocol_close_code_is_valid (close_code c) \<and> bit (close_flags c) 0"
proof -
  obtain payload where cp: "websocket_protocol_close_payload (close_code c) (close_reason c) = Inr payload"
    using assms by (auto simp: Protocol_pack_def pack_arguments_def split: sum.splits)
  then have a: "pack_arguments (PackClose c) opcode_arg flags_arg = Inr (payload, 8, close_flags c)"
    by (simp add: pack_arguments_def)
  note pl = close_payload_bytes [OF cp]
  note p = Protocol_pack_InrD [OF assms a]
  have "bit (close_flags c) 0"
    using p(1) by (simp add: pack_checks_def websocket_protocol_opcode_is_control_def)
  moreover have "length payload + 14 \<le> SIZE_MAX" "length payload \<noteq> 1" using pl(5,6) by (simp_all add: SIZE_MAX_def)
  ultimately show ?thesis using unpack_packed [OF p(1) _ _ p(2), of le' rest] pl
    by (simp add: Protocol_unpack_def unpack_object_def)
qed

theorem unpack_pack_close_witness:
  "Protocol_unpack True ([0x88, 4, 3, 0xe8, 111, 107] @ []) = Inr (Some (DecodedClose
     \<lparr>close_code = 1000, close_reason = [111, 107], close_flags = 1, close_bytes_consumed = 6\<rparr>))"
proof -
  have p: "Protocol_pack True \<lparr>getrandom_results = [], open_results = [], read_results = []\<rparr>
     (PackClose \<lparr>close_code = 1000, close_reason = [111, 107], close_flags = 1, close_bytes_consumed = 0\<rparr>) 1 1
       = Inr [0x88, 4, 3, 0xe8, 111, 107]"
    by code_simp
  show ?thesis
    using unpack_pack_close [OF p, of True "[]"] by (simp add: received_flags_def bit_0 flip: numeral_2_eq_2)
qed

text \<open>C27. Of a packed frame that has not arrived in full, \<^verbatim>\<open>Protocol::unpack\<close> reports nothing:
  neither an error nor an object.\<close>

theorem unpack_strict_prefix:
  assumes "Protocol_pack le k data opcode_arg flags_arg = Inr frame"
    and "pack_arguments data opcode_arg flags_arg = Inr (payload, opcode, flags)"
    and "length payload + 14 \<le> SIZE_MAX" "m < length frame"
  shows "Protocol_unpack le' (take m frame) = Inr None"
  using packed_prefix [OF Protocol_pack_InrD(2) [OF assms(1,2)] assms(3,4)]
  by (simp add: Protocol_unpack_def unpack_eq)

theorem unpack_strict_prefix_witness:
  "Protocol_unpack True (take 3 [0xc1, 2, 72, 105]) = Inr None"
proof -
  have p: "Protocol_pack True \<lparr>getrandom_results = [], open_results = [], read_results = []\<rparr>
     (PackString [72, 105]) 1 3 = Inr [0xc1, 2, 72, 105]"
    by code_simp
  show ?thesis
    by (rule unpack_strict_prefix [OF p, where payload = "[72, 105]" and opcode = 1 and flags = 3])
       (simp_all add: pack_arguments_def SIZE_MAX_def)
qed

text \<open>C28. An answer of \<^verbatim>\<open>Protocol::unpack\<close>, error or object, is final: bytes that arrive later
  never change it.\<close>

theorem unpack_stable:
  assumes "Protocol_unpack le buf \<noteq> Inr None"
  shows "Protocol_unpack le (buf @ extra) = Protocol_unpack le buf"
proof -
  have "wire_complete buf" using assms by (auto simp: Protocol_unpack_def unpack_eq split: if_splits)
  then show ?thesis using wire_append [of buf extra] by (simp add: Protocol_unpack_def unpack_eq)
qed

theorem unpack_stable_witness:
  "Protocol_unpack True [0x81, 1, 65] \<noteq> Inr None
    \<and> Protocol_unpack True ([0x81, 1, 65] @ [0x89, 0]) = Protocol_unpack True [0x81, 1, 65]"
proof -
  have "Protocol_unpack True [0x81, 1, 65] \<noteq> Inr None" by code_simp
  then show ?thesis using unpack_stable by blast
qed

subsection \<open>Framing as an interface\<close>

text \<open>
  What a reader of a byte stream relies on: a frame at the head of the buffer is recognised
  whatever follows, and a part of a frame is reported as incomplete. Both readers of the
  extension, \<^verbatim>\<open>Protocol::unpack\<close> and the server's \<^verbatim>\<open>websocket_server_parse_frame\<close>, provide it.
\<close>

locale frame_codec =
  fixes enc :: "'m \<Rightarrow> bytes \<Rightarrow> bool"
    and dec :: "bytes \<Rightarrow> 'a option"
    and result :: "'m \<Rightarrow> nat \<Rightarrow> 'a"
  assumes enc_nonempty: "enc m f \<Longrightarrow> f \<noteq> []"
    and dec_enc: "enc m f \<Longrightarrow> dec (f @ rest) = Some (result m (length f))"
    and dec_prefix: "enc m f \<Longrightarrow> n < length f \<Longrightarrow> dec (take n f) = None"
begin

lemma prefix_free:
  assumes "enc m f" "enc m' f'" "f @ rest = f' @ rest'"
  shows "f = f'" "rest = rest'"
proof -
  have le: "length f' \<le> length f" if "enc m f" "enc m' f'" "f @ rest = f' @ rest'" for m f rest m' f' rest'
  proof (rule ccontr)
    assume "\<not> length f' \<le> length f"
    then have l: "length f < length f'" by simp
    have "f = take (length f) f'" using that(3) l by (metis append_eq_append_conv_if less_imp_le not_le)
    then have "dec f = None" using dec_prefix [OF that(2) l] by simp
    moreover have "dec (f @ []) = Some (result m (length f))" using dec_enc [OF that(1)] .
    ultimately show False by simp
  qed
  have "length f = length f'" using le [OF assms] le [OF assms(2,1) assms(3) [symmetric]] by simp
  then show "f = f'" "rest = rest'" using assms(3) by auto
qed

lemma same_result:
  assumes "enc m f" "enc m' f'" "f @ rest = f' @ rest'"
  shows "result m (length f) = result m' (length f')"
  using prefix_free(1) [OF assms] dec_enc [OF assms(1), of "[]"] dec_enc [OF assms(2), of "[]"] by simp

text \<open>Cut anywhere, a stream of frames shows its first frame once that is complete, and nothing before.\<close>

lemma dec_stream:
  assumes "enc m f"
  shows "dec (take n (f @ rest)) = (if n < length f then None else Some (result m (length f)))"
proof (cases "n < length f")
  case False
  then have "take n (f @ rest) = f @ take (n - length f) rest" by simp
  then show ?thesis using dec_enc [OF assms] False by simp
qed (use dec_prefix [OF assms] in simp)

end

text \<open>The interpretation on \<^verbatim>\<open>Protocol::pack\<close> and \<^verbatim>\<open>Protocol::unpack\<close>. An encoded message is the
  payload, opcode and flags that \<^verbatim>\<open>pack\<close> took from its arguments.\<close>

definition packed :: "bytes \<times> int \<times> int \<Rightarrow> bytes \<Rightarrow> bool" where
  "packed m frame \<longleftrightarrow> (case m of (payload, opcode, flags) \<Rightarrow>
     length payload + 14 \<le> SIZE_MAX \<and> \<not> (opcode = 8 \<and> length payload = 1)
   \<and> (\<exists>le k data op fl. Protocol_pack le k data op fl = Inr frame
        \<and> pack_arguments data op fl = Inr (payload, opcode, flags)))"

definition packed_result :: "bytes \<times> int \<times> int \<Rightarrow> nat \<Rightarrow> php_error + decoded option" where
  "packed_result m n = (case m of (payload, opcode, flags) \<Rightarrow>
     unpack_object (word_of_int opcode) (received_flags (word_of_int flags)) (bit flags 0) payload n)"

definition unpack_answer :: "bool \<Rightarrow> bytes \<Rightarrow> (php_error + decoded option) option" where
  "unpack_answer le buf = (if Protocol_unpack le buf = Inr None then None else Some (Protocol_unpack le buf))"

lemma unpack_object_not_None [simp]: "unpack_object opcode flags final payload n \<noteq> Inr None"
  by (auto simp: unpack_object_def split: option.splits)

lemma packed_wire:
  assumes "websocket_protocol_pack_payload le k payload opcode flags = Inr frame" "fits_size_t payload"
  shows "wire_payload (frame @ rest) = payload" "(frame @ rest) ! 0 AND 0x0f = opcode AND 0x0f"
    "length frame = wire_start (frame @ rest) + length payload" "frame \<noteq> []"
proof -
  from assms(1) obtain key where k: "key_fits (bit flags 5) key"
    and f: "frame = raw_frame (frame_first_byte opcode flags) (bit flags 5) key
             (if bit flags 5 then mask_payload key payload else payload)"
    by (rule pack_payload_raw_frame)
  define body where "body = (if bit flags 5 then mask_payload key payload else payload)"
  have body: "length body = length payload" "fits_size_t body" using assms(2) by (simp_all add: body_def)
  show "wire_payload (frame @ rest) = payload"
    using raw_frame_wire(6) [OF k body(2) refl] by (simp add: f body_def)
  show "(frame @ rest) ! 0 AND 0x0f = opcode AND 0x0f"
    using raw_frame_wire(2) [OF k body(2) refl] by (simp add: f body_def)
  show "length frame = wire_start (frame @ rest) + length payload"
    using raw_frame_wire(4) [OF k body(2) refl] k body by (simp add: f body_def)
  show "frame \<noteq> []" by (simp add: f raw_frame_def)
qed

interpretation pk: frame_codec packed "unpack_answer le" packed_result for le
proof
  fix m f assume "packed m f"
  then obtain payload opcode flags le' k data op fl where m: "m = (payload, opcode, flags)"
    and p: "Protocol_pack le' k data op fl = Inr f" "pack_arguments data op fl = Inr (payload, opcode, flags)"
    and l: "length payload + 14 \<le> SIZE_MAX" "\<not> (opcode = 8 \<and> length payload = 1)"
    unfolding packed_def by (cases m) auto
  note q = Protocol_pack_InrD [OF p]
  show "f \<noteq> []" using packed_wire(4) [OF q(2) l(1)] .
  show "unpack_answer le (f @ rest) = Some (packed_result m (length f))" for rest
    using unpack_packed [OF q(1) l q(2)] by (simp add: unpack_answer_def Protocol_unpack_def packed_result_def m)
  show "unpack_answer le (take n f) = None" if "n < length f" for n
    using packed_prefix [OF q(2) l(1) that] by (simp add: unpack_answer_def Protocol_unpack_def unpack_eq)
qed

text \<open>C29. Framing is unambiguous: if two streams that start with packed frames agree, the frames
  agree, with payload, opcode and remaining stream.\<close>

theorem pack_unambiguous:
  assumes "packed (payload, opcode, flags) f" "packed (payload', opcode', flags') f'"
    and "f @ rest = f' @ rest'"
  shows "f = f' \<and> rest = rest' \<and> payload = payload' \<and> opcode = opcode'"
proof -
  have p: "\<exists>le k. websocket_protocol_opcode_is_valid opcode \<and> length payload + 14 \<le> SIZE_MAX \<and>
      websocket_protocol_pack_payload le k payload (word_of_int opcode)
       (word_of_int (flags AND uint WEBSOCKET_FLAGS_ALL)) = Inr f"
    if "packed (payload, opcode, flags) f" for payload opcode flags f
    using that Protocol_pack_InrD unfolding packed_def pack_checks_def by fastforce
  have eq: "f = f'" "rest = rest'" using pk.prefix_free [OF assms] by auto
  show ?thesis
  proof -
    obtain le k le' k' where q: "websocket_protocol_opcode_is_valid opcode" "length payload + 14 \<le> SIZE_MAX"
      "websocket_protocol_pack_payload le k payload (word_of_int opcode)
         (word_of_int (flags AND uint WEBSOCKET_FLAGS_ALL)) = Inr f"
      and q': "websocket_protocol_opcode_is_valid opcode'" "length payload' + 14 \<le> SIZE_MAX"
      "websocket_protocol_pack_payload le' k' payload' (word_of_int opcode')
         (word_of_int (flags' AND uint WEBSOCKET_FLAGS_ALL)) = Inr f"
      using p [OF assms(1)] p [OF assms(2)] eq by blast
    have "payload = payload'" using packed_wire(1) [OF q(3,2)] packed_wire(1) [OF q'(3,2)] by metis
    moreover have "(word_of_int opcode :: byte) = word_of_int opcode'"
      using packed_wire(2) [OF q(3,2)] packed_wire(2) [OF q'(3,2)] valid_opcode_byte(2) [OF q(1)]
        valid_opcode_byte(2) [OF q'(1)] by metis
    then have "opcode = opcode'"
      using valid_opcode_byte(1) [OF q(1)] valid_opcode_byte(1) [OF q'(1)] by metis
    ultimately show ?thesis using eq by simp
  qed
qed

theorem pack_unambiguous_witness:
  "packed ([72, 105], 1, 1) [0x81, 2, 72, 105] \<and> [72, 105 :: byte] = [72, 105] \<and> [0x89 :: byte] = [0x89]"
proof -
  have "Protocol_pack True \<lparr>getrandom_results = [], open_results = [], read_results = []\<rparr>
     (PackString [72, 105]) 1 1 = Inr [0x81, 2, 72, 105]"
    by code_simp
  moreover have "pack_arguments (PackString [72, 105]) 1 1 = Inr ([72, 105], 1, 1)"
    by (simp add: pack_arguments_def)
  ultimately have p: "packed ([72, 105], 1, 1) [0x81, 2, 72, 105]"
    unfolding packed_def by (simp add: SIZE_MAX_def) blast
  show ?thesis using pack_unambiguous [OF p p, of "[0x89]" "[0x89]"] p by simp
qed

end
