(* ===== verification/Ws_Http.thy ===== *)
theory Ws_Http
  imports Ws_Frame
begin

text \<open>
  The opening handshake (\<^verbatim>\<open>websocket_http.c\<close>): the parser of the upgrade request and the
  101 response.

  A pointer into the read buffer is an offset, a pointer with its length the list of bytes
  it denotes. The strict Base64 decoder and SHA-1 of PHP are the fields of a parameter of type
  \<open>php_lib\<close>.
\<close>

subsection \<open>Data\<close>

definition WEBSOCKET_HTTP_MAX_REQUEST_SIZE :: nat where
  [ws_eval]: "WEBSOCKET_HTTP_MAX_REQUEST_SIZE = 8192"

record php_lib =
  lib_sha1 :: "bytes \<Rightarrow> bytes"
  lib_base64_encode :: "bytes \<Rightarrow> bytes"
  lib_base64_decode :: "bytes \<Rightarrow> bytes option" \<comment> \<open>strict; \<open>None\<close> for a malformed input\<close>

datatype websocket_http_upgrade_result = UpgradeIncomplete | UpgradeOk | UpgradeInvalid

text \<open>A header is its trimmed name and value.\<close>

type_synonym websocket_http_header = "bytes \<times> bytes"

record websocket_http_upgrade =
  up_method :: bytes
  up_target :: bytes
  up_headers :: "websocket_http_header list"
  up_header_capacity :: nat
  up_accept_key :: "bytes option"
  up_selected_subprotocol :: "bytes option"
  up_bytes_consumed :: nat

abbreviation (input) CR :: byte where "CR \<equiv> 13"
abbreviation (input) LF :: byte where "LF \<equiv> 10"
abbreviation (input) SPACE :: byte where "SPACE \<equiv> 32"
abbreviation (input) TAB :: byte where "TAB \<equiv> 9"
abbreviation (input) COMMA :: byte where "COMMA \<equiv> 44"
abbreviation (input) COLON :: byte where "COLON \<equiv> 58"

subsection \<open>Lexical helpers\<close>

definition at_header_end :: "bytes \<Rightarrow> nat \<Rightarrow> bool" where
  [ws_eval]: "at_header_end buffer i \<longleftrightarrow>
    buffer ! i = CR \<and> buffer ! (i + 1) = LF \<and> buffer ! (i + 2) = CR \<and> buffer ! (i + 3) = LF"

function find_header_end_from :: "bytes \<Rightarrow> nat \<Rightarrow> nat option" where
  "find_header_end_from buffer i =
    (if i + 3 < length buffer then
       (if at_header_end buffer i then Some i else find_header_end_from buffer (i + 1))
     else None)"
  by pat_completeness auto
termination by (relation "measure (\<lambda>(buffer, i). length buffer - i)") auto

declare find_header_end_from.simps [simp del]

definition websocket_http_find_header_end :: "bytes \<Rightarrow> nat option" where
  [ws_eval]: "websocket_http_find_header_end buffer =
    (if length buffer < 4 then None else find_header_end_from buffer 0)"

definition http_blank :: "byte \<Rightarrow> bool" where
  [ws_eval]: "http_blank b \<longleftrightarrow> b = SPACE \<or> b = TAB"

text \<open>The first loop moves the start, the second the end.\<close>

fun trim_start :: "bytes \<Rightarrow> bytes" where
  "trim_start [] = []"
| "trim_start (b # bs) = (if http_blank b then trim_start bs else b # bs)"

definition websocket_http_trim :: "bytes \<Rightarrow> bytes" where
  [ws_eval]: "websocket_http_trim value = rev (trim_start (rev (trim_start value)))"

text \<open>\<^verbatim>\<open>strncasecmp(a, b, n) == 0\<close>\<close>

fun strncasecmp_eq :: "bytes \<Rightarrow> bytes \<Rightarrow> nat \<Rightarrow> bool" where
  "strncasecmp_eq [] b n = (n = 0)"
| "strncasecmp_eq (x # a) b n =
    (if n = 0 then True
     else (case b of [] \<Rightarrow> False
           | y # b \<Rightarrow> to_lower x = to_lower y \<and> (x = 0 \<or> strncasecmp_eq a b (n - 1))))"

definition websocket_http_equals_ci :: "bytes \<Rightarrow> bytes \<Rightarrow> bool" where
  [ws_eval]: "websocket_http_equals_ci value expected \<longleftrightarrow>
    length value = length expected \<and> strncasecmp_eq value expected (length expected)"

function header_contains_token_from :: "bytes \<Rightarrow> bytes \<Rightarrow> nat \<Rightarrow> bool" where
  "header_contains_token_from value token offset =
    (if offset \<le> length value then
       (let part = drop offset value; comma = memchr part COMMA (length value - offset);
            token_start = websocket_http_trim
              (take (case comma of Some c \<Rightarrow> c | None \<Rightarrow> length value - offset) part)
        in if websocket_http_equals_ci token_start token then True
           else (case comma of
                   None \<Rightarrow> False
                 | Some c \<Rightarrow> header_contains_token_from value token (offset + c + 1)))
     else False)"
  by pat_completeness auto
termination by (relation "measure (\<lambda>(value, token, offset). Suc (length value) - offset)") auto

definition websocket_http_header_contains_token :: "bytes \<Rightarrow> bytes \<Rightarrow> bool" where
  [ws_eval]: "websocket_http_header_contains_token value token = header_contains_token_from value token 0"

text \<open>The bytes \<^verbatim>\<open>( ) < > @ , ; :\<close>, backslash, double quote and \<^verbatim>\<open>/ [ ] ? = { }\<close>.\<close>

definition http_separator :: "byte \<Rightarrow> bool" where
  [ws_eval]: "http_separator ch \<longleftrightarrow>
    ch \<in> {40, 41, 60, 62, 64, 44, 59, 58, 92, 34, 47, 91, 93, 63, 61, 123, 125}"

definition websocket_http_validate_subprotocol_token :: "bytes \<Rightarrow> bool" where
  [ws_eval]: "websocket_http_validate_subprotocol_token value =
    (if value = [] then False
     else list_all (\<lambda>ch. \<not> (ch \<le> 32 \<or> ch \<ge> 127) \<and> \<not> http_separator ch) value)"

text \<open>
  The supported subprotocols are the keys of a PHP hash table, \<open>None\<close> when the server has
  none. The result is the return value and the selected subprotocol.
\<close>

function select_subprotocol_from ::
    "bytes \<Rightarrow> bytes list option \<Rightarrow> bytes option \<Rightarrow> nat \<Rightarrow> bool \<times> bytes option" where
  "select_subprotocol_from value supported selected offset =
    (if offset \<le> length value then
       (let part = drop offset value; comma = memchr part COMMA (length value - offset);
            token_start = websocket_http_trim
              (take (case comma of Some c \<Rightarrow> c | None \<Rightarrow> length value - offset) part)
        in if \<not> websocket_http_validate_subprotocol_token token_start then (False, selected)
           else
             (let selected =
                (if selected = None \<and> supported \<noteq> None \<and> length (the supported) > 0
                    \<and> token_start \<in> set (the supported)
                 then Some token_start else selected)
              in case comma of
                   None \<Rightarrow> (True, selected)
                 | Some c \<Rightarrow> select_subprotocol_from value supported selected (offset + c + 1)))
     else (True, selected))"
  by pat_completeness auto
termination
  by (relation "measure (\<lambda>(value, supported, selected, offset). Suc (length value) - offset)") auto

declare header_contains_token_from.simps [simp del] select_subprotocol_from.simps [simp del]

definition websocket_http_select_subprotocol ::
    "bytes \<Rightarrow> bytes list option \<Rightarrow> bytes option \<Rightarrow> bool \<times> bytes option" where
  [ws_eval]: "websocket_http_select_subprotocol value supported selected =
    select_subprotocol_from value supported selected 0"


subsection \<open>The request line and the key\<close>

definition websocket_http_parse_request_line ::
    "bytes \<Rightarrow> websocket_http_upgrade \<Rightarrow> bool \<times> websocket_http_upgrade" where
  [ws_eval]: "websocket_http_parse_request_line line upgrade =
    (case memchr line SPACE (length line) of
       None \<Rightarrow> (False, upgrade)
     | Some method_len \<Rightarrow>
         if \<not> websocket_http_equals_ci (take method_len line) (lit ''GET'') then (False, upgrade)
         else
           (let target_start = drop (method_len + 1) line in
            case memchr target_start SPACE (length line - method_len - 1) of
              None \<Rightarrow> (False, upgrade)
            | Some target_len \<Rightarrow>
                if target_len = 0 then (False, upgrade)
                else if \<not> websocket_http_equals_ci (drop (target_len + 1) target_start) (lit ''HTTP/1.1'')
                then (False, upgrade)
                else (True, upgrade\<lparr>up_method := take method_len line,
                                    up_target := take target_len target_start\<rparr>)))"

definition websocket_http_validate_key :: "php_lib \<Rightarrow> bytes \<Rightarrow> bytes option" where
  [ws_eval]: "websocket_http_validate_key lib value =
    (case lib_base64_decode lib value of
       None \<Rightarrow> None
     | Some decoded \<Rightarrow>
         if length decoded \<noteq> 16 then None
         else Some (websocket_protocol_accept_key (lib_sha1 lib) (lib_base64_encode lib) value))"

subsection \<open>The header list\<close>

definition websocket_http_upgrade_init :: websocket_http_upgrade where
  [ws_eval]: "websocket_http_upgrade_init =
    \<lparr>up_method = [], up_target = [], up_headers = [], up_header_capacity = 0,
     up_accept_key = None, up_selected_subprotocol = None, up_bytes_consumed = 0\<rparr>"

definition websocket_http_append_header ::
    "websocket_http_upgrade \<Rightarrow> bytes \<Rightarrow> bytes \<Rightarrow> websocket_http_upgrade" where
  [ws_eval]: "websocket_http_append_header upgrade name value =
    (let upgrade =
       (if length (up_headers upgrade) = up_header_capacity upgrade then
          upgrade\<lparr>up_header_capacity :=
            (if up_header_capacity upgrade \<noteq> 0 then up_header_capacity upgrade * 2 else 8)\<rparr>
        else upgrade)
     in upgrade\<lparr>up_headers := up_headers upgrade @ [(name, value)]\<rparr>)"

definition websocket_http_lower_header_name :: "bytes \<Rightarrow> bytes" where
  [ws_eval]: "websocket_http_lower_header_name name = map to_lower name"

text \<open>\<^verbatim>\<open>%s\<close> and \<^verbatim>\<open>%.*s\<close> print a string up to its first NUL byte.\<close>

definition c_string :: "bytes \<Rightarrow> bytes" where
  [ws_eval]: "c_string s = takeWhile (\<lambda>b. b \<noteq> 0) s"

text \<open>The PHP array of the request headers: an association list in insertion order.\<close>

fun hash_update :: "'k \<Rightarrow> 'v \<Rightarrow> ('k \<times> 'v) list \<Rightarrow> ('k \<times> 'v) list" where
  "hash_update k v [] = [(k, v)]"
| "hash_update k v (p # ps) = (if fst p = k then (k, v) # ps else p # hash_update k v ps)"

definition add_request_header ::
    "(bytes \<times> bytes) list \<Rightarrow> websocket_http_header \<Rightarrow> (bytes \<times> bytes) list" where
  [ws_eval]: "add_request_header headers header =
    (let lower_name = websocket_http_lower_header_name (fst header) in
     case map_of headers lower_name of
       Some existing \<Rightarrow>
         hash_update lower_name (c_string existing @ lit '', '' @ c_string (snd header)) headers
     | None \<Rightarrow> hash_update lower_name (snd header) headers)"

definition websocket_http_upgrade_request_headers ::
    "websocket_http_upgrade \<Rightarrow> (bytes \<times> bytes) list" where
  [ws_eval]: "websocket_http_upgrade_request_headers upgrade =
    foldl add_request_header [] (up_headers upgrade)"

subsection \<open>Parsing the request\<close>

record upgrade_flags =
  has_upgrade :: bool
  has_connection :: bool
  has_version :: bool

text \<open>What one header does to the parse: \<open>None\<close> rejects the request.\<close>

definition upgrade_header ::
    "php_lib \<Rightarrow> bytes list option \<Rightarrow> bytes \<Rightarrow> bytes \<Rightarrow> websocket_http_upgrade \<Rightarrow> upgrade_flags
      \<Rightarrow> websocket_http_upgrade \<times> upgrade_flags option" where
  [ws_eval]: "upgrade_header lib supported name value upgrade flags =
    (if websocket_http_equals_ci name (lit ''Upgrade'') then
       (upgrade, Some (flags\<lparr>has_upgrade :=
          websocket_http_header_contains_token value (lit ''websocket'')\<rparr>))
     else if websocket_http_equals_ci name (lit ''Connection'') then
       (upgrade, Some (flags\<lparr>has_connection :=
          websocket_http_header_contains_token value (lit ''upgrade'')\<rparr>))
     else if websocket_http_equals_ci name (lit ''Sec-WebSocket-Version'') then
       (upgrade, Some (flags\<lparr>has_version := websocket_http_equals_ci value (lit ''13'')\<rparr>))
     else if websocket_http_equals_ci name (lit ''Sec-WebSocket-Key'') then
       (if up_accept_key upgrade \<noteq> None then (upgrade, None)
        else (case websocket_http_validate_key lib value of
                None \<Rightarrow> (upgrade, None)
              | Some accept \<Rightarrow> (upgrade\<lparr>up_accept_key := Some accept\<rparr>, Some flags)))
     else if websocket_http_equals_ci name (lit ''Sec-WebSocket-Protocol'') then
       (case websocket_http_select_subprotocol value supported (up_selected_subprotocol upgrade) of
          (ok, selected) \<Rightarrow>
            (upgrade\<lparr>up_selected_subprotocol := selected\<rparr>, if ok then Some flags else None))
     else (upgrade, Some flags))"

text \<open>The loop over the header lines; \<open>line\<close> and \<open>header_end\<close> are offsets into the buffer.\<close>

function parse_header_lines ::
    "php_lib \<Rightarrow> bytes list option \<Rightarrow> bytes \<Rightarrow> nat \<Rightarrow> nat \<Rightarrow> websocket_http_upgrade \<Rightarrow> upgrade_flags
      \<Rightarrow> websocket_http_upgrade \<times> upgrade_flags option" where
  "parse_header_lines lib supported buffer header_end line upgrade flags =
    (if line < header_end then
       (case memchr (drop line buffer) CR (header_end - line + 1) of
          None \<Rightarrow> (upgrade, None)
        | Some line_len \<Rightarrow>
            (let line_end = line + line_len in
             if line_end + 1 \<ge> length buffer \<or> buffer ! (line_end + 1) \<noteq> LF then (upgrade, None)
             else if line_len = 0 then (upgrade, Some flags)
             else
               (case memchr (drop line buffer) COLON line_len of
                  None \<Rightarrow> (upgrade, None)
                | Some colon \<Rightarrow>
                    (let name = websocket_http_trim (take colon (drop line buffer));
                         value = websocket_http_trim
                           (take (line_len - colon - 1) (drop (line + colon + 1) buffer));
                         upgrade = websocket_http_append_header upgrade name value
                     in case upgrade_header lib supported name value upgrade flags of
                          (upgrade, None) \<Rightarrow> (upgrade, None)
                        | (upgrade, Some flags) \<Rightarrow>
                            parse_header_lines lib supported buffer header_end (line_end + 2)
                              upgrade flags))))
     else (upgrade, Some flags))"
  by pat_completeness auto
termination
  by (relation "measure (\<lambda>(lib, supported, buffer, header_end, line, upgrade, flags). header_end - line)")
     auto

declare parse_header_lines.simps [simp del]

definition websocket_http_parse_upgrade ::
    "php_lib \<Rightarrow> bytes \<Rightarrow> bytes list option \<Rightarrow> websocket_http_upgrade
      \<Rightarrow> websocket_http_upgrade_result \<times> websocket_http_upgrade" where
  [ws_eval]: "websocket_http_parse_upgrade lib buffer supported upgrade =
    (if length buffer > WEBSOCKET_HTTP_MAX_REQUEST_SIZE then (UpgradeInvalid, upgrade)
     else
       (case websocket_http_find_header_end buffer of
          None \<Rightarrow> (UpgradeIncomplete, upgrade)
        | Some header_end \<Rightarrow>
            (let upgrade = upgrade\<lparr>up_bytes_consumed := header_end + 4\<rparr> in
             case memchr buffer CR header_end of
               None \<Rightarrow> (UpgradeInvalid, upgrade)
             | Some request_line_end \<Rightarrow>
                 if request_line_end + 1 \<ge> length buffer \<or> buffer ! (request_line_end + 1) \<noteq> LF
                 then (UpgradeInvalid, upgrade)
                 else
                   (case websocket_http_parse_request_line (take request_line_end buffer) upgrade of
                      (False, upgrade) \<Rightarrow> (UpgradeInvalid, upgrade)
                    | (True, upgrade) \<Rightarrow>
                        (case parse_header_lines lib supported buffer header_end (request_line_end + 2)
                                upgrade \<lparr>has_upgrade = False, has_connection = False, has_version = False\<rparr> of
                           (upgrade, None) \<Rightarrow> (UpgradeInvalid, upgrade)
                         | (upgrade, Some flags) \<Rightarrow>
                             if \<not> has_upgrade flags \<or> \<not> has_connection flags \<or> \<not> has_version flags
                                \<or> up_accept_key upgrade = None
                             then (UpgradeInvalid, upgrade)
                             else (UpgradeOk, upgrade))))))"

subsection \<open>The response\<close>

definition CRLF :: bytes where
  [ws_eval]: "CRLF = [CR, LF]"

definition websocket_http_upgrade_response :: "bytes \<Rightarrow> bytes option \<Rightarrow> bytes" where
  [ws_eval]: "websocket_http_upgrade_response accept_key selected_subprotocol =
    (case selected_subprotocol of
       Some p \<Rightarrow>
         lit ''HTTP/1.1 101 Switching Protocols'' @ CRLF @ lit ''Upgrade: websocket'' @ CRLF
         @ lit ''Connection: Upgrade'' @ CRLF
         @ lit ''Sec-WebSocket-Accept: '' @ c_string accept_key @ CRLF
         @ lit ''Sec-WebSocket-Protocol: '' @ c_string p @ CRLF @ CRLF
     | None \<Rightarrow>
         lit ''HTTP/1.1 101 Switching Protocols'' @ CRLF @ lit ''Upgrade: websocket'' @ CRLF
         @ lit ''Connection: Upgrade'' @ CRLF
         @ lit ''Sec-WebSocket-Accept: '' @ c_string accept_key @ CRLF @ CRLF)"


subsection \<open>Comparing and splitting\<close>

lemma to_lower_0_iff [simp]: "to_lower b = 0 \<longleftrightarrow> b = 0"
  by (auto simp: to_lower_def word_le_nat_alt word_unat_eq_iff unat_word_ariths)

lemma strncasecmp_eq_iff:
  "length v = length e \<Longrightarrow> 0 \<notin> set e \<Longrightarrow>
     strncasecmp_eq v e (length e) \<longleftrightarrow> map to_lower v = map to_lower e"
proof (induction v e rule: list_induct2)
  case (Cons x xs y ys)
  have "to_lower x = to_lower y \<Longrightarrow> x \<noteq> 0" using Cons.prems by (metis list.set_intros(1) to_lower_0_iff)
  then show ?case using Cons by auto
qed simp

lemma equals_ci_iff:
  "0 \<notin> set e \<Longrightarrow> websocket_http_equals_ci v e \<longleftrightarrow> map to_lower v = map to_lower e"
  using map_eq_imp_length_eq [of to_lower v to_lower e]
  by (auto simp: websocket_http_equals_ci_def strncasecmp_eq_iff)

fun split_on :: "byte \<Rightarrow> bytes \<Rightarrow> bytes list" where
  "split_on c [] = [[]]"
| "split_on c (b # bs) =
    (if b = c then [] # split_on c bs else (case split_on c bs of p # ps \<Rightarrow> (b # p) # ps | [] \<Rightarrow> [[b]]))"

text \<open>The elements of a comma-separated header value, trimmed.\<close>

definition field_tokens :: "bytes \<Rightarrow> bytes list" where
  [ws_eval]: "field_tokens value = map websocket_http_trim (split_on COMMA value)"

lemma split_on_not_Nil [simp]: "split_on c xs \<noteq> []"
  by (induction xs) (auto split: list.splits)

lemma split_on_memchr:
  "split_on c xs = (case memchr_list xs c of
     None \<Rightarrow> [xs] | Some i \<Rightarrow> take i xs # split_on c (drop (Suc i) xs))"
  by (induction xs) (auto split: option.splits list.splits)

lemma memchr_rest: "memchr (drop i xs) c (length xs - i) = memchr_list (drop i xs) c"
  by (simp add: memchr_def)

lemma field_tokens_drop:
  "field_tokens (drop offset v) =
    (case memchr (drop offset v) COMMA (length v - offset) of
       None \<Rightarrow> [websocket_http_trim (take (length v - offset) (drop offset v))]
     | Some c \<Rightarrow> websocket_http_trim (take c (drop offset v)) # field_tokens (drop (offset + c + 1) v))"
  by (subst field_tokens_def, subst split_on_memchr)
     (simp add: memchr_rest field_tokens_def add.commute split: option.split)

lemma memchr_drop_bound:
  assumes "memchr (drop i xs) c n = Some k" shows "i + k < length xs"
  using memchr_SomeD(2) [OF assms] by simp

lemma header_contains_token_iff:
  "websocket_http_header_contains_token v token \<longleftrightarrow>
     (\<exists>t\<in>set (field_tokens v). websocket_http_equals_ci t token)"
proof -
  have "header_contains_token_from v token offset \<longleftrightarrow>
      (\<exists>t\<in>set (field_tokens (drop offset v)). websocket_http_equals_ci t token)"
    if "offset \<le> length v" for offset
    using that
  proof (induction v token offset rule: header_contains_token_from.induct)
    case (1 v token offset)
    show ?case
    proof (cases "memchr (drop offset v) COMMA (length v - offset)")
      case None
      then show ?thesis using 1(2)
        by (subst header_contains_token_from.simps, subst field_tokens_drop) (simp add: Let_def)
    next
      case (Some c)
      then have "offset + c + 1 \<le> length v" using memchr_drop_bound by fastforce
      with 1(1) [OF 1(2) refl refl refl _ Some] show ?thesis using 1(2) Some
        by (subst header_contains_token_from.simps, subst field_tokens_drop) (auto simp: Let_def)
    qed
  qed
  from this [of 0] show ?thesis by (simp add: websocket_http_header_contains_token_def)
qed

definition pick_subprotocol :: "bytes list option \<Rightarrow> bytes list \<Rightarrow> bytes option \<Rightarrow> bytes option" where
  "pick_subprotocol supported offered selected =
    (if selected = None then (case supported of None \<Rightarrow> None | Some s \<Rightarrow> List.find (\<lambda>t. t \<in> set s) offered)
     else selected)"

lemma pick_subprotocol_Nil [simp]: "pick_subprotocol supported [] selected = selected"
  by (simp add: pick_subprotocol_def split: option.split)

lemma pick_subprotocol_append [simp]:
  "pick_subprotocol supported ys (pick_subprotocol supported xs selected) = pick_subprotocol supported (xs @ ys) selected"
proof -
  have "List.find P (xs @ ys) = (case List.find P xs of None \<Rightarrow> List.find P ys | r \<Rightarrow> r)" for P :: "bytes \<Rightarrow> bool"
    by (induction xs) auto
  then show ?thesis by (auto simp: pick_subprotocol_def split: option.splits)
qed

lemma select_subprotocol_from_eq:
  "offset \<le> length v \<Longrightarrow>
    (case select_subprotocol_from v supported selected offset of (ok, selected') \<Rightarrow>
       ok = list_all websocket_http_validate_subprotocol_token (field_tokens (drop offset v))
     \<and> (ok \<longrightarrow> selected' = pick_subprotocol supported (field_tokens (drop offset v)) selected)
     \<and> (\<forall>p. selected' = Some p \<longrightarrow> selected = Some p \<or>
          websocket_http_validate_subprotocol_token p \<and> (\<exists>s. supported = Some s \<and> p \<in> set s)))"
proof (induction v supported selected offset rule: select_subprotocol_from.induct)
  case (1 v supported selected offset)
  define tok where "tok = websocket_http_trim (take (case memchr (drop offset v) COMMA (length v - offset) of
      Some c \<Rightarrow> c | None \<Rightarrow> length v - offset) (drop offset v))"
  define sel where "sel = (if selected = None \<and> supported \<noteq> None \<and> length (the supported) > 0
      \<and> tok \<in> set (the supported) then Some tok else selected)"
  have sel: "sel = pick_subprotocol supported [tok] selected"
    by (auto simp: sel_def pick_subprotocol_def split: option.splits)
  show ?case
  proof (cases "websocket_http_validate_subprotocol_token tok")
    case False
    then have "select_subprotocol_from v supported selected offset = (False, selected)"
      using 1(2) by (subst select_subprotocol_from.simps) (simp add: Let_def tok_def)
    moreover have "\<not> list_all websocket_http_validate_subprotocol_token (field_tokens (drop offset v))"
      using False by (subst field_tokens_drop) (auto simp: tok_def split: option.splits)
    ultimately show ?thesis by simp
  next
    case True
    show ?thesis
    proof (cases "memchr (drop offset v) COMMA (length v - offset)")
      case None
      have "select_subprotocol_from v supported selected offset = (True, sel)"
        using 1(2) True None by (subst select_subprotocol_from.simps) (simp add: Let_def tok_def sel_def)
      moreover have "field_tokens (drop offset v) = [tok]"
        using None by (subst field_tokens_drop) (simp add: tok_def)
      ultimately show ?thesis using sel True
        by (auto simp: sel_def split: if_splits)
    next
      case (Some c)
      then have le: "offset + c + 1 \<le> length v" using memchr_drop_bound by fastforce
      have "select_subprotocol_from v supported selected offset =
          select_subprotocol_from v supported sel (offset + c + 1)"
        using 1(2) True Some by (subst select_subprotocol_from.simps) (simp add: Let_def tok_def sel_def)
      moreover have "field_tokens (drop offset v) = tok # field_tokens (drop (offset + c + 1) v)"
        using Some by (subst field_tokens_drop) (simp add: tok_def)
      moreover obtain ok sel' where r: "select_subprotocol_from v supported sel (offset + c + 1) = (ok, sel')"
        by fastforce
      ultimately have e: "select_subprotocol_from v supported selected offset = (ok, sel')"
          "field_tokens (drop offset v) = tok # field_tokens (drop (offset + c + 1) v)"
        by simp_all
      have new: "sel = Some p \<Longrightarrow> selected = Some p \<or> tok = p \<and> (\<exists>s. supported = Some s \<and> p \<in> set s)" for p
        by (auto simp: sel_def split: if_splits)
      note 1(1) [OF 1(2) refl refl refl _ refl Some le, folded tok_def, folded sel_def, unfolded r]
      then show ?thesis using True new pick_subprotocol_append [of supported _ "[tok]" selected, folded sel]
        unfolding e by auto
    qed
  qed
qed


lemma select_subprotocol_eq:
  assumes "websocket_http_select_subprotocol v supported selected = (ok, selected')"
  shows "ok = list_all websocket_http_validate_subprotocol_token (field_tokens v)"
    "ok \<Longrightarrow> selected' = pick_subprotocol supported (field_tokens v) selected"
    "selected' = Some p \<Longrightarrow> selected = Some p \<or>
          websocket_http_validate_subprotocol_token p \<and> (\<exists>s. supported = Some s \<and> p \<in> set s)"
  using select_subprotocol_from_eq [of 0 v supported selected] assms
  by (auto simp: websocket_http_select_subprotocol_def)

subsection \<open>The end of the header\<close>

abbreviation (input) HEADER_END :: bytes where "HEADER_END \<equiv> [CR, LF, CR, LF]"

lemma at_header_end_Cons: "at_header_end (b # bs) (Suc i) = at_header_end bs i"
  by (simp add: at_header_end_def add.commute [of i])

lemma find_header_end_from_Suc:
  "find_header_end_from (b # bs) (Suc i) = map_option Suc (find_header_end_from bs i)"
proof (induction bs i rule: find_header_end_from.induct)
  case (1 bs i)
  then show ?case
    by (subst (1 2) find_header_end_from.simps) (simp add: at_header_end_Cons)
qed

lemma find_header_end_Cons:
  "find_header_end_from (b # bs) 0 =
    (if take 4 (b # bs) = HEADER_END then Some 0 else map_option Suc (find_header_end_from bs 0))"
proof (cases "4 \<le> length (b # bs)")
  case True
  then have "at_header_end (b # bs) 0 \<longleftrightarrow> take 4 (b # bs) = HEADER_END"
    by (auto simp: at_header_end_def length_Suc_conv Suc_le_length_iff numeral_eq_Suc)
  then show ?thesis
    using True find_header_end_from_Suc [of b bs 0]
    by (subst find_header_end_from.simps) simp
next
  case False
  then have "length (take 4 (b # bs)) \<noteq> length HEADER_END" by simp
  then have "take 4 (b # bs) \<noteq> HEADER_END" by metis
  then show ?thesis using False by (subst (1 2) find_header_end_from.simps) simp
qed

lemma find_header_end_Nil [simp]: "find_header_end_from [] 0 = None"
  by (subst find_header_end_from.simps) simp

lemma find_header_end_hit [simp]: "find_header_end_from (CR # LF # CR # LF # rest) 0 = Some 0"
  by (simp add: find_header_end_Cons)

lemma find_header_end_skip:
  "CR \<notin> set l \<Longrightarrow> find_header_end_from (l @ bs) 0 = map_option ((+) (length l)) (find_header_end_from bs 0)"
  by (induction l; cases "find_header_end_from bs 0") (auto simp: find_header_end_Cons)

lemma find_header_end_line:
  "y \<noteq> CR \<Longrightarrow> find_header_end_from (CR # LF # y # bs) 0 =
     map_option ((+) 2) (find_header_end_from (y # bs) 0)"
  by (subst find_header_end_Cons, subst find_header_end_Cons; cases "find_header_end_from (y # bs) 0")
     simp_all

definition text_line :: "bytes \<Rightarrow> bytes" where
  "text_line l = l @ CRLF"

lemma length_text_line [simp]: "length (text_line l) = length l + 2"
  by (simp add: text_line_def CRLF_def)

lemma find_header_end_lines:
  "\<forall>l\<in>set (l # ls). l \<noteq> [] \<and> CR \<notin> set l \<Longrightarrow>
     find_header_end_from (concat (map text_line (l # ls)) @ CRLF @ rest) 0 =
       Some (length (concat (map text_line (l # ls))) - 2)"
proof (induction ls arbitrary: l)
  case Nil
  then show ?case by (simp add: text_line_def CRLF_def find_header_end_skip)
next
  case (Cons l' ls)
  then obtain y ys where l': "l' = y # ys" "y \<noteq> CR" by (cases l') auto
  have "find_header_end_from (concat (map text_line (l # l' # ls)) @ CRLF @ rest) 0 =
      map_option ((+) (length l + 2)) (find_header_end_from (concat (map text_line (l' # ls)) @ CRLF @ rest) 0)"
    using Cons.prems l'
    by (cases "find_header_end_from (concat (map text_line (l' # ls)) @ CRLF @ rest) 0")
       (simp_all add: text_line_def CRLF_def find_header_end_skip find_header_end_line)
  also have "\<dots> = Some (length l + 2 + (length (concat (map text_line (l' # ls))) - 2))"
    using Cons by simp
  finally show ?case by simp
qed

lemma find_header_end_SomeD:
  "find_header_end_from bs 0 = Some h \<Longrightarrow>
     take 4 (drop h bs) = HEADER_END \<and> (\<forall>i<h. take 4 (drop i bs) \<noteq> HEADER_END)"
proof (induction bs arbitrary: h)
  case (Cons b bs)
  show ?case
  proof (cases "take 4 (b # bs) = HEADER_END")
    case True
    then show ?thesis using Cons.prems by (simp add: find_header_end_Cons)
  next
    case False
    then obtain h' where "find_header_end_from bs 0 = Some h'" "h = Suc h'"
      using Cons.prems by (auto simp: find_header_end_Cons)
    with Cons.IH [of h'] False show ?thesis by (auto simp: less_Suc_eq_0_disj)
  qed
qed simp

lemma websocket_http_find_header_end_eq: "websocket_http_find_header_end buffer = find_header_end_from buffer 0"
  unfolding websocket_http_find_header_end_def by (simp add: find_header_end_from.simps)

subsection \<open>The header lines\<close>

definition header_line :: "bytes \<times> bytes \<Rightarrow> bytes" where
  "header_line h = fst h @ [COLON] @ snd h"

definition raw_header_ok :: "bytes \<times> bytes \<Rightarrow> bool" where
  "raw_header_ok h \<longleftrightarrow> CR \<notin> set (fst h) \<and> COLON \<notin> set (fst h) \<and> CR \<notin> set (snd h)"

definition trimmed :: "bytes \<times> bytes \<Rightarrow> websocket_http_header" where
  "trimmed h = (websocket_http_trim (fst h), websocket_http_trim (snd h))"

abbreviation header_text :: "(bytes \<times> bytes) list \<Rightarrow> bytes" where "header_text hs \<equiv> concat (map (\<lambda>h. text_line (header_line h)) hs)"

text \<open>The loop on the header list itself.\<close>

fun upgrade_headers ::
    "php_lib \<Rightarrow> bytes list option \<Rightarrow> websocket_http_header list \<Rightarrow> websocket_http_upgrade \<Rightarrow> upgrade_flags
      \<Rightarrow> websocket_http_upgrade \<times> upgrade_flags option" where
  "upgrade_headers lib supported [] u fl = (u, Some fl)"
| "upgrade_headers lib supported (h # hs) u fl =
    (case upgrade_header lib supported (fst h) (snd h) (websocket_http_append_header u (fst h) (snd h)) fl of
       (u, None) \<Rightarrow> (u, None)
     | (u, Some fl) \<Rightarrow> upgrade_headers lib supported hs u fl)"

lemma memchr_hit: "c \<notin> set xs \<Longrightarrow> length xs < n \<Longrightarrow> memchr (xs @ c # ys) c n = Some (length xs)"
  by (simp add: memchr_def take_Cons')

lemma parse_header_lines_complete:
  assumes "drop line buffer = header_text hs @ CRLF @ rest" "\<forall>h\<in>set hs. raw_header_ok h"
    "line + length (header_text hs) = header_end + 2"
  shows "parse_header_lines lib supported buffer header_end line u fl = upgrade_headers lib supported (map trimmed hs) u fl"
  using assms
proof (induction hs arbitrary: line u fl)
  case Nil
  then show ?case by (subst parse_header_lines.simps) simp
next
  case (Cons h hs)
  define n v where "n = fst h" and "v = snd h"
  define k where "k = length n + 1 + length v"
  define more where "more = header_text hs @ CRLF @ rest"
  have ok: "CR \<notin> set n" "COLON \<notin> set n" "CR \<notin> set v" using Cons.prems(2) by (simp_all add: n_def v_def raw_header_ok_def)
  have d: "drop line buffer = (n @ COLON # v) @ CR # LF # more"
    using Cons.prems(1) by (simp add: n_def v_def more_def text_line_def header_line_def CRLF_def)
  have len: "line + k + 2 + length (header_text hs) = header_end + 2"
    using Cons.prems(3) by (simp add: n_def v_def k_def text_line_def header_line_def CRLF_def)
  have l: "line < header_end" using len by (cases hs) (simp_all add: k_def text_line_def)
  have cr: "memchr (drop line buffer) CR (header_end - line + 1) = Some k"
    unfolding d using memchr_hit [of CR "n @ COLON # v" "header_end - line + 1"] ok len l by (simp add: k_def)
  have co: "memchr (drop line buffer) COLON k = Some (length n)"
    unfolding d using memchr_hit [of COLON n k] ok by (simp add: k_def)
  have at: "drop (line + i) buffer = drop i ((n @ COLON # v) @ CR # LF # more)" for i
    using d by (simp add: add.commute flip: drop_drop)
  have lb: "length buffer = line + k + 2 + length more"
    using arg_cong [OF d, of length] l by (simp add: k_def)
  have lf: "buffer ! (line + k + 1) = LF"
    using at [of "k + 1"] drop_eq_ConsD(2) [of "line + k + 1" buffer LF more] by (simp add: k_def)
  have nm: "take (length n) (drop line buffer) = n" "take (k - length n - 1) (drop (line + length n + 1) buffer) = v"
    using d at [of "length n + 1"] by (simp_all add: k_def)
  have next_line: "drop (line + k + 2) buffer = more" using at [of "k + 2"] by (simp add: k_def numeral_3_eq_3)
  note IH = Cons.IH [of "line + k + 2", unfolded next_line, OF more_def [unfolded append_assoc]]
  show ?case
    using IH Cons.prems(2) len l cr co lf nm lb k_def
    by (subst parse_header_lines.simps) (simp add: Let_def trimmed_def [of h] n_def v_def split: prod.split option.split)
qed

lemma memchr_split:
  assumes "memchr (drop i xs) c n = Some k"
  obtains p where "drop i xs = p @ c # drop (i + k + 1) xs" "length p = k" "c \<notin> set p"
proof
  have k: "k < length (drop i xs)" "drop i xs ! k = c" "c \<notin> set (take k (drop i xs))"
    using memchr_SomeD [OF assms] by simp_all
  have "drop i xs = take k (drop i xs) @ drop k (drop i xs)" by (rule append_take_drop_id [symmetric])
  also have "drop k (drop i xs) = c # drop (Suc k) (drop i xs)" using k by (metis take_drop_nth_Cons)
  finally show "drop i xs = take k (drop i xs) @ c # drop (i + k + 1) xs"
    by (simp add: add.commute)
  show "length (take k (drop i xs)) = k" "c \<notin> set (take k (drop i xs))" using k by simp_all
qed

text \<open>A successful loop has read well-formed header lines up to the end of the header.\<close>

lemma parse_header_lines_sound:
  assumes "parse_header_lines lib supported buffer header_end line u fl = (u', Some fl')"
    and "find_header_end_from buffer 0 = Some header_end"
    and "2 \<le> line" "take 2 (drop (line - 2) buffer) = CRLF" "line \<le> header_end + 2"
  shows "\<exists>hs. (\<forall>h\<in>set hs. raw_header_ok h)
    \<and> drop line buffer = header_text hs @ CRLF @ drop (header_end + 4) buffer
    \<and> line + length (header_text hs) = header_end + 2"
  using assms
proof (induction "header_end - line" arbitrary: line u fl rule: less_induct)
  case less
  have he: "take 4 (drop header_end buffer) = HEADER_END"
    and first: "\<And>i. i < header_end \<Longrightarrow> take 4 (drop i buffer) \<noteq> HEADER_END"
    using find_header_end_SomeD [OF less.prems(2)] by auto
  have he2: "drop header_end buffer = CR # LF # CR # LF # drop (header_end + 4) buffer"
    using arg_cong [OF he, of "\<lambda>x. x @ drop (header_end + 4) buffer"]
    by (metis append_Cons append_Nil append_take_drop_id drop_drop add.commute)
  have prev: "drop (line - 2) buffer = CR # LF # drop line buffer"
  proof -
    have "drop (line - 2) buffer = take 2 (drop (line - 2) buffer) @ drop 2 (drop (line - 2) buffer)"
      by (rule append_take_drop_id [symmetric])
    moreover have "drop 2 (drop (line - 2) buffer) = drop line buffer"
      unfolding drop_drop using less.prems(3) by (intro arg_cong [of _ _ "\<lambda>n. drop n buffer"]) linarith
    ultimately show ?thesis using less.prems(4) by (simp add: CRLF_def)
  qed
  have not_crlf: "drop line buffer \<noteq> CR # LF # xs" if "line < header_end + 2" for xs
  proof -
    have "line - 2 < header_end" using that less.prems(3) by linarith
    then show ?thesis using first [of "line - 2"] prev by auto
  qed
  show ?case
  proof (cases "line < header_end")
    case False
    have "line \<noteq> header_end" using not_crlf [of "CR # LF # drop (header_end + 4) buffer"] he2 by auto
    moreover have "line \<noteq> header_end + 1"
    proof
      assume "line = header_end + 1"
      then have "drop (header_end + 1) buffer = LF # CR # LF # drop (header_end + 4) buffer"
         "drop (line - 2) buffer = CR # LF # LF # CR # LF # drop (header_end + 4) buffer"
        using he2 drop_eq_ConsD(3) [OF he2] prev by simp_all
      then have "drop (line - 1) buffer = LF # LF # CR # LF # drop (header_end + 4) buffer"
        using drop_eq_ConsD(3) less.prems(3) by (metis Suc_1 Suc_diff_Suc Suc_le_lessD diff_Suc_1 eval_nat_numeral(2) numeral_1_eq_Suc_0)
      then show False using he2 \<open>line = header_end + 1\<close> by simp
    qed
    ultimately have "line = header_end + 2" using False less.prems(5) by linarith
    moreover have "drop (header_end + 2) buffer = CR # LF # drop (header_end + 4) buffer"
      using drop_eq_ConsD(3) [OF drop_eq_ConsD(3) [OF he2]] by simp
    ultimately show ?thesis by (intro exI [of _ "[]"]) (simp add: CRLF_def)
  next
    case True
    obtain k where cr: "memchr (drop line buffer) CR (header_end - line + 1) = Some k"
      using less.prems(1) True by (subst (asm) parse_header_lines.simps) (auto split: option.splits)
    obtain p where p: "drop line buffer = p @ CR # drop (line + k + 1) buffer" "length p = k" "CR \<notin> set p"
      using memchr_split [OF cr] .
    have kb: "k < header_end - line + 1" using memchr_SomeD(1) [OF cr] .
    have lf: "line + k + 1 < length buffer" "buffer ! (line + k + 1) = LF"
      using less.prems(1) True cr by (subst (asm) parse_header_lines.simps, auto simp: Let_def split: if_splits)+
    have d1: "drop (line + k + 1) buffer = LF # drop (line + k + 2) buffer"
      using take_drop_nth_Cons [OF lf(1)] lf(2) by simp
    have "k \<noteq> 0" using not_crlf [of "drop (line + k + 2) buffer"] True p d1 by auto
    then obtain c where co: "memchr (drop line buffer) COLON k = Some c"
      using less.prems(1) True cr lf by (subst (asm) parse_header_lines.simps) (auto simp: Let_def split: option.splits)
    have ck: "c < k" "COLON \<notin> set (take c p)" "p ! c = COLON"
      using memchr_SomeD [OF co] p by (auto simp: nth_append)
    define n v where "n = take c p" and "v = drop (Suc c) p"
    have pe: "p = n @ COLON # v" using id_take_nth_drop [of c p] ck(1,3) p(2) by (simp add: n_def v_def)
    have ok: "raw_header_ok (n, v)" using ck(2) p(3)
      by (auto simp: raw_header_ok_def n_def v_def dest: in_set_takeD in_set_dropD)
    have step: "\<exists>u2 fl2. parse_header_lines lib supported buffer header_end (line + k + 2) u2 fl2 = (u', Some fl')"
      using less.prems(1) True cr lf co \<open>k \<noteq> 0\<close>
      by (subst (asm) parse_header_lines.simps) (auto simp: Let_def split: prod.splits option.splits)
    then obtain u2 fl2 where s: "parse_header_lines lib supported buffer header_end (line + k + 2) u2 fl2 = (u', Some fl')"
      by blast
    have t: "take 2 (drop (line + k + 2 - 2) buffer) = CRLF"
    proof -
      have "drop (line + k) buffer = drop k (drop line buffer)" by (simp add: add.commute)
      also have "\<dots> = CR # LF # drop (line + k + 2) buffer" using p d1 by simp
      finally show ?thesis by (simp add: CRLF_def)
    qed
    have a: "header_end - (line + k + 2) < header_end - line" using True by linarith
    have b: "2 \<le> line + k + 2" "line + k + 2 \<le> header_end + 2" using kb True by linarith+
    obtain hs where hs: "\<forall>h\<in>set hs. raw_header_ok h"
      "drop (line + k + 2) buffer = header_text hs @ CRLF @ drop (header_end + 4) buffer"
      "line + k + 2 + length (header_text hs) = header_end + 2"
      using less.hyps [OF a s less.prems(2) b(1) t b(2)] by blast
    have hl: "header_line (n, v) = p" by (simp add: header_line_def pe)
    have "drop line buffer = text_line p @ drop (line + k + 2) buffer"
      by (subst p(1)) (simp only: text_line_def CRLF_def d1 append_assoc append.simps)
    then have "drop line buffer = header_text ((n, v) # hs) @ CRLF @ drop (header_end + 4) buffer"
      by (simp only: hs(2) hl list.map concat.simps append_assoc)
    moreover have "line + length (header_text ((n, v) # hs)) = header_end + 2"
      using hs(3) p(2) by (simp add: hl)
    ultimately show ?thesis using hs(1) ok by (intro exI [of _ "(n, v) # hs"]) (simp del: concat.simps)
  qed
qed


subsection \<open>What the headers of a request decide\<close>

definition values_of :: "string \<Rightarrow> websocket_http_header list \<Rightarrow> bytes list" where
  [ws_eval]: "values_of name hs = map snd (filter (\<lambda>h. websocket_http_equals_ci (fst h) (lit name)) hs)"

text \<open>The key and the protocol headers decide whether the request is rejected at once.\<close>

definition key_headers_ok :: "php_lib \<Rightarrow> bytes option \<Rightarrow> bytes list \<Rightarrow> bool" where
  [ws_eval]: "key_headers_ok lib accept keys =
    (case keys of [] \<Rightarrow> True
     | [k] \<Rightarrow> accept = None \<and> websocket_http_validate_key lib k \<noteq> None
     | _ \<Rightarrow> False)"

definition protocol_headers_ok :: "bytes list \<Rightarrow> bool" where
  [ws_eval]: "protocol_headers_ok vs =
    list_all (\<lambda>v. list_all websocket_http_validate_subprotocol_token (field_tokens v)) vs"

text \<open>The growth of the header array: 8 entries, then doubled.\<close>

fun header_capacity_after :: "nat \<Rightarrow> nat" where
  "header_capacity_after 0 = 0"
| "header_capacity_after (Suc n) =
    (if n = header_capacity_after n then (if n \<noteq> 0 then n * 2 else 8) else header_capacity_after n)"

lemma header_capacity_after_ge: "n \<le> header_capacity_after n"
  by (induction n) auto

definition last_or :: "'a \<Rightarrow> ('b \<Rightarrow> 'a) \<Rightarrow> 'b list \<Rightarrow> 'a" where
  [ws_eval]: "last_or d f xs = (if xs = [] then d else f (last xs))"

lemma last_or_simps [simp]: "last_or d f [] = d" "last_or d f (x # xs) = last_or (f x) f xs"
  by (simp_all add: last_or_def)

definition upgraded_with ::
    "php_lib \<Rightarrow> bytes list option \<Rightarrow> websocket_http_header list \<Rightarrow> websocket_http_upgrade \<Rightarrow> websocket_http_upgrade" where
  [ws_eval]: "upgraded_with lib supported hs u = u\<lparr>
     up_headers := up_headers u @ hs,
     up_header_capacity := header_capacity_after (length (up_headers u @ hs)),
     up_accept_key := (case values_of ''Sec-WebSocket-Key'' hs of
        [] \<Rightarrow> up_accept_key u | k # _ \<Rightarrow> websocket_http_validate_key lib k),
     up_selected_subprotocol := pick_subprotocol supported
        (concat (map field_tokens (values_of ''Sec-WebSocket-Protocol'' hs))) (up_selected_subprotocol u)\<rparr>"

definition flags_with :: "websocket_http_header list \<Rightarrow> upgrade_flags \<Rightarrow> upgrade_flags" where
  [ws_eval]: "flags_with hs fl =
    \<lparr>has_upgrade = last_or (has_upgrade fl) (\<lambda>v. websocket_http_header_contains_token v (lit ''websocket''))
        (values_of ''Upgrade'' hs),
     has_connection = last_or (has_connection fl) (\<lambda>v. websocket_http_header_contains_token v (lit ''upgrade''))
        (values_of ''Connection'' hs),
     has_version = last_or (has_version fl) (\<lambda>v. websocket_http_equals_ci v (lit ''13''))
        (values_of ''Sec-WebSocket-Version'' hs)\<rparr>"

lemma header_names:
  "websocket_http_equals_ci n (lit ''Upgrade'') \<longleftrightarrow> map to_lower n = lit ''upgrade''"
  "websocket_http_equals_ci n (lit ''Connection'') \<longleftrightarrow> map to_lower n = lit ''connection''"
  "websocket_http_equals_ci n (lit ''Sec-WebSocket-Version'') \<longleftrightarrow> map to_lower n = lit ''sec-websocket-version''"
  "websocket_http_equals_ci n (lit ''Sec-WebSocket-Key'') \<longleftrightarrow> map to_lower n = lit ''sec-websocket-key''"
  "websocket_http_equals_ci n (lit ''Sec-WebSocket-Protocol'') \<longleftrightarrow> map to_lower n = lit ''sec-websocket-protocol''"
proof -
  have nz: "0 \<notin> set (lit ''Upgrade'')" "0 \<notin> set (lit ''Connection'')" "0 \<notin> set (lit ''Sec-WebSocket-Version'')"
     "0 \<notin> set (lit ''Sec-WebSocket-Key'')" "0 \<notin> set (lit ''Sec-WebSocket-Protocol'')"
    by (simp_all add: lit_def of_char_def)
  have low: "map to_lower (lit ''Upgrade'') = lit ''upgrade''" "map to_lower (lit ''Connection'') = lit ''connection''"
     "map to_lower (lit ''Sec-WebSocket-Version'') = lit ''sec-websocket-version''"
     "map to_lower (lit ''Sec-WebSocket-Key'') = lit ''sec-websocket-key''"
     "map to_lower (lit ''Sec-WebSocket-Protocol'') = lit ''sec-websocket-protocol''"
    by (simp_all add: lit_def of_char_def to_lower_def)
  show "websocket_http_equals_ci n (lit ''Upgrade'') \<longleftrightarrow> map to_lower n = lit ''upgrade''"
    "websocket_http_equals_ci n (lit ''Connection'') \<longleftrightarrow> map to_lower n = lit ''connection''"
    "websocket_http_equals_ci n (lit ''Sec-WebSocket-Version'') \<longleftrightarrow> map to_lower n = lit ''sec-websocket-version''"
    "websocket_http_equals_ci n (lit ''Sec-WebSocket-Key'') \<longleftrightarrow> map to_lower n = lit ''sec-websocket-key''"
    "websocket_http_equals_ci n (lit ''Sec-WebSocket-Protocol'') \<longleftrightarrow> map to_lower n = lit ''sec-websocket-protocol''"
    by (simp_all only: nz low equals_ci_iff simp_thms)
qed

lemma length_lit [simp]: "length (lit s) = length s"
  by (simp add: lit_def)

lemma header_names_distinct:
  "lit ''connection'' \<noteq> lit ''upgrade''" "lit ''sec-websocket-version'' \<noteq> lit ''upgrade''"
  "lit ''sec-websocket-key'' \<noteq> lit ''upgrade''" "lit ''sec-websocket-protocol'' \<noteq> lit ''upgrade''"
  "lit ''sec-websocket-version'' \<noteq> lit ''connection''" "lit ''sec-websocket-key'' \<noteq> lit ''connection''"
  "lit ''sec-websocket-protocol'' \<noteq> lit ''connection''"
  "lit ''sec-websocket-key'' \<noteq> lit ''sec-websocket-version''" "lit ''sec-websocket-protocol'' \<noteq> lit ''sec-websocket-version''"
  "lit ''sec-websocket-protocol'' \<noteq> lit ''sec-websocket-key''"
  by (auto dest: arg_cong [of _ _ length])

lemmas header_name_facts = header_names header_names_distinct header_names_distinct [symmetric]

lemma values_of_Nil [simp]: "values_of name [] = []" by (simp add: values_of_def)

lemma values_of_Cons:
  "values_of name (h # hs) =
    (if websocket_http_equals_ci (fst h) (lit name) then snd h # values_of name hs else values_of name hs)"
  by (simp add: values_of_def)

text \<open>One header.\<close>

lemma upgrade_header_step:
  assumes "up_header_capacity u = header_capacity_after (length (up_headers u))"
  shows "upgrade_header lib supported (fst h) (snd h) (websocket_http_append_header u (fst h) (snd h)) fl = (u1, Some fl1)
    \<longleftrightarrow> key_headers_ok lib (up_accept_key u) (values_of ''Sec-WebSocket-Key'' [h])
      \<and> protocol_headers_ok (values_of ''Sec-WebSocket-Protocol'' [h])
      \<and> u1 = upgraded_with lib supported [h] u \<and> fl1 = flags_with [h] fl"
proof -
  have app: "websocket_http_append_header u (fst h) (snd h) =
      u\<lparr>up_headers := up_headers u @ [h], up_header_capacity := header_capacity_after (Suc (length (up_headers u)))\<rparr>"
    using assms by (simp add: websocket_http_append_header_def Let_def)
  obtain ok sel where sel: "websocket_http_select_subprotocol (snd h) supported (up_selected_subprotocol u) = (ok, sel)"
    by fastforce
  note s = select_subprotocol_eq [OF sel]
  note def = upgrade_header_def values_of_Cons header_name_facts upgraded_with_def flags_with_def
    key_headers_ok_def protocol_headers_ok_def app
  consider "map to_lower (fst h) = lit ''upgrade''" | "map to_lower (fst h) = lit ''connection''"
    | "map to_lower (fst h) = lit ''sec-websocket-version''" | "map to_lower (fst h) = lit ''sec-websocket-key''"
    | "map to_lower (fst h) = lit ''sec-websocket-protocol''"
    | "map to_lower (fst h) \<notin> {lit ''upgrade'', lit ''connection'', lit ''sec-websocket-version'',
         lit ''sec-websocket-key'', lit ''sec-websocket-protocol''}"
    by blast
  then show ?thesis
  proof cases
    case 4
    then show ?thesis by (auto simp: def split: option.splits)
  next
    case 5
    then show ?thesis using s by (auto simp: def sel)
  qed (auto simp: def)
qed


lemma key_headers_ok_Some [simp]: "key_headers_ok lib (Some a) ks \<longleftrightarrow> ks = []"
  by (auto simp: key_headers_ok_def split: list.splits)

lemma upgraded_with_Cons:
  assumes "key_headers_ok lib (up_accept_key u) (values_of ''Sec-WebSocket-Key'' [h])"
    "key_headers_ok lib (up_accept_key (upgraded_with lib supported [h] u)) (values_of ''Sec-WebSocket-Key'' hs)"
  shows "upgraded_with lib supported hs (upgraded_with lib supported [h] u) = upgraded_with lib supported (h # hs) u"
    "key_headers_ok lib (up_accept_key u) (values_of ''Sec-WebSocket-Key'' (h # hs))"
proof -
  have s: "values_of ''Sec-WebSocket-Key'' (h # hs) =
       values_of ''Sec-WebSocket-Key'' [h] @ values_of ''Sec-WebSocket-Key'' hs"
     "values_of ''Sec-WebSocket-Protocol'' (h # hs) =
       values_of ''Sec-WebSocket-Protocol'' [h] @ values_of ''Sec-WebSocket-Protocol'' hs"
    by (simp_all add: values_of_Cons)
  show "upgraded_with lib supported hs (upgraded_with lib supported [h] u) = upgraded_with lib supported (h # hs) u"
    "key_headers_ok lib (up_accept_key u) (values_of ''Sec-WebSocket-Key'' (h # hs))"
    using assms unfolding s upgraded_with_def
    by (auto simp: key_headers_ok_def values_of_Cons [of _ h "[]"] split: list.splits)
qed

lemma key_headers_ok_Cons:
  "key_headers_ok lib (up_accept_key u) (values_of ''Sec-WebSocket-Key'' (h # hs)) \<longleftrightarrow>
     key_headers_ok lib (up_accept_key u) (values_of ''Sec-WebSocket-Key'' [h])
   \<and> key_headers_ok lib (up_accept_key (upgraded_with lib supported [h] u)) (values_of ''Sec-WebSocket-Key'' hs)"
  by (cases "websocket_http_equals_ci (fst h) (lit ''Sec-WebSocket-Key'')"; cases "up_accept_key u")
     (auto simp: key_headers_ok_def values_of_Cons upgraded_with_def split: list.splits)

lemma flags_with_Cons: "flags_with hs (flags_with [h] fl) = flags_with (h # hs) fl"
  by (simp add: flags_with_def values_of_Cons)

lemma protocol_headers_ok_Cons:
  "protocol_headers_ok (values_of name (h # hs)) \<longleftrightarrow>
     protocol_headers_ok (values_of name [h]) \<and> protocol_headers_ok (values_of name hs)"
  by (auto simp: protocol_headers_ok_def values_of_Cons)

lemma upgrade_headers_iff:
  assumes "up_header_capacity u = header_capacity_after (length (up_headers u))"
  shows "upgrade_headers lib supported hs u fl = (u', Some fl') \<longleftrightarrow>
      key_headers_ok lib (up_accept_key u) (values_of ''Sec-WebSocket-Key'' hs)
    \<and> protocol_headers_ok (values_of ''Sec-WebSocket-Protocol'' hs)
    \<and> u' = upgraded_with lib supported hs u \<and> fl' = flags_with hs fl"
  using assms
proof (induction hs arbitrary: u fl)
  case Nil
  then have "upgraded_with lib supported [] u = u" "flags_with [] fl = fl"
    by (simp_all add: upgraded_with_def flags_with_def)
  then show ?case by (auto simp: key_headers_ok_def protocol_headers_ok_def)
next
  case (Cons h hs)
  let ?u1 = "upgraded_with lib supported [h] u" and ?fl1 = "flags_with [h] fl"
  have cap: "up_header_capacity ?u1 = header_capacity_after (length (up_headers ?u1))"
    by (simp add: upgraded_with_def)
  note st = upgrade_header_step [OF Cons.prems, of lib supported h fl]
  let ?ok = "key_headers_ok lib (up_accept_key u) (values_of ''Sec-WebSocket-Key'' [h])
      \<and> protocol_headers_ok (values_of ''Sec-WebSocket-Protocol'' [h])"
  obtain u2 r where r: "upgrade_header lib supported (fst h) (snd h) (websocket_http_append_header u (fst h) (snd h)) fl = (u2, r)"
    by fastforce
  show ?case
  proof (cases ?ok)
    case True
    then have "u2 = ?u1" "r = Some ?fl1" using st r by (metis Pair_inject)+
    then have "upgrade_headers lib supported (h # hs) u fl = upgrade_headers lib supported hs ?u1 ?fl1"
      using r by simp
    then show ?thesis
      using Cons.IH [OF cap, of ?fl1] True upgraded_with_Cons(1) [of lib u h supported hs]
      unfolding key_headers_ok_Cons [of lib u h hs supported] protocol_headers_ok_Cons [of _ h hs] flags_with_Cons
      by auto
  next
    case False
    then have "r = None" using st r by (cases r) auto
    then show ?thesis
      using r False
      unfolding key_headers_ok_Cons [of lib u h hs supported] protocol_headers_ok_Cons [of _ h hs] by auto
  qed
qed

subsection \<open>The request line\<close>

definition request_line :: "bytes \<Rightarrow> bytes \<Rightarrow> bytes \<Rightarrow> bytes" where
  [ws_eval]: "request_line verb target version = verb @ [SPACE] @ target @ [SPACE] @ version"

definition request_line_ok :: "bytes \<Rightarrow> bytes \<Rightarrow> bytes \<Rightarrow> bool" where
  [ws_eval]: "request_line_ok verb target version \<longleftrightarrow>
     websocket_http_equals_ci verb (lit ''GET'') \<and> target \<noteq> [] \<and> SPACE \<notin> set target \<and> CR \<notin> set target
   \<and> websocket_http_equals_ci version (lit ''HTTP/1.1'')"

lemma ci_no_byte:
  assumes "websocket_http_equals_ci v (lit e)" "0 \<notin> set (lit e)" "to_lower c \<notin> set (map to_lower (lit e))"
  shows "c \<notin> set v"
proof
  assume "c \<in> set v"
  then have "to_lower c \<in> set (map to_lower v)" by simp
  moreover have "map to_lower v = map to_lower (lit e)" using assms(1,2) equals_ci_iff by blast
  ultimately show False using assms(3) by (simp only:)
qed

lemma request_line_bytes:
  "websocket_http_equals_ci v (lit ''GET'') \<Longrightarrow> SPACE \<notin> set v \<and> CR \<notin> set v"
  "websocket_http_equals_ci v (lit ''HTTP/1.1'') \<Longrightarrow> CR \<notin> set v"
  using ci_no_byte [of v "''GET''" SPACE] ci_no_byte [of v "''GET''" CR] ci_no_byte [of v "''HTTP/1.1''" CR]
  by (simp_all add: lit_def of_char_def to_lower_def)

lemma memchr_eq_Some_iff:
  "memchr xs c (length xs) = Some k \<longleftrightarrow> (\<exists>p s. xs = p @ c # s \<and> length p = k \<and> c \<notin> set p)"
proof
  assume "memchr xs c (length xs) = Some k"
  then show "\<exists>p s. xs = p @ c # s \<and> length p = k \<and> c \<notin> set p"
    using memchr_split [of 0 xs c "length xs" k] by (metis drop_0)
next
  assume "\<exists>p s. xs = p @ c # s \<and> length p = k \<and> c \<notin> set p"
  then show "memchr xs c (length xs) = Some k" by (auto simp: memchr_hit)
qed

lemma parse_request_line_iff:
  assumes "CR \<notin> set line"
  shows "websocket_http_parse_request_line line u = (True, u') \<longleftrightarrow>
    (\<exists>verb target version. line = request_line verb target version
       \<and> request_line_ok verb target version \<and> u' = u\<lparr>up_method := verb, up_target := target\<rparr>)"
proof
  assume a: "websocket_http_parse_request_line line u = (True, u')"
  then obtain m where m: "memchr line SPACE (length line) = Some m"
    by (auto simp: websocket_http_parse_request_line_def split: option.splits)
  then obtain verb r where r: "line = verb @ SPACE # r" "length verb = m"
    unfolding memchr_eq_Some_iff by blast
  have nr: "length line - m - 1 = length r" "drop (m + 1) line = r" using r by simp_all
  obtain t where t: "memchr r SPACE (length r) = Some t"
    using a m nr by (auto simp: websocket_http_parse_request_line_def Let_def split: option.splits if_splits)
  then obtain target version where v: "r = target @ SPACE # version" "length target = t" "SPACE \<notin> set target"
    unfolding memchr_eq_Some_iff by blast
  show "\<exists>verb target version. line = request_line verb target version
       \<and> request_line_ok verb target version \<and> u' = u\<lparr>up_method := verb, up_target := target\<rparr>"
    using a m nr t r v assms
    by (intro exI [of _ verb] exI [of _ target] exI [of _ version])
       (auto simp: websocket_http_parse_request_line_def request_line_def request_line_ok_def Let_def split: if_splits)
next
  assume "\<exists>verb target version. line = request_line verb target version
       \<and> request_line_ok verb target version \<and> u' = u\<lparr>up_method := verb, up_target := target\<rparr>"
  then obtain verb target version where l: "line = verb @ SPACE # target @ SPACE # version"
    and ok: "request_line_ok verb target version" and u': "u' = u\<lparr>up_method := verb, up_target := target\<rparr>"
    by (auto simp: request_line_def)
  have "SPACE \<notin> set verb" using ok request_line_bytes by (simp add: request_line_ok_def)
  then have "memchr line SPACE (length line) = Some (length verb)" by (simp add: l memchr_hit)
  moreover have "memchr (target @ SPACE # version) SPACE (length (target @ SPACE # version)) = Some (length target)"
    using ok by (intro memchr_hit) (simp_all add: request_line_ok_def)
  ultimately show "websocket_http_parse_request_line line u = (True, u')"
    using ok by (simp add: websocket_http_parse_request_line_def l u' request_line_ok_def)
qed


subsection \<open>The requests that are accepted\<close>

definition request_text :: "bytes \<Rightarrow> bytes \<Rightarrow> bytes \<Rightarrow> (bytes \<times> bytes) list \<Rightarrow> bytes" where
  [ws_eval]: "request_text verb target version hs =
    text_line (request_line verb target version) @ concat (map (\<lambda>h. text_line (header_line h)) hs) @ CRLF"

definition handshake_ok :: "php_lib \<Rightarrow> websocket_http_header list \<Rightarrow> bool" where
  [ws_eval]: "handshake_ok lib hs \<longleftrightarrow>
     last_or False (\<lambda>v. websocket_http_header_contains_token v (lit ''websocket'')) (values_of ''Upgrade'' hs)
   \<and> last_or False (\<lambda>v. websocket_http_header_contains_token v (lit ''upgrade'')) (values_of ''Connection'' hs)
   \<and> last_or False (\<lambda>v. websocket_http_equals_ci v (lit ''13'')) (values_of ''Sec-WebSocket-Version'' hs)
   \<and> length (values_of ''Sec-WebSocket-Key'' hs) = 1
   \<and> websocket_http_validate_key lib (hd (values_of ''Sec-WebSocket-Key'' hs)) \<noteq> None
   \<and> protocol_headers_ok (values_of ''Sec-WebSocket-Protocol'' hs)"

definition accepted_upgrade ::
    "php_lib \<Rightarrow> bytes list option \<Rightarrow> bytes \<Rightarrow> bytes \<Rightarrow> bytes \<Rightarrow> (bytes \<times> bytes) list \<Rightarrow> websocket_http_upgrade" where
  [ws_eval]: "accepted_upgrade lib supported verb target version hs =
    \<lparr>up_method = verb, up_target = target, up_headers = map trimmed hs,
     up_header_capacity = header_capacity_after (length hs),
     up_accept_key = websocket_http_validate_key lib (hd (values_of ''Sec-WebSocket-Key'' (map trimmed hs))),
     up_selected_subprotocol = pick_subprotocol supported
       (concat (map field_tokens (values_of ''Sec-WebSocket-Protocol'' (map trimmed hs)))) None,
     up_bytes_consumed = length (request_text verb target version hs)\<rparr>"

text \<open>The parse behind the end of the header, in terms of the header list.\<close>

definition parsed_headers ::
    "php_lib \<Rightarrow> bytes list option \<Rightarrow> (bytes \<times> bytes) list \<Rightarrow> websocket_http_upgrade
      \<Rightarrow> websocket_http_upgrade_result \<times> websocket_http_upgrade" where
  "parsed_headers lib supported hs u =
    (case upgrade_headers lib supported (map trimmed hs) u
            \<lparr>has_upgrade = False, has_connection = False, has_version = False\<rparr> of
       (u, None) \<Rightarrow> (UpgradeInvalid, u)
     | (u, Some fl) \<Rightarrow>
         if \<not> has_upgrade fl \<or> \<not> has_connection fl \<or> \<not> has_version fl \<or> up_accept_key u = None
         then (UpgradeInvalid, u) else (UpgradeOk, u))"

lemma parsed_headers_Ok_iff:
  assumes "u = websocket_http_upgrade_init\<lparr>up_bytes_consumed := length (request_text verb target version hs),
      up_method := verb, up_target := target\<rparr>"
  shows "parsed_headers lib supported hs u = (UpgradeOk, u') \<longleftrightarrow>
     handshake_ok lib (map trimmed hs) \<and> u' = accepted_upgrade lib supported verb target version hs"
proof -
  let ?hs = "map trimmed hs" and ?fl = "\<lparr>has_upgrade = False, has_connection = False, has_version = False\<rparr>"
  have cap: "up_header_capacity u = header_capacity_after (length (up_headers u))"
    by (simp add: assms websocket_http_upgrade_init_def)
  note iff = upgrade_headers_iff [OF cap, of lib supported ?hs ?fl]
  have u: "up_accept_key u = None" by (simp add: assms websocket_http_upgrade_init_def)
  have one: "length ks = 1 \<and> websocket_http_validate_key lib (hd ks) \<noteq> None \<longleftrightarrow>
      key_headers_ok lib None ks \<and> (case ks of [] \<Rightarrow> None | k # _ \<Rightarrow> websocket_http_validate_key lib k) \<noteq> None" for ks
    by (auto simp: key_headers_ok_def length_Suc_conv split: list.splits)
  have acc: "upgraded_with lib supported ?hs u = accepted_upgrade lib supported verb target version hs"
    if "handshake_ok lib ?hs"
    using that by (auto simp: upgraded_with_def accepted_upgrade_def assms websocket_http_upgrade_init_def
        handshake_ok_def length_Suc_conv)
  have "parsed_headers lib supported hs u = (UpgradeOk, u') \<longleftrightarrow>
      (\<exists>fl. upgrade_headers lib supported ?hs u ?fl = (u', Some fl)
        \<and> has_upgrade fl \<and> has_connection fl \<and> has_version fl \<and> up_accept_key u' \<noteq> None)"
    by (auto simp: parsed_headers_def split: prod.split option.split)
  also have "\<dots> \<longleftrightarrow> handshake_ok lib ?hs \<and> u' = upgraded_with lib supported ?hs u"
  proof -
    have fl: "has_upgrade (flags_with ?hs ?fl) = last_or False (\<lambda>v. websocket_http_header_contains_token v (lit ''websocket'')) (values_of ''Upgrade'' ?hs)"
      "has_connection (flags_with ?hs ?fl) = last_or False (\<lambda>v. websocket_http_header_contains_token v (lit ''upgrade'')) (values_of ''Connection'' ?hs)"
      "has_version (flags_with ?hs ?fl) = last_or False (\<lambda>v. websocket_http_equals_ci v (lit ''13'')) (values_of ''Sec-WebSocket-Version'' ?hs)"
      by (simp_all add: flags_with_def)
    have ua: "up_accept_key (upgraded_with lib supported ?hs u) =
        (case values_of ''Sec-WebSocket-Key'' ?hs of [] \<Rightarrow> None | k # _ \<Rightarrow> websocket_http_validate_key lib k)"
      using u by (simp add: upgraded_with_def split: list.split)
    show ?thesis
      unfolding iff handshake_ok_def u
      using one [of "values_of ''Sec-WebSocket-Key'' ?hs"] fl ua by metis
  qed
  also have "\<dots> \<longleftrightarrow> handshake_ok lib ?hs \<and> u' = accepted_upgrade lib supported verb target version hs"
    using acc by auto
  finally show ?thesis .
qed

lemma header_line_ok: "raw_header_ok h \<Longrightarrow> header_line h \<noteq> [] \<and> CR \<notin> set (header_line h)"
  by (auto simp: raw_header_ok_def header_line_def)

lemma request_line_clean:
  assumes "request_line_ok verb target version"
  shows "request_line verb target version \<noteq> []" "CR \<notin> set (request_line verb target version)"
  using assms request_line_bytes [of verb] request_line_bytes(2) [of version]
  by (simp_all add: request_line_ok_def request_line_def)

lemma parse_upgrade_request_text:
  assumes "request_line_ok verb target version" "\<forall>h\<in>set hs. raw_header_ok h" "hs \<noteq> []"
    and buf: "buffer = request_text verb target version hs @ rest"
    and "length buffer \<le> WEBSOCKET_HTTP_MAX_REQUEST_SIZE"
  shows "websocket_http_parse_upgrade lib buffer supported u =
    parsed_headers lib supported hs (u\<lparr>up_bytes_consumed := length (request_text verb target version hs),
      up_method := verb, up_target := target\<rparr>)"
proof -
  define rl where "rl = request_line verb target version"
  have rl: "rl \<noteq> []" "CR \<notin> set rl" using request_line_clean [OF assms(1)] by (simp_all add: rl_def)
  define lines where "lines = map header_line hs"
  have lines: "\<forall>l\<in>set (rl # lines). l \<noteq> [] \<and> CR \<notin> set l"
    using rl assms(2) header_line_ok by (auto simp: lines_def)
  have ht: "concat (map text_line lines) = header_text hs" by (simp add: lines_def comp_def)
  have b: "buffer = text_line rl @ header_text hs @ CRLF @ rest"
    by (simp add: buf request_text_def rl_def)
  define h where "h = length rl + length (header_text hs)"
  have h: "websocket_http_find_header_end buffer = Some h"
    unfolding websocket_http_find_header_end_eq b using find_header_end_lines [OF lines, of rest]
    by (simp add: ht h_def)
  have hpos: "2 \<le> length (header_text hs)" using assms(3) by (cases hs) simp_all
  have cr: "memchr buffer CR h = Some (length rl)"
  proof -
    have "length rl < h" using hpos unfolding h_def by linarith
    then show ?thesis
      unfolding b text_line_def [of rl] CRLF_def using memchr_hit [of CR rl h] rl by simp
  qed
  have lf: "length rl + 1 < length buffer" "buffer ! (length rl + 1) = LF"
    by (simp_all add: b text_line_def CRLF_def nth_append)
  have tk: "take (length rl) buffer = rl" by (simp add: b text_line_def)
  have dl: "drop (length rl + 2) buffer = header_text hs @ CRLF @ rest"
    by (simp add: b text_line_def CRLF_def)
  have cons: "h + 4 = length (request_text verb target version hs)"
    by (simp add: request_text_def h_def CRLF_def rl_def)
  let ?u = "u\<lparr>up_bytes_consumed := h + 4, up_method := verb, up_target := target\<rparr>"
  have p: "websocket_http_parse_request_line rl (u\<lparr>up_bytes_consumed := h + 4\<rparr>) = (True, ?u)"
    using assms(1) rl parse_request_line_iff [of rl "u\<lparr>up_bytes_consumed := h + 4\<rparr>" ?u] by (auto simp: rl_def)
  have ph: "parse_header_lines lib supported buffer h (length rl + 2) ?u fl
      = upgrade_headers lib supported (map trimmed hs) ?u fl" for fl
    using parse_header_lines_complete [OF dl assms(2), of h] by (simp add: h_def)
  have sz: "\<not> length buffer > WEBSOCKET_HTTP_MAX_REQUEST_SIZE" using assms(5) by simp
  have lfn: "\<not> (length rl + 1 \<ge> length buffer \<or> buffer ! (length rl + 1) \<noteq> LF)" using lf by simp
  have "websocket_http_parse_upgrade lib buffer supported u = parsed_headers lib supported hs ?u"
    unfolding websocket_http_parse_upgrade_def if_not_P [OF sz] h Let_def option.case cr tk p
      if_not_P [OF lfn] prod.case bool.case ph parsed_headers_def if_True ..
  then show ?thesis by (simp only: cons)
qed


lemma parse_upgrade_OkD:
  assumes "websocket_http_parse_upgrade lib buffer supported u = (UpgradeOk, u')"
  shows "\<exists>verb target version hs rest.
     buffer = request_text verb target version hs @ rest \<and> hs \<noteq> []
   \<and> length buffer \<le> WEBSOCKET_HTTP_MAX_REQUEST_SIZE
   \<and> request_line_ok verb target version \<and> (\<forall>h\<in>set hs. raw_header_ok h)"
proof -
  note def = websocket_http_parse_upgrade_def Let_def
  have sz: "length buffer \<le> WEBSOCKET_HTTP_MAX_REQUEST_SIZE"
    using assms by (auto simp: def split: if_splits)
  obtain h where h: "websocket_http_find_header_end buffer = Some h"
    using assms by (auto simp: def split: if_splits option.splits)
  note he = h [unfolded websocket_http_find_header_end_eq]
  obtain r where r: "memchr buffer CR h = Some r"
    using assms h by (auto simp: def split: if_splits option.splits)
  have lf: "r + 1 < length buffer" "buffer ! (r + 1) = LF"
    using assms h r by (auto simp: def split: if_splits)
  obtain u1 where u1: "websocket_http_parse_request_line (take r buffer) (u\<lparr>up_bytes_consumed := h + 4\<rparr>) = (True, u1)"
    using assms h r lf by (auto simp: def split: if_splits prod.splits bool.splits)
  obtain fl where ph: "parse_header_lines lib supported buffer h (r + 2) u1
      \<lparr>has_upgrade = False, has_connection = False, has_version = False\<rparr> = (u', Some fl)"
    using assms h r lf u1 by (auto simp: def split: if_splits prod.splits option.splits)
  have r4: "r < h" "CR \<notin> set (take r buffer)" using memchr_SomeD [OF r] by simp_all
  obtain verb target version where rl: "take r buffer = request_line verb target version"
      "request_line_ok verb target version"
    using u1 parse_request_line_iff [OF r4(2)] by blast
  have cr: "drop r buffer = CR # LF # drop (r + 2) buffer"
  proof -
    have "r < length buffer" "buffer ! r = CR" using memchr_SomeD [OF r] by simp_all
    then have "drop r buffer = CR # drop (r + 1) buffer" using take_drop_nth_Cons [of r buffer] by simp
    also have "drop (r + 1) buffer = LF # drop (r + 2) buffer" using take_drop_nth_Cons [OF lf(1)] lf(2) by simp
    finally show ?thesis .
  qed
  have b: "buffer = text_line (take r buffer) @ drop (r + 2) buffer"
  proof -
    have "buffer = take r buffer @ drop r buffer" by simp
    then show ?thesis unfolding cr text_line_def CRLF_def by simp
  qed
  have "take 2 (drop (r + 2 - 2) buffer) = CRLF" using cr by (simp add: CRLF_def)
  then obtain hs where hs: "\<forall>h\<in>set hs. raw_header_ok h"
    "drop (r + 2) buffer = header_text hs @ CRLF @ drop (h + 4) buffer" "r + 2 + length (header_text hs) = h + 2"
    using parse_header_lines_sound [OF ph he] r4 by auto
  have "hs \<noteq> []" using hs(3) r4(1) by auto
  moreover have "buffer = request_text verb target version hs @ drop (h + 4) buffer"
    using b unfolding hs(2) rl(1) request_text_def by simp
  ultimately show ?thesis using sz rl(2) hs(1) by blast
qed

text \<open>C10. The requests the handshake accepts: exactly a request line \<^verbatim>\<open>GET target HTTP/1.1\<close>, header
  lines and a blank line, within 8192 bytes, where the last \<^verbatim>\<open>Upgrade\<close>, \<^verbatim>\<open>Connection\<close> and
  \<^verbatim>\<open>Sec-WebSocket-Version\<close> headers ask for WebSocket 13, there is one \<^verbatim>\<open>Sec-WebSocket-Key\<close> of
  16 decoded bytes, and every offered subprotocol is a token. The parser then returns the
  trimmed headers in order, the accept key, the first supported subprotocol that is offered
  and the length of the request.\<close>

theorem parse_upgrade_ok_iff:
  "websocket_http_parse_upgrade lib buffer supported websocket_http_upgrade_init = (UpgradeOk, u) \<longleftrightarrow>
    (\<exists>verb target version hs rest.
       buffer = request_text verb target version hs @ rest
     \<and> length buffer \<le> WEBSOCKET_HTTP_MAX_REQUEST_SIZE
     \<and> request_line_ok verb target version \<and> list_all raw_header_ok hs
     \<and> handshake_ok lib (map trimmed hs)
     \<and> u = accepted_upgrade lib supported verb target version hs)"
  (is "?parse = _ \<longleftrightarrow> ?ok")
proof
  assume ok: "?parse = (UpgradeOk, u)"
  then obtain verb target version hs rest where c: "buffer = request_text verb target version hs @ rest"
    "hs \<noteq> []" "length buffer \<le> WEBSOCKET_HTTP_MAX_REQUEST_SIZE" "request_line_ok verb target version"
    "\<forall>h\<in>set hs. raw_header_ok h"
    using parse_upgrade_OkD by blast
  then have "handshake_ok lib (map trimmed hs) \<and> u = accepted_upgrade lib supported verb target version hs"
    using ok parse_upgrade_request_text [OF c(4,5,2,1,3)] parsed_headers_Ok_iff [OF refl] by simp
  then show ?ok using c unfolding list_all_iff by blast
next
  assume ?ok
  then obtain verb target version hs rest where c: "buffer = request_text verb target version hs @ rest"
    "length buffer \<le> WEBSOCKET_HTTP_MAX_REQUEST_SIZE" "request_line_ok verb target version"
    "\<forall>h\<in>set hs. raw_header_ok h" "handshake_ok lib (map trimmed hs)"
    "u = accepted_upgrade lib supported verb target version hs"
    by (auto simp: list_all_iff)
  have "hs \<noteq> []" using c(5) by (auto simp: handshake_ok_def)
  then show "?parse = (UpgradeOk, u)"
    using parse_upgrade_request_text [OF c(3,4) _ c(1,2)] parsed_headers_Ok_iff [OF refl] c(5,6) by simp
qed

subsection \<open>Arrival in pieces\<close>

lemma memchr_append:
  "i + n \<le> length buf \<Longrightarrow> memchr (drop i (buf @ extra)) c n = memchr (drop i buf) c n"
  by (simp add: memchr_def)

lemma take_drop_append:
  "i + n \<le> length buf \<Longrightarrow> take n (drop i (buf @ extra)) = take n (drop i buf)"
  by simp

lemma parse_header_lines_append:
  assumes "header_end + 3 < length buf"
  shows "parse_header_lines lib supported (buf @ extra) header_end line u fl =
     parse_header_lines lib supported buf header_end line u fl"
proof (induction "header_end - line" arbitrary: line u fl rule: less_induct)
  case less
  show ?case
  proof (cases "line < header_end")
    case True
    have m: "memchr (drop line (buf @ extra)) CR (header_end - line + 1) = memchr (drop line buf) CR (header_end - line + 1)"
      using assms True by (intro memchr_append) linarith
    show ?thesis
    proof (cases "memchr (drop line buf) CR (header_end - line + 1)")
      case None
      then show ?thesis using m True by (subst (1 2) parse_header_lines.simps) simp
    next
      case (Some k)
      then have k: "line + k \<le> header_end" using memchr_SomeD(1) [OF Some] True by linarith
      have i: "(line + k + 1 \<ge> length (buf @ extra) \<or> (buf @ extra) ! (line + k + 1) \<noteq> LF)
          = (line + k + 1 \<ge> length buf \<or> buf ! (line + k + 1) \<noteq> LF)"
        using k assms by (simp add: nth_append)
      have co: "memchr (drop line (buf @ extra)) COLON k = memchr (drop line buf) COLON k"
        using k assms by (intro memchr_append) linarith
      have sl: "take c (drop line (buf @ extra)) = take c (drop line buf)"
         "take (k - c - 1) (drop (line + c + 1) (buf @ extra)) = take (k - c - 1) (drop (line + c + 1) buf)"
        if "memchr (drop line buf) COLON k = Some c" for c
        using memchr_SomeD(1) [OF that] k assms by (intro take_drop_append; linarith)+
      have IH: "parse_header_lines lib supported (buf @ extra) header_end (line + k + 2) u fl =
          parse_header_lines lib supported buf header_end (line + k + 2) u fl" for u fl
        by (rule less) (use True in linarith)
      show ?thesis
      proof (cases "memchr (drop line buf) COLON k")
        case n: None
        show ?thesis
          apply (subst (1 2) parse_header_lines.simps)
          unfolding m Some option.case Let_def i co n if_P [OF True] ..
      next
        case c: (Some c)
        show ?thesis
          apply (subst (1 2) parse_header_lines.simps)
          unfolding m Some option.case Let_def i co c if_P [OF True] sl [OF c] IH ..
      qed
    qed
  next
    case False
    then show ?thesis by (subst (1 2) parse_header_lines.simps) simp
  qed
qed

lemma header_end_length: "take 4 xs = HEADER_END \<Longrightarrow> 4 \<le> length xs"
  by (drule arg_cong [where f = length]) (simp add: min_def split: if_splits)

lemma find_header_end_append:
  "find_header_end_from bs 0 = Some h \<Longrightarrow> find_header_end_from (bs @ extra) 0 = Some h"
proof (induction bs arbitrary: h)
  case (Cons b bs)
  show ?case
  proof (cases "take 4 (b # bs) = HEADER_END")
    case True
    then have "take 4 ((b # bs) @ extra) = HEADER_END"
      using header_end_length [OF True] by simp
    then show ?thesis using Cons.prems True by (simp add: find_header_end_Cons)
  next
    case False
    then obtain h' where h': "find_header_end_from bs 0 = Some h'" "h = Suc h'"
      using Cons.prems by (auto simp: find_header_end_Cons)
    have "take 4 ((b # bs) @ extra) \<noteq> HEADER_END"
    proof -
      have "take 4 (drop h' bs) = HEADER_END" using find_header_end_SomeD [OF h'(1)] by simp
      then have "4 \<le> length bs" using header_end_length by fastforce
      then show ?thesis using False by simp
    qed
    then show ?thesis using Cons.IH [OF h'(1)] h'(2) by (simp add: find_header_end_Cons)
  qed
qed simp


lemma find_header_end_prefix:
  "find_header_end_from (bs @ extra) 0 = None \<Longrightarrow> find_header_end_from bs 0 = None"
  using find_header_end_append by (metis option.exhaust)

text \<open>C30. The parser may be called after every read: an answer other than "incomplete" does not
  depend on the bytes behind the request, as long as the buffer stays within the limit; and
  every prefix of an incomplete buffer is incomplete.\<close>

theorem parse_upgrade_stable:
  assumes "length (buf @ extra) \<le> WEBSOCKET_HTTP_MAX_REQUEST_SIZE"
  shows "(fst (websocket_http_parse_upgrade lib buf supported u) \<noteq> UpgradeIncomplete \<longrightarrow>
      websocket_http_parse_upgrade lib (buf @ extra) supported u = websocket_http_parse_upgrade lib buf supported u)
    \<and> (fst (websocket_http_parse_upgrade lib (buf @ extra) supported u) = UpgradeIncomplete \<longrightarrow>
      websocket_http_parse_upgrade lib buf supported u = (UpgradeIncomplete, u))"
proof -
  have sz: "\<not> length buf > WEBSOCKET_HTTP_MAX_REQUEST_SIZE"
    "\<not> length (buf @ extra) > WEBSOCKET_HTTP_MAX_REQUEST_SIZE"
    using assms by auto
  show ?thesis
  proof (cases "websocket_http_find_header_end buf")
    case None
    then have "websocket_http_parse_upgrade lib buf supported u = (UpgradeIncomplete, u)"
      unfolding websocket_http_parse_upgrade_def using sz by simp
    then show ?thesis by simp
  next
    case (Some h)
    then have h: "websocket_http_find_header_end (buf @ extra) = Some h"
      unfolding websocket_http_find_header_end_eq by (rule find_header_end_append)
    have l: "h + 3 < length buf"
      using find_header_end_SomeD [OF Some [unfolded websocket_http_find_header_end_eq]] header_end_length [of "drop h buf"]
      by simp
    have m: "memchr (buf @ extra) CR h = memchr buf CR h" using memchr_append [of 0 h buf extra CR] l by simp
    have "websocket_http_parse_upgrade lib (buf @ extra) supported u = websocket_http_parse_upgrade lib buf supported u"
    proof (cases "memchr buf CR h")
      case n: None
      show ?thesis
        unfolding websocket_http_parse_upgrade_def if_not_P [OF sz(1)] if_not_P [OF sz(2)] Some h m n Let_def
          option.case ..
    next
      case r: (Some r)
      then have "r < h" using memchr_SomeD(1) by blast
      then have i: "(r + 1 \<ge> length (buf @ extra) \<or> (buf @ extra) ! (r + 1) \<noteq> LF) = (r + 1 \<ge> length buf \<or> buf ! (r + 1) \<noteq> LF)"
        "take r (buf @ extra) = take r buf"
        using l by (simp_all add: nth_append)
      show ?thesis
        unfolding websocket_http_parse_upgrade_def if_not_P [OF sz(1)] if_not_P [OF sz(2)] Some h m r Let_def
          option.case i parse_header_lines_append [OF l] ..
    qed
    moreover have "fst (websocket_http_parse_upgrade lib buf supported u) \<noteq> UpgradeIncomplete"
      unfolding websocket_http_parse_upgrade_def if_not_P [OF sz(1)] Some
      by (auto simp: Let_def split: option.split prod.split bool.split)
    ultimately show ?thesis by simp
  qed
qed

theorem parse_upgrade_stable_witness:
  "fst (websocket_http_parse_upgrade \<lparr>lib_sha1 = id, lib_base64_encode = id, lib_base64_decode = Some\<rparr>
      [88, 13, 10, 13, 10] None websocket_http_upgrade_init) = UpgradeInvalid
   \<and> websocket_http_parse_upgrade \<lparr>lib_sha1 = id, lib_base64_encode = id, lib_base64_decode = Some\<rparr>
      ([88, 13, 10, 13, 10] @ [1, 2]) None websocket_http_upgrade_init
     = websocket_http_parse_upgrade \<lparr>lib_sha1 = id, lib_base64_encode = id, lib_base64_decode = Some\<rparr>
      [88, 13, 10, 13, 10] None websocket_http_upgrade_init"
proof -
  let ?lib = "\<lparr>lib_sha1 = id, lib_base64_encode = id, lib_base64_decode = Some\<rparr>"
  have l: "length ([88, 13, 10, 13, 10] @ [1, 2 :: byte]) \<le> WEBSOCKET_HTTP_MAX_REQUEST_SIZE"
    by (simp add: WEBSOCKET_HTTP_MAX_REQUEST_SIZE_def)
  have r: "fst (websocket_http_parse_upgrade ?lib [88, 13, 10, 13, 10] None websocket_http_upgrade_init) = UpgradeInvalid"
    by code_simp
  then have "fst (websocket_http_parse_upgrade ?lib [88, 13, 10, 13, 10] None websocket_http_upgrade_init) \<noteq> UpgradeIncomplete"
    by simp
  with r parse_upgrade_stable [OF l] show ?thesis by blast
qed

subsection \<open>The request headers as PHP sees them\<close>

lemma map_of_hash_update [simp]: "map_of (hash_update k v ps) = (map_of ps)(k \<mapsto> v)"
  by (induction ps) (auto simp: fun_eq_iff)

lemma keys_hash_update: "map fst (hash_update k v ps) = (if k \<in> set (map fst ps) then map fst ps else map fst ps @ [k])"
  by (induction ps) auto

fun join_values :: "bytes list \<Rightarrow> bytes option" where
  "join_values [] = None"
| "join_values (v # vs) = Some (if vs = [] then v else foldl (\<lambda>a b. a @ lit '', '' @ c_string b) (c_string v) vs)"

lemma join_values_snoc:
  "join_values (vs @ [v]) = (case join_values vs of None \<Rightarrow> Some v
     | Some a \<Rightarrow> Some (c_string a @ lit '', '' @ c_string v))"
proof (cases vs)
  case (Cons w ws)
  have nz: "0 \<notin> set (lit '', '')" by (simp add: lit_def of_char_def)
  have c: "0 \<notin> set a \<Longrightarrow> c_string a = a" for a by (induction a) (auto simp: c_string_def)
  have z: "0 \<notin> set (c_string a)" for a by (auto simp: c_string_def dest: set_takeWhileD)
  have f: "0 \<notin> set a \<Longrightarrow> 0 \<notin> set (foldl (\<lambda>a b. a @ lit '', '' @ c_string b) a ws)" for a
    by (induction ws arbitrary: a) (simp_all add: z nz)
  show ?thesis
    by (cases "ws = []") (simp_all add: Cons c [OF f [OF z]])
qed simp

text \<open>C32. \<^verbatim>\<open>Request::headers()\<close>: one entry per header name, in lower case and in the order of
  first appearance. A header that appears once keeps its value; a header that appears again
  has its values joined by a comma and a blank, each cut at its first NUL byte.\<close>

theorem request_headers_lookup:
  "map_of (websocket_http_upgrade_request_headers u) name =
     join_values (map snd (filter (\<lambda>h. websocket_http_lower_header_name (fst h) = name) (up_headers u)))
   \<and> map fst (websocket_http_upgrade_request_headers u) =
     rev (remdups (rev (map (\<lambda>h. websocket_http_lower_header_name (fst h)) (up_headers u))))"
proof -
  have "map_of (foldl add_request_header [] hs) name =
     join_values (map snd (filter (\<lambda>h. websocket_http_lower_header_name (fst h) = name) hs))
   \<and> map fst (foldl add_request_header [] hs) =
     rev (remdups (rev (map (\<lambda>h. websocket_http_lower_header_name (fst h)) hs)))" for hs
  proof (induction hs arbitrary: name rule: rev_induct)
    case (snoc h hs)
    let ?n = "websocket_http_lower_header_name (fst h)"
    let ?m = "foldl add_request_header [] hs"
    have dom: "?n \<in> set (map fst ?m) \<longleftrightarrow> map_of ?m ?n \<noteq> None" by (simp add: map_of_eq_None_iff)
    define v where "v = (case map_of ?m ?n of Some e \<Rightarrow> c_string e @ lit '', '' @ c_string (snd h) | None \<Rightarrow> snd h)"
    have st: "foldl add_request_header [] (hs @ [h]) = hash_update ?n v ?m"
      by (simp add: add_request_header_def [of _ h] Let_def v_def split: option.split)
    have v: "Some v = join_values (map snd (filter (\<lambda>h. websocket_http_lower_header_name (fst h) = ?n) hs) @ [snd h])"
      unfolding join_values_snoc conjunct1 [OF snoc [of ?n], symmetric] v_def by (simp split: option.split)
    have mem: "?n \<in> set (map fst ?m) \<longleftrightarrow> ?n \<in> (\<lambda>h. websocket_http_lower_header_name (fst h)) ` set hs"
      by (simp only: conjunct2 [OF snoc [of name]] set_rev set_remdups set_map)
    show ?case
      unfolding st map_of_hash_update keys_hash_update mem
      using snoc [of name] v by (auto simp del: join_values.simps)
  qed simp
  then show ?thesis by (simp add: websocket_http_upgrade_request_headers_def)
qed

end
