(* ===== verification/Ws_Driver.thy ===== *)
theory Ws_Driver
  imports Ws_Prelude "HOL-Library.Signed_Division"
begin

text \<open>
  The I/O drivers (\<^verbatim>\<open>drivers/select.c\<close>, \<^verbatim>\<open>drivers/poll.c\<close>) and the function table
  \<^verbatim>\<open>websocket_driver\<close> through which the server uses them.

  A driver operation maps the driver's state and \<^verbatim>\<open>errno\<close> to its result, the new state and the
  new \<^verbatim>\<open>errno\<close>. The system calls \<^verbatim>\<open>select(2)\<close> and \<^verbatim>\<open>poll(2)\<close> are parameters: functions on a
  kernel state of any type, which is a field of the driver's state.
\<close>

subsection \<open>The function table\<close>

record 'd websocket_driver =
  driver_name :: string
  driver_init :: "'d \<times> errno \<Rightarrow> bool \<times> 'd \<times> errno"
  driver_shutdown :: "'d \<times> errno \<Rightarrow> 'd \<times> errno"
  driver_watch_read :: "int \<Rightarrow> 'd \<times> errno \<Rightarrow> bool \<times> 'd \<times> errno"
  driver_watch_write :: "int \<Rightarrow> 'd \<times> errno \<Rightarrow> bool \<times> 'd \<times> errno"
  driver_unwatch_write :: "int \<Rightarrow> 'd \<times> errno \<Rightarrow> 'd \<times> errno"
  driver_unwatch :: "int \<Rightarrow> 'd \<times> errno \<Rightarrow> 'd \<times> errno"
  driver_wait :: "int \<Rightarrow> 'd \<times> errno \<Rightarrow> (int \<times> int option) \<times> 'd \<times> errno"
    \<comment> \<open>the return value and what was stored in \<^verbatim>\<open>*ready_fd\<close>, if anything\<close>

text \<open>The first index at which \<open>P\<close> holds: the loops that look for a descriptor.\<close>

fun index_where :: "('a \<Rightarrow> bool) \<Rightarrow> 'a list \<Rightarrow> nat option" where
  "index_where P [] = None"
| "index_where P (x # xs) = (if P x then Some 0 else map_option Suc (index_where P xs))"

text \<open>\<^verbatim>\<open>memmove\<close> over the entry at \<open>index\<close>, then one entry less.\<close>

definition remove_at :: "nat \<Rightarrow> 'a list \<Rightarrow> 'a list" where
  [ws_eval]: "remove_at index xs =
    (if index + 1 < length xs then take index xs @ drop (index + 1) xs else butlast xs)"

definition grow_capacity :: "nat \<Rightarrow> nat \<Rightarrow> nat" where
  [ws_eval]: "grow_capacity count capacity =
    (if count = capacity then (if capacity > 0 then capacity * 2 else 8) else capacity)"

subsection \<open>The \<^verbatim>\<open>select\<close> driver\<close>

definition FD_SETSIZE :: int where
  [ws_eval]: "FD_SETSIZE = 1024"

record select_fd =
  sel_fd :: int
  sel_read :: bool
  sel_write :: bool

record 'k select_state =
  select_fds :: "select_fd list"
  select_fd_capacity :: nat
  select_kernel :: 'k

text \<open>
  A call of \<^verbatim>\<open>select(2)\<close>: from \<^verbatim>\<open>nfds\<close>, the two descriptor sets and the timeout to the return
  value, \<^verbatim>\<open>errno\<close> and the sets as the kernel leaves them.
\<close>

type_synonym 'k select_call =
  "int \<Rightarrow> int list \<Rightarrow> int list \<Rightarrow> int \<times> int \<Rightarrow> 'k \<Rightarrow> (int \<times> errno \<times> int list \<times> int list) \<times> 'k"

definition websocket_select_init :: "'k select_state \<times> errno \<Rightarrow> bool \<times> 'k select_state \<times> errno" where
  [ws_eval]: "websocket_select_init de =
    (True, (fst de)\<lparr>select_fds := [], select_fd_capacity := 0\<rparr>, snd de)"

definition websocket_select_shutdown :: "'k select_state \<times> errno \<Rightarrow> 'k select_state \<times> errno" where
  [ws_eval]: "websocket_select_shutdown de =
    ((fst de)\<lparr>select_fds := [], select_fd_capacity := 0\<rparr>, snd de)"

definition websocket_select_find_fd :: "int \<Rightarrow> 'k select_state \<Rightarrow> nat option" where
  [ws_eval]: "websocket_select_find_fd fd d = index_where (\<lambda>e. sel_fd e = fd) (select_fds d)"

definition websocket_select_ensure_fd ::
    "int \<Rightarrow> 'k select_state \<times> errno \<Rightarrow> nat option \<times> 'k select_state \<times> errno" where
  [ws_eval]: "websocket_select_ensure_fd fd de =
    (case de of (d, e) \<Rightarrow>
       if fd \<ge> FD_SETSIZE then (None, d, EMFILE)
       else (case websocket_select_find_fd fd d of
               Some i \<Rightarrow> (Some i, d, e)
             | None \<Rightarrow>
                 (Some (length (select_fds d)),
                  d\<lparr>select_fd_capacity := grow_capacity (length (select_fds d)) (select_fd_capacity d),
                    select_fds := select_fds d @ [\<lparr>sel_fd = fd, sel_read = False, sel_write = False\<rparr>]\<rparr>,
                  e)))"

definition websocket_select_watch_read ::
    "int \<Rightarrow> 'k select_state \<times> errno \<Rightarrow> bool \<times> 'k select_state \<times> errno" where
  [ws_eval]: "websocket_select_watch_read fd de =
    (case websocket_select_ensure_fd fd de of
       (None, d, e) \<Rightarrow> (False, d, e)
     | (Some i, d, e) \<Rightarrow>
         (True, d\<lparr>select_fds := (select_fds d)[i := (select_fds d ! i)\<lparr>sel_read := True\<rparr>]\<rparr>, e))"

definition websocket_select_watch_write ::
    "int \<Rightarrow> 'k select_state \<times> errno \<Rightarrow> bool \<times> 'k select_state \<times> errno" where
  [ws_eval]: "websocket_select_watch_write fd de =
    (case websocket_select_ensure_fd fd de of
       (None, d, e) \<Rightarrow> (False, d, e)
     | (Some i, d, e) \<Rightarrow>
         (True, d\<lparr>select_fds := (select_fds d)[i := (select_fds d ! i)\<lparr>sel_write := True\<rparr>]\<rparr>, e))"

definition websocket_select_remove_fd_at :: "nat \<Rightarrow> 'k select_state \<Rightarrow> 'k select_state" where
  [ws_eval]: "websocket_select_remove_fd_at index d = d\<lparr>select_fds := remove_at index (select_fds d)\<rparr>"

definition websocket_select_unwatch_write ::
    "int \<Rightarrow> 'k select_state \<times> errno \<Rightarrow> 'k select_state \<times> errno" where
  [ws_eval]: "websocket_select_unwatch_write fd de =
    (case de of (d, e) \<Rightarrow>
       (case index_where (\<lambda>x. sel_fd x = fd) (select_fds d) of
          None \<Rightarrow> (d, e)
        | Some i \<Rightarrow>
            (let d = d\<lparr>select_fds := (select_fds d)[i := (select_fds d ! i)\<lparr>sel_write := False\<rparr>]\<rparr> in
             (if \<not> sel_read (select_fds d ! i) then websocket_select_remove_fd_at i d else d, e))))"

definition websocket_select_unwatch ::
    "int \<Rightarrow> 'k select_state \<times> errno \<Rightarrow> 'k select_state \<times> errno" where
  [ws_eval]: "websocket_select_unwatch fd de =
    (case de of (d, e) \<Rightarrow>
       (case index_where (\<lambda>x. sel_fd x = fd) (select_fds d) of
          None \<Rightarrow> (d, e)
        | Some i \<Rightarrow> (websocket_select_remove_fd_at i d, e)))"

definition websocket_select_wait ::
    "'k select_call \<Rightarrow> int \<Rightarrow> 'k select_state \<times> errno
      \<Rightarrow> (int \<times> int option) \<times> 'k select_state \<times> errno" where
  [ws_eval]: "websocket_select_wait sys_select timeout_usec de =
    (case de of (d, e) \<Rightarrow>
       if select_fds d = [] then ((-1, None), d, EBADF)
       else
         (let read_fds = map sel_fd (filter sel_read (select_fds d));
              write_fds = map sel_fd (filter sel_write (select_fds d));
              max_fd = foldl (\<lambda>m x. if sel_fd x > m then sel_fd x else m) (-1) (select_fds d)
          in case sys_select (max_fd + 1) read_fds write_fds
                    (timeout_usec sdiv 1000000, timeout_usec smod 1000000) (select_kernel d) of
               ((ready, e', rs, ws), k) \<Rightarrow>
                 (let d = d\<lparr>select_kernel := k\<rparr> in
                  if ready < 0 then ((ready, None), d, e')
                  else if ready = 0 then ((ready, None), d, e)
                  else
                    (case index_where (\<lambda>x. (sel_read x \<and> sel_fd x \<in> set rs)
                                         \<or> (sel_write x \<and> sel_fd x \<in> set ws)) (select_fds d) of
                       Some i \<Rightarrow> ((ready, Some (sel_fd (select_fds d ! i))), d, e)
                     | None \<Rightarrow> ((ready, None), d, e)))))"

definition select_driver :: "'k select_call \<Rightarrow> 'k select_state websocket_driver" where
  [ws_eval]: "select_driver sys_select =
    \<lparr>driver_name = ''select'', driver_init = websocket_select_init,
     driver_shutdown = websocket_select_shutdown, driver_watch_read = websocket_select_watch_read,
     driver_watch_write = websocket_select_watch_write,
     driver_unwatch_write = websocket_select_unwatch_write,
     driver_unwatch = websocket_select_unwatch, driver_wait = websocket_select_wait sys_select\<rparr>"


subsection \<open>The \<^verbatim>\<open>poll\<close> driver\<close>

abbreviation (input) POLLIN :: "16 word" where "POLLIN \<equiv> 0x001"
abbreviation (input) POLLOUT :: "16 word" where "POLLOUT \<equiv> 0x004"

record pollfd =
  poll_fd :: int
  poll_events :: "16 word"
  poll_revents :: "16 word"

record 'k poll_state =
  poll_fds :: "pollfd list"
  poll_fd_capacity :: nat
  poll_kernel :: 'k

text \<open>
  A call of \<^verbatim>\<open>poll(2)\<close>: from the descriptors with their events and the timeout in milliseconds
  to the return value, \<^verbatim>\<open>errno\<close> and the \<^verbatim>\<open>revents\<close> of each index.
\<close>

type_synonym 'k poll_call =
  "(int \<times> 16 word) list \<Rightarrow> int \<Rightarrow> 'k \<Rightarrow> (int \<times> errno \<times> (nat \<Rightarrow> 16 word)) \<times> 'k"

definition websocket_poll_init :: "'k poll_state \<times> errno \<Rightarrow> bool \<times> 'k poll_state \<times> errno" where
  [ws_eval]: "websocket_poll_init de = (True, (fst de)\<lparr>poll_fds := [], poll_fd_capacity := 0\<rparr>, snd de)"

definition websocket_poll_shutdown :: "'k poll_state \<times> errno \<Rightarrow> 'k poll_state \<times> errno" where
  [ws_eval]: "websocket_poll_shutdown de = ((fst de)\<lparr>poll_fds := [], poll_fd_capacity := 0\<rparr>, snd de)"

text \<open>\<^verbatim>\<open>watch_read\<close> and \<^verbatim>\<open>watch_write\<close> differ in the event only.\<close>

definition websocket_poll_watch ::
    "16 word \<Rightarrow> int \<Rightarrow> 'k poll_state \<times> errno \<Rightarrow> bool \<times> 'k poll_state \<times> errno" where
  [ws_eval]: "websocket_poll_watch event fd de =
    (case de of (d, e) \<Rightarrow>
       (case index_where (\<lambda>x. poll_fd x = fd) (poll_fds d) of
          Some i \<Rightarrow>
            (True, d\<lparr>poll_fds := (poll_fds d)[i := (poll_fds d ! i)
                       \<lparr>poll_events := poll_events (poll_fds d ! i) OR event\<rparr>]\<rparr>, e)
        | None \<Rightarrow>
            (True, d\<lparr>poll_fd_capacity := grow_capacity (length (poll_fds d)) (poll_fd_capacity d),
                     poll_fds := poll_fds d @ [\<lparr>poll_fd = fd, poll_events = event, poll_revents = 0\<rparr>]\<rparr>, e)))"

definition websocket_poll_watch_read ::
    "int \<Rightarrow> 'k poll_state \<times> errno \<Rightarrow> bool \<times> 'k poll_state \<times> errno" where
  [ws_eval]: "websocket_poll_watch_read fd de = websocket_poll_watch POLLIN fd de"

definition websocket_poll_watch_write ::
    "int \<Rightarrow> 'k poll_state \<times> errno \<Rightarrow> bool \<times> 'k poll_state \<times> errno" where
  [ws_eval]: "websocket_poll_watch_write fd de = websocket_poll_watch POLLOUT fd de"

definition websocket_poll_remove_fd_at :: "nat \<Rightarrow> 'k poll_state \<Rightarrow> 'k poll_state" where
  [ws_eval]: "websocket_poll_remove_fd_at index d = d\<lparr>poll_fds := remove_at index (poll_fds d)\<rparr>"

definition websocket_poll_unwatch_write :: "int \<Rightarrow> 'k poll_state \<times> errno \<Rightarrow> 'k poll_state \<times> errno" where
  [ws_eval]: "websocket_poll_unwatch_write fd de =
    (case de of (d, e) \<Rightarrow>
       (case index_where (\<lambda>x. poll_fd x = fd) (poll_fds d) of
          None \<Rightarrow> (d, e)
        | Some i \<Rightarrow>
            (let d = d\<lparr>poll_fds := (poll_fds d)[i := (poll_fds d ! i)
                         \<lparr>poll_events := poll_events (poll_fds d ! i) AND NOT POLLOUT\<rparr>]\<rparr> in
             (if poll_events (poll_fds d ! i) = 0 then websocket_poll_remove_fd_at i d else d, e))))"

definition websocket_poll_unwatch :: "int \<Rightarrow> 'k poll_state \<times> errno \<Rightarrow> 'k poll_state \<times> errno" where
  [ws_eval]: "websocket_poll_unwatch fd de =
    (case de of (d, e) \<Rightarrow>
       (case index_where (\<lambda>x. poll_fd x = fd) (poll_fds d) of
          None \<Rightarrow> (d, e)
        | Some i \<Rightarrow> (websocket_poll_remove_fd_at i d, e)))"

definition websocket_poll_wait ::
    "'k poll_call \<Rightarrow> int \<Rightarrow> 'k poll_state \<times> errno \<Rightarrow> (int \<times> int option) \<times> 'k poll_state \<times> errno" where
  [ws_eval]: "websocket_poll_wait sys_poll timeout_usec de =
    (case de of (d, e) \<Rightarrow>
       if poll_fds d = [] then ((-1, None), d, EBADF)
       else
         (case sys_poll (map (\<lambda>x. (poll_fd x, poll_events x)) (poll_fds d)) (timeout_usec sdiv 1000)
                 (poll_kernel d) of
            ((ready, e', revents), k) \<Rightarrow>
              (let d = d\<lparr>poll_kernel := k,
                         poll_fds := map (\<lambda>(i, x). x\<lparr>poll_revents := revents i\<rparr>)
                                       (List.enumerate 0 (poll_fds d))\<rparr> in
               if ready < 0 then ((ready, None), d, e')
               else if ready = 0 then ((ready, None), d, e)
               else
                 (case index_where (\<lambda>x. poll_revents x \<noteq> 0) (poll_fds d) of
                    Some i \<Rightarrow> ((ready, Some (poll_fd (poll_fds d ! i))), d, e)
                  | None \<Rightarrow> ((ready, None), d, e)))))"

definition poll_driver :: "'k poll_call \<Rightarrow> 'k poll_state websocket_driver" where
  [ws_eval]: "poll_driver sys_poll =
    \<lparr>driver_name = ''poll'', driver_init = websocket_poll_init,
     driver_shutdown = websocket_poll_shutdown, driver_watch_read = websocket_poll_watch_read,
     driver_watch_write = websocket_poll_watch_write,
     driver_unwatch_write = websocket_poll_unwatch_write,
     driver_unwatch = websocket_poll_unwatch, driver_wait = websocket_poll_wait sys_poll\<rparr>"

subsection \<open>Operations on the descriptor table\<close>

text \<open>Interest in a descriptor: watched for reading, watched for writing.\<close>

type_synonym interest = "int \<Rightarrow> bool \<times> bool"

definition no_interest :: interest where
  "no_interest = (\<lambda>_. (False, False))"

datatype driver_op = WatchRead int | WatchWrite int | UnwatchWrite int | Unwatch int

fun apply_op :: "'d websocket_driver \<Rightarrow> driver_op \<Rightarrow> 'd \<times> errno \<Rightarrow> 'd \<times> errno" where
  "apply_op D (WatchRead fd) de = snd (driver_watch_read D fd de)"
| "apply_op D (WatchWrite fd) de = snd (driver_watch_write D fd de)"
| "apply_op D (UnwatchWrite fd) de = driver_unwatch_write D fd de"
| "apply_op D (Unwatch fd) de = driver_unwatch D fd de"

fun op_fd :: "driver_op \<Rightarrow> int" where
  "op_fd (WatchRead fd) = fd" | "op_fd (WatchWrite fd) = fd"
| "op_fd (UnwatchWrite fd) = fd" | "op_fd (Unwatch fd) = fd"

text \<open>What a driver promises: the interest after an operation.\<close>

fun op_interest :: "driver_op \<Rightarrow> interest \<Rightarrow> interest" where
  "op_interest (WatchRead fd) w = w(fd := (True, snd (w fd)))"
| "op_interest (WatchWrite fd) w = w(fd := (fst (w fd), True))"
| "op_interest (UnwatchWrite fd) w = w(fd := (fst (w fd), False))"
| "op_interest (Unwatch fd) w = w(fd := (False, False))"

text \<open>
  The contract of a driver over the states \<open>ok\<close>, with the interest \<open>watched\<close> and the descriptors
  \<open>valid\<close> that it can hold. A watch of another descriptor fails and changes nothing.
\<close>

locale io_driver =
  fixes D :: "'d websocket_driver"
    and ok :: "'d \<Rightarrow> bool"
    and watched :: "'d \<Rightarrow> interest"
    and valid :: "int \<Rightarrow> bool"
  assumes init: "driver_init D de = (True, d', e') \<Longrightarrow> ok d' \<and> watched d' = no_interest"
    and step: "ok d \<Longrightarrow> valid (op_fd a) \<Longrightarrow> apply_op D a (d, e) = (d', e') \<Longrightarrow>
        ok d' \<and> watched d' = op_interest a (watched d) \<and> e' = e"
    and watch: "valid fd \<Longrightarrow> fst (driver_watch_read D fd de) \<and> fst (driver_watch_write D fd de)"
    and no_watch: "\<not> valid fd \<Longrightarrow> driver_watch_read D fd (d, e) = (False, d, EMFILE)
        \<and> driver_watch_write D fd (d, e) = (False, d, EMFILE)"
    and wait: "ok d \<Longrightarrow> driver_wait D t (d, e) = ((ready, r), d', e') \<Longrightarrow>
        ok d' \<and> watched d' = watched d
      \<and> (case r of None \<Rightarrow> True | Some fd \<Rightarrow> 0 < ready \<and> watched d fd \<noteq> (False, False))"
begin

lemma steps:
  assumes "ok d" "\<forall>a\<in>set as. valid (op_fd a)"
  shows "ok (fst (fold (apply_op D) as (d, e))) \<and> watched (fst (fold (apply_op D) as (d, e))) = fold op_interest as (watched d)
       \<and> snd (fold (apply_op D) as (d, e)) = e"
  using assms
proof (induction as arbitrary: d)
  case (Cons a as)
  obtain d' e' where s: "apply_op D a (d, e) = (d', e')" by fastforce
  with step [OF Cons.prems(1) _ s] Cons.prems have "ok d'" "watched d' = op_interest a (watched d)" "e' = e" by auto
  with Cons.IH [of d'] Cons.prems s show ?case by simp
qed simp

text \<open>A closed descriptor is not reported by any later wait until it is watched again.\<close>

lemma unwatched_not_ready:
  assumes "ok d" "valid fd" "\<forall>a\<in>set as. valid (op_fd a) \<and> op_fd a \<noteq> fd"
    and "fold (apply_op D) (Unwatch fd # as) (d, e) = (d', e')"
    and "driver_wait D t (d', e') = ((ready, r), d'', e'')"
  shows "r \<noteq> Some fd"
proof -
  have "(fold op_interest as w) fd = w fd" for w
    using assms(3)
  proof (induction as arbitrary: w)
    case (Cons a as)
    then show ?case by (cases a) auto
  qed simp
  then have "(fold op_interest (Unwatch fd # as) (watched d)) fd = (False, False)" by simp
  moreover have "ok d'" "watched d' = fold op_interest (Unwatch fd # as) (watched d)"
    using steps [of d "Unwatch fd # as" e] assms(1,2,3,4) by auto
  ultimately show ?thesis using wait [OF _ assms(5)] by auto
qed

end


subsection \<open>Lemmas on the tables\<close>

lemma index_where_SomeD: "index_where P xs = Some i \<Longrightarrow> i < length xs \<and> P (xs ! i)"
  by (induction xs arbitrary: i) (auto split: if_splits)

lemma index_where_None_iff: "index_where P xs = None \<longleftrightarrow> (\<forall>x\<in>set xs. \<not> P x)"
  by (induction xs) auto

lemma remove_at_eq: "i < length xs \<Longrightarrow> remove_at i xs = take i xs @ drop (Suc i) xs"
proof -
  assume i: "i < length xs"
  show ?thesis
  proof (cases "i + 1 < length xs")
    case False
    with i have "i = length xs - 1" by simp
    then show ?thesis using False i by (simp add: remove_at_def butlast_conv_take)
  qed (simp add: remove_at_def)
qed

lemma length_remove_at: "i < length xs \<Longrightarrow> length (remove_at i xs) = length xs - 1"
  by (simp add: remove_at_eq)

text \<open>A table keyed by a descriptor as a map.\<close>

definition entries :: "('a \<Rightarrow> int) \<Rightarrow> 'a list \<Rightarrow> int \<Rightarrow> 'a option" where
  [ws_eval]: "entries k xs = map_of (map (\<lambda>x. (k x, x)) xs)"

lemma entries_None_iff: "entries k xs fd = None \<longleftrightarrow> fd \<notin> k ` set xs"
  by (simp add: entries_def map_of_eq_None_iff image_image)

lemma entries_SomeD: "entries k xs fd = Some x \<Longrightarrow> x \<in> set xs \<and> k x = fd"
  by (auto simp: entries_def dest: map_of_SomeD)

lemma entries_index:
  "index_where (\<lambda>x. k x = fd) xs = Some i \<Longrightarrow> entries k xs fd = Some (xs ! i) \<and> i < length xs \<and> k (xs ! i) = fd"
  "index_where (\<lambda>x. k x = fd) xs = None \<Longrightarrow> entries k xs fd = None"
  by (induction xs arbitrary: i) (auto simp: entries_def split: if_splits)

lemma entries_append:
  "k y \<notin> k ` set xs \<Longrightarrow> entries k (xs @ [y]) = (entries k xs)(k y \<mapsto> y)"
  by (induction xs) (auto simp: entries_def fun_eq_iff)

lemma entries_update:
  assumes "distinct (map k xs)" "i < length xs" "k y = k (xs ! i)"
  shows "entries k (xs[i := y]) = (entries k xs)(k y \<mapsto> y)" "map k (xs[i := y]) = map k xs"
proof -
  show m: "map k (xs[i := y]) = map k xs" using assms(2,3) by (simp add: map_update list_update_same_conv)
  show "entries k (xs[i := y]) = (entries k xs)(k y \<mapsto> y)"
    using assms
  proof (induction xs arbitrary: i)
    case (Cons x xs)
    show ?case
    proof (cases i)
      case (Suc j)
      then have "k x \<noteq> k y" using Cons.prems imageI [of "xs ! j" "set xs" k] by auto
      then show ?thesis using Suc Cons.IH [of j] Cons.prems by (auto simp: entries_def fun_eq_iff)
    qed (use Cons.prems in \<open>auto simp: entries_def fun_eq_iff\<close>)
  qed simp
qed

lemma entries_remove_at:
  assumes "distinct (map k xs)" "i < length xs"
  shows "entries k (remove_at i xs) = (entries k xs)(k (xs ! i) := None)"
    "distinct (map k (remove_at i xs))" "set (remove_at i xs) \<subseteq> set xs"
proof -
  show "set (remove_at i xs) \<subseteq> set xs"
    unfolding remove_at_eq [OF assms(2)] by (auto dest: in_set_takeD in_set_dropD)
  have "distinct (map k (take i xs @ xs ! i # drop (Suc i) xs))"
    using assms by (simp flip: id_take_nth_drop)
  then show "distinct (map k (remove_at i xs))" unfolding remove_at_eq [OF assms(2)] by auto
  show "entries k (remove_at i xs) = (entries k xs)(k (xs ! i) := None)"
    using assms unfolding remove_at_eq [OF assms(2)]
  proof (induction xs arbitrary: i)
    case (Cons x xs)
    show ?case
    proof (cases i)
      case 0
      then have "entries k xs (k x) = None" using Cons.prems by (simp add: entries_None_iff)
      then show ?thesis using 0 by (auto simp: entries_def fun_eq_iff)
    next
      case (Suc j)
      then have "k x \<noteq> k (xs ! j)" using Cons.prems imageI [of "xs ! j" "set xs" k] by auto
      then show ?thesis using Suc Cons.IH [of j] Cons.prems by (auto simp: entries_def fun_eq_iff)
    qed
  qed simp
qed

text \<open>The invariant of both tables: one entry per descriptor, \<open>P\<close> of every entry, and room for all.\<close>

definition table_ok :: "('a \<Rightarrow> int) \<Rightarrow> ('a \<Rightarrow> bool) \<Rightarrow> 'a list \<Rightarrow> nat \<Rightarrow> bool" where
  [ws_eval]: "table_ok k P xs capacity \<longleftrightarrow> distinct (map k xs) \<and> list_all P xs \<and> length xs \<le> capacity"

lemma table_ok_append:
  assumes "table_ok k P xs c" "k y \<notin> k ` set xs" "P y"
  shows "table_ok k P (xs @ [y]) (grow_capacity (length xs) c)"
  using assms by (auto simp: table_ok_def grow_capacity_def)

lemma table_ok_update:
  assumes "table_ok k P xs c" "i < length xs" "k y = k (xs ! i)" "P y"
  shows "table_ok k P (xs[i := y]) c"
proof -
  have "distinct (map k xs)" using assms(1) by (simp add: table_ok_def)
  then have "map k (xs[i := y]) = map k xs" using assms(2,3) by (rule entries_update(2))
  moreover have "set (xs[i := y]) \<subseteq> insert y (set xs)" by (rule set_update_subset_insert)
  ultimately show ?thesis using assms by (auto simp: table_ok_def list_all_iff)
qed

lemma table_ok_remove_at:
  assumes "table_ok k P xs c" "i < length xs"
  shows "table_ok k P (remove_at i xs) c"
proof -
  have d: "distinct (map k xs)" using assms(1) by (simp add: table_ok_def)
  show ?thesis using assms entries_remove_at(2,3) [OF d assms(2)]
    by (auto simp: table_ok_def list_all_iff length_remove_at)
qed


subsection \<open>The \<^verbatim>\<open>select\<close> driver keeps its contract\<close>

definition select_ok :: "'k select_state \<Rightarrow> bool" where
  [ws_eval]: "select_ok d = table_ok sel_fd (\<lambda>x. (sel_read x \<or> sel_write x) \<and> sel_fd x < FD_SETSIZE)
     (select_fds d) (select_fd_capacity d)"

definition select_watched :: "'k select_state \<Rightarrow> interest" where
  [ws_eval]: "select_watched d = (\<lambda>fd. case entries sel_fd (select_fds d) fd of
     None \<Rightarrow> (False, False) | Some x \<Rightarrow> (sel_read x, sel_write x))"

text \<open>\<^verbatim>\<open>ensure_fd\<close> followed by the update of the entry it returns.\<close>

lemma select_ensure_update:
  assumes "select_ok d" "fd < FD_SETSIZE" "websocket_select_ensure_fd fd (d, e) = (r, d1, e1)"
    and "\<And>x. sel_fd (f x) = sel_fd x" "\<And>x. sel_read (f x) \<or> sel_write (f x)"
  obtains i where "r = Some i" "e1 = e"
    "select_ok (d1\<lparr>select_fds := (select_fds d1)[i := f (select_fds d1 ! i)]\<rparr>)"
    "entries sel_fd ((select_fds d1)[i := f (select_fds d1 ! i)]) = (entries sel_fd (select_fds d))
       (fd \<mapsto> f (case entries sel_fd (select_fds d) fd of Some x \<Rightarrow> x
                 | None \<Rightarrow> \<lparr>sel_fd = fd, sel_read = False, sel_write = False\<rparr>))"
proof (cases "websocket_select_find_fd fd d")
  case (Some i)
  then have d1: "r = Some i" "d1 = d" "e1 = e" using assms by (simp_all add: websocket_select_ensure_fd_def)
  have i: "entries sel_fd (select_fds d) fd = Some (select_fds d ! i)" "i < length (select_fds d)"
    "sel_fd (select_fds d ! i) = fd"
    using Some entries_index(1) [of sel_fd fd "select_fds d" i] by (simp_all add: websocket_select_find_fd_def)
  let ?y = "f (select_fds d ! i)"
  have "distinct (map sel_fd (select_fds d))" using assms(1) by (simp add: select_ok_def table_ok_def)
  then have "entries sel_fd ((select_fds d)[i := ?y]) = (entries sel_fd (select_fds d))(fd \<mapsto> ?y)"
    using entries_update(1) [of sel_fd "select_fds d" i ?y] i assms(4) by simp
  moreover have "select_ok (d\<lparr>select_fds := (select_fds d)[i := ?y]\<rparr>)"
    using assms(1,2) i assms(5) [of "select_fds d ! i"]
    by (auto simp: select_ok_def assms(4) intro!: table_ok_update)
  ultimately show thesis using i d1 by (intro that [of i]) simp_all
next
  case None
  let ?n = "\<lparr>sel_fd = fd, sel_read = False, sel_write = False\<rparr>" and ?xs = "select_fds d"
  have new: "entries sel_fd ?xs fd = None" "fd \<notin> sel_fd ` set ?xs"
    using None by (auto simp: websocket_select_find_fd_def entries_None_iff index_where_None_iff)
  have "r = Some (length ?xs)" "e1 = e"
    and d1: "d1 = d\<lparr>select_fd_capacity := grow_capacity (length ?xs) (select_fd_capacity d), select_fds := ?xs @ [?n]\<rparr>"
    using assms(2,3) None by (simp_all add: websocket_select_ensure_fd_def)
  moreover have "entries sel_fd (?xs @ [f ?n]) = (entries sel_fd ?xs)(fd \<mapsto> f ?n)"
    using entries_append [of sel_fd "f ?n" ?xs] new by (simp add: assms(4))
  moreover have "select_ok (d1\<lparr>select_fds := ?xs @ [f ?n]\<rparr>)"
    using assms(1,2) new assms(5) [of ?n] by (auto simp: select_ok_def d1 assms(4) intro!: table_ok_append)
  ultimately show thesis using new by (intro that [of "length ?xs"]) (simp_all add: d1)
qed

lemma select_step:
  assumes "select_ok d" "op_fd a < FD_SETSIZE" "apply_op (select_driver sys) a (d, e) = (d', e')"
  shows "select_ok d' \<and> select_watched d' = op_interest a (select_watched d) \<and> e' = e"
proof (cases a)
  case (WatchRead fd)
  obtain r d1 e1 where en: "websocket_select_ensure_fd fd (d, e) = (r, d1, e1)" by (metis prod_cases3)
  have lt: "fd < FD_SETSIZE" using assms(2) WatchRead by simp
  obtain i where i: "r = Some i" "e1 = e"
    "select_ok (d1\<lparr>select_fds := (select_fds d1)[i := (select_fds d1 ! i)\<lparr>sel_read := True\<rparr>]\<rparr>)"
    "entries sel_fd ((select_fds d1)[i := (select_fds d1 ! i)\<lparr>sel_read := True\<rparr>]) = (entries sel_fd (select_fds d))
       (fd \<mapsto> (case entries sel_fd (select_fds d) fd of Some x \<Rightarrow> x
                 | None \<Rightarrow> \<lparr>sel_fd = fd, sel_read = False, sel_write = False\<rparr>)\<lparr>sel_read := True\<rparr>)"
    by (rule select_ensure_update [OF assms(1) lt en, of "\<lambda>x. x\<lparr>sel_read := True\<rparr>"]) simp_all
  have "d' = d1\<lparr>select_fds := (select_fds d1)[i := (select_fds d1 ! i)\<lparr>sel_read := True\<rparr>]\<rparr>" "e' = e"
    using assms(3) en i(1,2) by (simp_all add: WatchRead select_driver_def websocket_select_watch_read_def)
  then show ?thesis
    using i(3,4) by (simp add: WatchRead select_watched_def fun_eq_iff split: option.split)
next
  case (WatchWrite fd)
  obtain r d1 e1 where en: "websocket_select_ensure_fd fd (d, e) = (r, d1, e1)" by (metis prod_cases3)
  have lt: "fd < FD_SETSIZE" using assms(2) WatchWrite by simp
  obtain i where i: "r = Some i" "e1 = e"
    "select_ok (d1\<lparr>select_fds := (select_fds d1)[i := (select_fds d1 ! i)\<lparr>sel_write := True\<rparr>]\<rparr>)"
    "entries sel_fd ((select_fds d1)[i := (select_fds d1 ! i)\<lparr>sel_write := True\<rparr>]) = (entries sel_fd (select_fds d))
       (fd \<mapsto> (case entries sel_fd (select_fds d) fd of Some x \<Rightarrow> x
                 | None \<Rightarrow> \<lparr>sel_fd = fd, sel_read = False, sel_write = False\<rparr>)\<lparr>sel_write := True\<rparr>)"
    by (rule select_ensure_update [OF assms(1) lt en, of "\<lambda>x. x\<lparr>sel_write := True\<rparr>"]) simp_all
  have "d' = d1\<lparr>select_fds := (select_fds d1)[i := (select_fds d1 ! i)\<lparr>sel_write := True\<rparr>]\<rparr>" "e' = e"
    using assms(3) en i(1,2) by (simp_all add: WatchWrite select_driver_def websocket_select_watch_write_def)
  then show ?thesis
    using i(3,4) by (simp add: WatchWrite select_watched_def fun_eq_iff split: option.split)
next
  case (UnwatchWrite fd)
  let ?xs = "select_fds d"
  have dist: "distinct (map sel_fd ?xs)" using assms(1) by (simp add: select_ok_def table_ok_def)
  show ?thesis
  proof (cases "index_where (\<lambda>x. sel_fd x = fd) ?xs")
    case None
    then have "d' = d" "e' = e" using assms(3) by (simp_all add: UnwatchWrite select_driver_def websocket_select_unwatch_write_def)
    then show ?thesis using assms(1) entries_index(2) [OF None] by (simp add: UnwatchWrite select_watched_def fun_eq_iff)
  next
    case (Some i)
    note i = entries_index(1) [OF Some]
    let ?y = "(?xs ! i)\<lparr>sel_write := False\<rparr>"
    have k: "sel_fd ?y = sel_fd (?xs ! i)" by simp
    note up = entries_update [OF dist, of i ?y]
    show ?thesis
    proof (cases "sel_read (?xs ! i)")
      case True
      then have "d' = d\<lparr>select_fds := ?xs[i := ?y]\<rparr>" "e' = e"
        using assms(3) i Some by (simp_all add: UnwatchWrite select_driver_def websocket_select_unwatch_write_def Let_def)
      moreover have "select_ok (d\<lparr>select_fds := ?xs[i := ?y]\<rparr>)"
        using assms(1,2) i True by (auto simp: select_ok_def UnwatchWrite intro!: table_ok_update)
      ultimately show ?thesis using up i by (auto simp: UnwatchWrite select_watched_def fun_eq_iff)
    next
      case False
      then have d': "d' = d\<lparr>select_fds := remove_at i (?xs[i := ?y])\<rparr>" "e' = e"
        using assms(3) i Some
        by (simp_all add: UnwatchWrite select_driver_def websocket_select_unwatch_write_def Let_def
            websocket_select_remove_fd_at_def)
      have r: "remove_at i (?xs[i := ?y]) = remove_at i ?xs" using i by (simp add: remove_at_eq)
      have "select_ok d'" unfolding d' r using assms(1) i by (simp add: select_ok_def table_ok_remove_at)
      then show ?thesis using entries_remove_at(1) [OF dist] i False
        by (auto simp: UnwatchWrite select_watched_def d' r fun_eq_iff)
    qed
  qed
next
  case (Unwatch fd)
  let ?xs = "select_fds d"
  have dist: "distinct (map sel_fd ?xs)" using assms(1) by (simp add: select_ok_def table_ok_def)
  show ?thesis
  proof (cases "index_where (\<lambda>x. sel_fd x = fd) ?xs")
    case None
    then have "d' = d" "e' = e" using assms(3) by (simp_all add: Unwatch select_driver_def websocket_select_unwatch_def)
    then show ?thesis using assms(1) entries_index(2) [OF None] by (simp add: Unwatch select_watched_def fun_eq_iff)
  next
    case (Some i)
    note i = entries_index(1) [OF Some]
    have d': "d' = d\<lparr>select_fds := remove_at i ?xs\<rparr>" "e' = e"
      using assms(3) Some by (simp_all add: Unwatch select_driver_def websocket_select_unwatch_def websocket_select_remove_fd_at_def)
    have "select_ok d'" unfolding d' using assms(1) i by (simp add: select_ok_def table_ok_remove_at)
    then show ?thesis using entries_remove_at(1) [OF dist] i
      by (auto simp: Unwatch select_watched_def d' fun_eq_iff)
  qed
qed

lemma select_wait:
  assumes "websocket_select_wait sys t (d, e) = ((ready, r), d', e')"
  shows "select_fds d' = select_fds d" "select_fd_capacity d' = select_fd_capacity d"
    "case r of None \<Rightarrow> True | Some fd \<Rightarrow> 0 < ready \<and> (\<exists>x\<in>set (select_fds d). sel_fd x = fd)"
proof -
  let ?P = "\<lambda>rs ws x. (sel_read x \<and> sel_fd x \<in> set rs) \<or> (sel_write x \<and> sel_fd x \<in> set ws)"
  show "select_fds d' = select_fds d" "select_fd_capacity d' = select_fd_capacity d"
    using assms unfolding websocket_select_wait_def Let_def
    by (simp_all split: if_splits prod.splits option.splits) auto
  show "case r of None \<Rightarrow> True | Some fd \<Rightarrow> 0 < ready \<and> (\<exists>x\<in>set (select_fds d). sel_fd x = fd)"
  proof (cases r)
    case (Some fd)
    then obtain rs ws i where "0 < ready" "index_where (?P rs ws) (select_fds d) = Some i"
        "fd = sel_fd (select_fds d ! i)"
      using assms unfolding websocket_select_wait_def Let_def
      by (simp split: if_splits prod.splits option.splits)
    then show ?thesis using Some index_where_SomeD nth_mem by fastforce
  qed simp
qed

interpretation sel: io_driver "select_driver sys" select_ok select_watched "\<lambda>fd. fd < FD_SETSIZE" for sys
proof
  fix de d e d' e' a fd t ready r
  show "select_ok d' \<and> select_watched d' = no_interest" if "driver_init (select_driver sys) de = (True, d', e')"
    using that by (auto simp: select_driver_def websocket_select_init_def select_ok_def table_ok_def
        select_watched_def entries_def no_interest_def)
  show "select_ok d' \<and> select_watched d' = op_interest a (select_watched d) \<and> e' = e"
    if "select_ok d" "op_fd a < FD_SETSIZE" "apply_op (select_driver sys) a (d, e) = (d', e')"
    using select_step [OF that] .
  show "fst (driver_watch_read (select_driver sys) fd de) \<and> fst (driver_watch_write (select_driver sys) fd de)"
    if "fd < FD_SETSIZE"
    using that by (auto simp: select_driver_def websocket_select_watch_read_def websocket_select_watch_write_def
        websocket_select_ensure_fd_def split: prod.split option.split)
  show "driver_watch_read (select_driver sys) fd (d, e) = (False, d, EMFILE)
        \<and> driver_watch_write (select_driver sys) fd (d, e) = (False, d, EMFILE)"
    if "\<not> fd < FD_SETSIZE"
    using that by (simp add: select_driver_def websocket_select_watch_read_def websocket_select_watch_write_def
        websocket_select_ensure_fd_def)
  show "select_ok d' \<and> select_watched d' = select_watched d
      \<and> (case r of None \<Rightarrow> True | Some fd \<Rightarrow> 0 < ready \<and> select_watched d fd \<noteq> (False, False))"
    if "select_ok d" "driver_wait (select_driver sys) t (d, e) = ((ready, r), d', e')"
  proof -
    have "websocket_select_wait sys t (d, e) = ((ready, r), d', e')" using that(2) by (simp add: select_driver_def)
    note w = select_wait [OF this]
    have "select_watched d fd \<noteq> (False, False)" if "\<exists>x\<in>set (select_fds d). sel_fd x = fd" for fd
    proof -
      obtain x where x: "entries sel_fd (select_fds d) fd = Some x"
        using \<open>\<exists>x\<in>set (select_fds d). sel_fd x = fd\<close> entries_None_iff [of sel_fd "select_fds d" fd] by fastforce
      then have "x \<in> set (select_fds d)" by (simp add: entries_SomeD)
      then show ?thesis using \<open>select_ok d\<close> x by (auto simp: select_watched_def select_ok_def table_ok_def list_all_iff)
    qed
    moreover have "select_watched d' = select_watched d" "select_ok d' = select_ok d"
      using w(1,2) by (simp_all add: select_ok_def select_watched_def)
    ultimately show ?thesis using w(3) that(1) by (cases r) simp_all
  qed
qed


subsection \<open>The \<^verbatim>\<open>poll\<close> driver keeps its contract\<close>

definition poll_entry_ok :: "pollfd \<Rightarrow> bool" where
  [ws_eval]: "poll_entry_ok x \<longleftrightarrow> poll_events x = POLLIN \<or> poll_events x = POLLOUT \<or> poll_events x = 5"

definition poll_ok :: "'k poll_state \<Rightarrow> bool" where
  [ws_eval]: "poll_ok d = table_ok poll_fd poll_entry_ok (poll_fds d) (poll_fd_capacity d)"

definition poll_watched :: "'k poll_state \<Rightarrow> interest" where
  [ws_eval]: "poll_watched d = (\<lambda>fd. case entries poll_fd (poll_fds d) fd of
     None \<Rightarrow> (False, False)
   | Some x \<Rightarrow> (poll_events x AND POLLIN \<noteq> 0, poll_events x AND POLLOUT \<noteq> 0))"

lemma poll_events_cases:
  assumes "poll_entry_ok x"
  shows "(ev AND POLLIN \<noteq> 0, ev AND POLLOUT \<noteq> 0) = (a, b) \<Longrightarrow> ev = poll_events x \<Longrightarrow> a \<or> b"
    "poll_events x OR POLLIN \<in> {1, 4, 5}" "poll_events x OR POLLOUT \<in> {1, 4, 5}"
    "(poll_events x OR POLLIN) AND POLLIN \<noteq> 0" "(poll_events x OR POLLOUT) AND POLLOUT \<noteq> 0"
    "((poll_events x OR POLLIN) AND POLLOUT \<noteq> 0) = (poll_events x AND POLLOUT \<noteq> 0)"
    "((poll_events x OR POLLOUT) AND POLLIN \<noteq> 0) = (poll_events x AND POLLIN \<noteq> 0)"
    "poll_events x AND NOT POLLOUT = (if poll_events x AND POLLIN = 0 then 0 else POLLIN)"
  using assms by (auto simp: poll_entry_ok_def)

lemma poll_watch:
  assumes "poll_ok d" "ev = POLLIN \<or> ev = POLLOUT" "websocket_poll_watch ev fd (d, e) = (ok, d', e')"
  shows "ok \<and> e' = e \<and> poll_ok d' \<and> poll_watched d' =
    op_interest (if ev = POLLIN then WatchRead fd else WatchWrite fd) (poll_watched d)"
proof -
  let ?xs = "poll_fds d"
  have dist: "distinct (map poll_fd ?xs)" and all: "\<forall>x\<in>set ?xs. poll_entry_ok x"
    using assms(1) by (simp_all add: poll_ok_def table_ok_def list_all_iff)
  show ?thesis
  proof (cases "index_where (\<lambda>x. poll_fd x = fd) ?xs")
    case None
    note n = entries_index(2) [OF None]
    then have new: "fd \<notin> poll_fd ` set ?xs" by (simp add: entries_None_iff)
    let ?n = "\<lparr>poll_fd = fd, poll_events = ev, poll_revents = 0\<rparr>"
    have d': "ok" "e' = e" "d' = d\<lparr>poll_fd_capacity := grow_capacity (length ?xs) (poll_fd_capacity d), poll_fds := ?xs @ [?n]\<rparr>"
      using assms(3) by (simp_all add: websocket_poll_watch_def None)
    have "poll_ok d'" using assms(1,2) new
      by (auto simp: poll_ok_def d' poll_entry_ok_def intro!: table_ok_append)
    moreover have "entries poll_fd (?xs @ [?n]) = (entries poll_fd ?xs)(fd \<mapsto> ?n)"
      using entries_append [of poll_fd ?n ?xs] new by simp
    ultimately show ?thesis using d' n assms(2) by (auto simp: poll_watched_def fun_eq_iff)
  next
    case (Some i)
    note i = entries_index(1) [OF Some]
    let ?y = "(?xs ! i)\<lparr>poll_events := poll_events (?xs ! i) OR ev\<rparr>"
    have ei: "poll_entry_ok (?xs ! i)" using all i by simp
    note c = poll_events_cases [OF ei]
    have d': "ok" "e' = e" "d' = d\<lparr>poll_fds := ?xs[i := ?y]\<rparr>"
      using assms(3) Some by (simp_all add: websocket_poll_watch_def)
    have "poll_entry_ok ?y" using c(2,3) assms(2) by (auto simp: poll_entry_ok_def)
    then have "poll_ok d'" using assms(1) i by (auto simp: poll_ok_def d' intro!: table_ok_update)
    moreover have "entries poll_fd (?xs[i := ?y]) = (entries poll_fd ?xs)(fd \<mapsto> ?y)"
      using entries_update(1) [OF dist, of i ?y] i by simp
    ultimately show ?thesis using d' i c(4-7) assms(2) by (auto simp: poll_watched_def fun_eq_iff)
  qed
qed

lemma poll_step:
  assumes "poll_ok d" "apply_op (poll_driver sys) a (d, e) = (d', e')"
  shows "poll_ok d' \<and> poll_watched d' = op_interest a (poll_watched d) \<and> e' = e"
proof -
  let ?xs = "poll_fds d"
  have dist: "distinct (map poll_fd ?xs)" and all: "\<forall>x\<in>set ?xs. poll_entry_ok x"
    using assms(1) by (simp_all add: poll_ok_def table_ok_def list_all_iff)
  show ?thesis
  proof (cases a)
    case (WatchRead fd)
    obtain ok where "websocket_poll_watch POLLIN fd (d, e) = (ok, d', e')"
      using assms(2) by (simp add: WatchRead poll_driver_def websocket_poll_watch_read_def) (metis prod.collapse)
    then show ?thesis using poll_watch [OF assms(1)] WatchRead by fastforce
  next
    case (WatchWrite fd)
    obtain ok where "websocket_poll_watch POLLOUT fd (d, e) = (ok, d', e')"
      using assms(2) by (simp add: WatchWrite poll_driver_def websocket_poll_watch_write_def) (metis prod.collapse)
    then show ?thesis using poll_watch [OF assms(1)] WatchWrite by fastforce
  next
    case (UnwatchWrite fd)
    show ?thesis
    proof (cases "index_where (\<lambda>x. poll_fd x = fd) ?xs")
      case None
      then have "d' = d" "e' = e" using assms(2) by (simp_all add: UnwatchWrite poll_driver_def websocket_poll_unwatch_write_def)
      then show ?thesis using assms(1) entries_index(2) [OF None] by (simp add: UnwatchWrite poll_watched_def fun_eq_iff)
    next
      case (Some i)
      note i = entries_index(1) [OF Some]
      let ?y = "(?xs ! i)\<lparr>poll_events := poll_events (?xs ! i) AND NOT POLLOUT\<rparr>"
      have ei: "poll_entry_ok (?xs ! i)" using all i by simp
      note c = poll_events_cases [OF ei]
      show ?thesis
      proof (cases "poll_events (?xs ! i) AND POLLIN = 0")
        case False
        then have d': "d' = d\<lparr>poll_fds := ?xs[i := ?y]\<rparr>" "e' = e"
          using assms(2) i Some c(8) by (simp_all add: UnwatchWrite poll_driver_def websocket_poll_unwatch_write_def Let_def)
        have "poll_ok d'" using assms(1) i False c(8)
          by (auto simp: poll_ok_def d' poll_entry_ok_def intro!: table_ok_update)
        then show ?thesis using entries_update(1) [OF dist, of i ?y] i False c(8) d'
          by (auto simp: UnwatchWrite poll_watched_def fun_eq_iff)
      next
        case True
        then have d': "d' = d\<lparr>poll_fds := remove_at i (?xs[i := ?y])\<rparr>" "e' = e"
          using assms(2) i Some c(8)
          by (simp_all add: UnwatchWrite poll_driver_def websocket_poll_unwatch_write_def Let_def
              websocket_poll_remove_fd_at_def)
        have r: "remove_at i (?xs[i := ?y]) = remove_at i ?xs" using i by (simp add: remove_at_eq)
        have d1: "d' = d\<lparr>poll_fds := remove_at i ?xs\<rparr>" by (simp only: d' r)
        have "poll_ok d'" unfolding d1 using assms(1) i by (simp add: poll_ok_def table_ok_remove_at)
        then show ?thesis using entries_remove_at(1) [OF dist, of i] i True d'(2)
          by (auto simp: UnwatchWrite poll_watched_def d1 fun_eq_iff)
      qed
    qed
  next
    case (Unwatch fd)
    show ?thesis
    proof (cases "index_where (\<lambda>x. poll_fd x = fd) ?xs")
      case None
      then have "d' = d" "e' = e" using assms(2) by (simp_all add: Unwatch poll_driver_def websocket_poll_unwatch_def)
      then show ?thesis using assms(1) entries_index(2) [OF None] by (simp add: Unwatch poll_watched_def fun_eq_iff)
    next
      case (Some i)
      note i = entries_index(1) [OF Some]
      have d': "d' = d\<lparr>poll_fds := remove_at i ?xs\<rparr>" "e' = e"
        using assms(2) Some by (simp_all add: Unwatch poll_driver_def websocket_poll_unwatch_def websocket_poll_remove_fd_at_def)
      have "poll_ok d'" unfolding d' using assms(1) i by (simp add: poll_ok_def table_ok_remove_at)
      then show ?thesis using entries_remove_at(1) [OF dist] i
        by (auto simp: Unwatch poll_watched_def d' fun_eq_iff)
    qed
  qed
qed


lemma poll_wait:
  assumes "websocket_poll_wait sys t (d, e) = ((ready, r), d', e')"
  shows "map (\<lambda>x. (poll_fd x, poll_events x)) (poll_fds d') = map (\<lambda>x. (poll_fd x, poll_events x)) (poll_fds d)"
    "poll_fd_capacity d' = poll_fd_capacity d"
    "case r of None \<Rightarrow> True | Some fd \<Rightarrow> 0 < ready \<and> (\<exists>x\<in>set (poll_fds d'). poll_fd x = fd)"
proof -
  have m: "map (\<lambda>x. (poll_fd x, poll_events x)) (map (\<lambda>(i, x). x\<lparr>poll_revents := rv i\<rparr>) (List.enumerate n xs))
      = map (\<lambda>x. (poll_fd x, poll_events x)) xs" for rv n xs
    by (induction xs arbitrary: n) simp_all
  show "map (\<lambda>x. (poll_fd x, poll_events x)) (poll_fds d') = map (\<lambda>x. (poll_fd x, poll_events x)) (poll_fds d)"
    "poll_fd_capacity d' = poll_fd_capacity d"
    using assms unfolding websocket_poll_wait_def Let_def
    by (simp_all split: if_splits prod.splits option.splits) (auto simp: m simp del: map_map)
  show "case r of None \<Rightarrow> True | Some fd \<Rightarrow> 0 < ready \<and> (\<exists>x\<in>set (poll_fds d'). poll_fd x = fd)"
  proof (cases r)
    case (Some fd)
    then obtain i where "0 < ready" "index_where (\<lambda>x. poll_revents x \<noteq> 0) (poll_fds d') = Some i"
        "fd = poll_fd (poll_fds d' ! i)"
      using assms unfolding websocket_poll_wait_def Let_def
      by (auto split: if_splits prod.splits option.splits)
    then show ?thesis using Some index_where_SomeD nth_mem by fastforce
  qed simp
qed

interpretation pol: io_driver "poll_driver sys" poll_ok poll_watched "\<lambda>_. True" for sys
proof
  fix de d e d' e' a fd t ready r
  show "poll_ok d' \<and> poll_watched d' = no_interest" if "driver_init (poll_driver sys) de = (True, d', e')"
    using that by (auto simp: poll_driver_def websocket_poll_init_def poll_ok_def table_ok_def
        poll_watched_def entries_def no_interest_def)
  show "poll_ok d' \<and> poll_watched d' = op_interest a (poll_watched d) \<and> e' = e"
    if "poll_ok d" "apply_op (poll_driver sys) a (d, e) = (d', e')"
    using poll_step [OF that] .
  show "fst (driver_watch_read (poll_driver sys) fd de) \<and> fst (driver_watch_write (poll_driver sys) fd de)"
    by (auto simp: poll_driver_def websocket_poll_watch_read_def websocket_poll_watch_write_def
        websocket_poll_watch_def split: prod.split option.split)
  show "poll_ok d' \<and> poll_watched d' = poll_watched d
      \<and> (case r of None \<Rightarrow> True | Some fd \<Rightarrow> 0 < ready \<and> poll_watched d fd \<noteq> (False, False))"
    if "poll_ok d" "driver_wait (poll_driver sys) t (d, e) = ((ready, r), d', e')"
  proof -
    have "websocket_poll_wait sys t (d, e) = ((ready, r), d', e')" using that(2) by (simp add: poll_driver_def)
    note w = poll_wait [OF this]
    have fds: "map poll_fd (poll_fds d') = map poll_fd (poll_fds d)" "map poll_events (poll_fds d') = map poll_events (poll_fds d)"
      using arg_cong [OF w(1), of "map fst"] arg_cong [OF w(1), of "map snd"] by (simp_all add: comp_def)
    have ex: "map_option poll_events (entries poll_fd xs fd) = map_of (map (\<lambda>x. (poll_fd x, poll_events x)) xs) fd" for xs fd
      by (induction xs) (simp_all add: entries_def)
    have wd: "poll_watched d = (\<lambda>fd. case map_of (map (\<lambda>x. (poll_fd x, poll_events x)) (poll_fds d)) fd of
        None \<Rightarrow> (False, False) | Some ev \<Rightarrow> (ev AND POLLIN \<noteq> 0, ev AND POLLOUT \<noteq> 0))" for d :: "'a poll_state"
      unfolding ex [symmetric] by (simp add: poll_watched_def fun_eq_iff split: option.split)
    have "poll_watched d' = poll_watched d" unfolding wd w(1) ..
    moreover have "poll_ok d'"
    proof -
      have "list_all (\<lambda>ev. ev = POLLIN \<or> ev = POLLOUT \<or> ev = 5) (map poll_events (poll_fds d'))"
        unfolding fds using that(1) by (simp add: poll_ok_def table_ok_def list_all_iff poll_entry_ok_def)
      moreover have "length (poll_fds d') = length (poll_fds d)" using fds(1) by (rule map_eq_imp_length_eq)
      ultimately show ?thesis using that(1) w(2) fds(1)
        by (simp add: poll_ok_def table_ok_def list_all_iff poll_entry_ok_def)
    qed
    moreover have "poll_watched d fd \<noteq> (False, False)" if "\<exists>x\<in>set (poll_fds d'). poll_fd x = fd" for fd
    proof -
      have "fd \<in> poll_fd ` set (poll_fds d')" using that by auto
      then obtain x where x: "entries poll_fd (poll_fds d') fd = Some x"
        using entries_None_iff [of poll_fd "poll_fds d'" fd] by fastforce
      then have "poll_entry_ok x" using entries_SomeD [OF x] \<open>poll_ok d'\<close> by (auto simp: poll_ok_def table_ok_def list_all_iff)
      then have "poll_watched d' fd \<noteq> (False, False)" using x by (auto simp: poll_watched_def poll_entry_ok_def)
      then show ?thesis using \<open>poll_watched d' = poll_watched d\<close> by simp
    qed
    ultimately show ?thesis using w(3) by (cases r) simp_all
  qed
qed simp


subsection \<open>The drivers agree\<close>





end
