(* ===== verification/Ws_Connection.thy ===== *)
theory Ws_Connection
  imports Ws_Frame Ws_Driver "HOL-Library.Sublist"
begin

text \<open>
  One connection (\<^verbatim>\<open>websocket_connection.c\<close>): the object, its write queue, the frames it sends
  and the PHP methods of \<^verbatim>\<open>Connection\<close>.

  An operation takes the connection and the world around it and returns both. The world holds
  \<^verbatim>\<open>errno\<close>, the driver's state (\<open>None\<close> while \<^verbatim>\<open>WEBSOCKET_G(driver)\<close> is \<^verbatim>\<open>NULL\<close>) and what the
  kernel will answer: one list of results per descriptor for \<^verbatim>\<open>send\<close> and \<^verbatim>\<open>recv\<close>, one for \<^verbatim>\<open>close\<close>.
  Any such lists are possible; a call after the last listed one would block. \<open>w_wire fd\<close> are the
  bytes the kernel has taken from the program on \<open>fd\<close>.
\<close>

subsection \<open>The world\<close>

datatype send_result = Sent nat | SendFailed errno
datatype recv_result = Received bytes | RecvFailed errno

record sockaddr =
  sa_inet6 :: bool
  sa_host :: bytes
  sa_port :: bytes
  sa_len :: nat

datatype accept_result = Accepted int "sockaddr option" | AcceptFailed errno

record 'd world =
  w_errno :: errno
  w_driver :: "'d option"
  w_sends :: "int \<Rightarrow> send_result list"
  w_recvs :: "int \<Rightarrow> recv_result list"
  w_closes :: "errno option list" \<comment> \<open>\<open>None\<close>: \<^verbatim>\<open>close\<close> returned 0\<close>
  w_wire :: "int \<Rightarrow> bytes"
  w_closed :: "int list" \<comment> \<open>the descriptors given to \<^verbatim>\<open>close\<close>, last first\<close>
  w_peername :: "int \<Rightarrow> errno + sockaddr"
  w_getnameinfo :: "sockaddr \<Rightarrow> (bytes \<times> bytes) option"
  w_accepts :: "accept_result list"
  w_fcntls :: "errno option list" \<comment> \<open>\<open>None\<close>: the descriptor became non-blocking\<close>
  w_clock :: "u64 list" \<comment> \<open>the successive values of the clock, in microseconds; then 0\<close>

text \<open>\<^verbatim>\<open>send(fd, buf, len, flags)\<close>: the kernel takes a prefix of the bytes.\<close>

definition sys_send :: "int \<Rightarrow> bytes \<Rightarrow> 'd world \<Rightarrow> int \<times> 'd world" where
  [ws_eval]: "sys_send fd buf w =
    (case w_sends w fd of
       [] \<Rightarrow> (-1, w\<lparr>w_errno := EAGAIN\<rparr>)
     | Sent n # rs \<Rightarrow>
         (int (min n (length buf)),
          w\<lparr>w_sends := (w_sends w)(fd := rs), w_wire := (w_wire w)(fd := w_wire w fd @ take n buf)\<rparr>)
     | SendFailed e # rs \<Rightarrow> (-1, w\<lparr>w_sends := (w_sends w)(fd := rs), w_errno := e\<rparr>))"

text \<open>\<^verbatim>\<open>recv(fd, chunk, n, 0)\<close>: at most \<open>n\<close> bytes; \<open>Received []\<close> is the end of the stream.\<close>

definition sys_recv :: "int \<Rightarrow> nat \<Rightarrow> 'd world \<Rightarrow> bytes option \<times> 'd world" where
  [ws_eval]: "sys_recv fd n w =
    (case w_recvs w fd of
       [] \<Rightarrow> (None, w\<lparr>w_errno := EAGAIN\<rparr>)
     | Received bs # rs \<Rightarrow> (Some (take n bs), w\<lparr>w_recvs := (w_recvs w)(fd := rs)\<rparr>)
     | RecvFailed e # rs \<Rightarrow> (None, w\<lparr>w_recvs := (w_recvs w)(fd := rs), w_errno := e\<rparr>))"

text \<open>\<^verbatim>\<open>while (close(fd) < 0 && errno == EINTR) {}\<close>\<close>

fun close_loop :: "errno option list \<Rightarrow> errno \<Rightarrow> errno option list \<times> errno" where
  "close_loop [] e = ([], e)"
| "close_loop (None # rs) e = (rs, e)"
| "close_loop (Some e' # rs) e = (if e' = EINTR then close_loop rs e' else (rs, e'))"

definition sys_close :: "int \<Rightarrow> 'd world \<Rightarrow> 'd world" where
  [ws_eval]: "sys_close fd w =
    (case close_loop (w_closes w) (w_errno w) of
       (rs, e) \<Rightarrow> w\<lparr>w_closes := rs, w_errno := e, w_closed := fd # w_closed w\<rparr>)"

text \<open>Calls through the function table of the driver.\<close>

definition driver_call_watch ::
    "(int \<Rightarrow> 'd \<times> errno \<Rightarrow> bool \<times> 'd \<times> errno) \<Rightarrow> int \<Rightarrow> 'd \<Rightarrow> 'd world \<Rightarrow> bool \<times> 'd world" where
  [ws_eval]: "driver_call_watch f fd d w =
    (case f fd (d, w_errno w) of (ok, d', e') \<Rightarrow> (ok, w\<lparr>w_driver := Some d', w_errno := e'\<rparr>))"

definition driver_call_unwatch ::
    "(int \<Rightarrow> 'd \<times> errno \<Rightarrow> 'd \<times> errno) \<Rightarrow> int \<Rightarrow> 'd \<Rightarrow> 'd world \<Rightarrow> 'd world" where
  [ws_eval]: "driver_call_unwatch f fd d w =
    (case f fd (d, w_errno w) of (d', e') \<Rightarrow> w\<lparr>w_driver := Some d', w_errno := e'\<rparr>)"

subsection \<open>The connection object\<close>

definition WEBSOCKET_DEFAULT_MAX_QUEUED_BYTES :: nat where
  [ws_eval]: "WEBSOCKET_DEFAULT_MAX_QUEUED_BYTES = 16 * 1024 * 1024"

text \<open>
  A buffer and its length are one list, \<open>c_remote_addr\<close> is \<open>None\<close> while \<^verbatim>\<open>has_remote_addr\<close> is false.
  \<open>c_refcount\<close> is the object's reference count.
\<close>

record websocket_connection =
  c_id :: "bytes option"
  c_remote_address :: "bytes option"
  c_selected_subprotocol :: "bytes option"
  c_remote_addr :: "sockaddr option"
  c_numeric_id :: u64
  c_fd :: int
  c_open :: bool
  c_upgraded :: bool
  c_close_notified :: bool
  c_defer_close :: bool
  c_read_buffer :: bytes
  c_read_buffer_capacity :: nat
  c_write_queue :: "bytes list"
  c_write_queue_capacity :: nat
  c_write_queue_offset :: nat
  c_queued_bytes :: nat
  c_max_queued_bytes :: nat
  c_write_watched :: bool
  c_close_after_write :: bool
  c_fragmented :: bool
  c_fragmented_opcode :: byte
  c_fragmented_payload :: "bytes option"
  c_accepted_at_usec :: u64
  c_last_activity_usec :: u64
  c_last_ping_usec :: u64
  c_awaiting_pong :: bool
  c_refcount :: nat

definition websocket_connection_create_object :: websocket_connection where
  [ws_eval]: "websocket_connection_create_object =
    \<lparr>c_id = None, c_remote_address = None, c_selected_subprotocol = None, c_remote_addr = None,
     c_numeric_id = 0, c_fd = -1, c_open = False, c_upgraded = False, c_close_notified = False,
     c_defer_close = False, c_read_buffer = [], c_read_buffer_capacity = 0,
     c_write_queue = [], c_write_queue_capacity = 0, c_write_queue_offset = 0, c_queued_bytes = 0,
     c_max_queued_bytes = WEBSOCKET_DEFAULT_MAX_QUEUED_BYTES, c_write_watched = False,
     c_close_after_write = False, c_fragmented = False, c_fragmented_opcode = 0,
     c_fragmented_payload = None, c_accepted_at_usec = 0, c_last_activity_usec = 0,
     c_last_ping_usec = 0, c_awaiting_pong = False, c_refcount = 1\<rparr>"


subsection \<open>Address and identifier\<close>

definition websocket_connection_make_id :: "websocket_connection \<Rightarrow> bytes \<times> websocket_connection" where
  [ws_eval]: "websocket_connection_make_id c =
    (case c_id c of
       Some i \<Rightarrow> (i, c)
     | None \<Rightarrow>
         (let i = lit (''0.'' @ decimal (unat (c_numeric_id c))) in (i, c\<lparr>c_id := Some i\<rparr>)))"

definition SIZEOF_SOCKADDR_STORAGE :: nat where
  [ws_eval]: "SIZEOF_SOCKADDR_STORAGE = 128"

definition websocket_connection_cache_remote_address ::
    "websocket_connection \<Rightarrow> 'd world \<Rightarrow> websocket_connection \<times> 'd world" where
  [ws_eval]: "websocket_connection_cache_remote_address c w =
    (if c_remote_addr c \<noteq> None \<or> c_fd c < 0 then (c, w)
     else (case w_peername w (c_fd c) of
             Inl e \<Rightarrow> (c, w\<lparr>w_errno := e\<rparr>)
           | Inr addr \<Rightarrow>
               if sa_len addr \<le> SIZEOF_SOCKADDR_STORAGE then (c\<lparr>c_remote_addr := Some addr\<rparr>, w)
               else (c, w)))"

definition websocket_connection_make_remote_address ::
    "websocket_connection \<Rightarrow> 'd world \<Rightarrow> bytes \<times> websocket_connection \<times> 'd world" where
  [ws_eval]: "websocket_connection_make_remote_address c w =
    (case c_remote_address c of
       Some a \<Rightarrow> (a, c, w)
     | None \<Rightarrow>
         (case (if c_remote_addr c = None \<and> c_fd c \<ge> 0
                then websocket_connection_cache_remote_address c w else (c, w)) of
            (c, w) \<Rightarrow>
              (let a = (case c_remote_addr c of
                          None \<Rightarrow> []
                        | Some addr \<Rightarrow>
                            (case w_getnameinfo w addr of
                               None \<Rightarrow> []
                             | Some (host, port) \<Rightarrow>
                                 if sa_inet6 addr then lit ''['' @ host @ lit '']:'' @ port
                                 else host @ lit '':'' @ port))
               in (a, c\<lparr>c_remote_address := Some a\<rparr>, w))))"

subsection \<open>The write queue\<close>

definition websocket_connection_clear_write_queue ::
    "'d websocket_driver \<Rightarrow> websocket_connection \<Rightarrow> 'd world \<Rightarrow> websocket_connection \<times> 'd world" where
  [ws_eval]: "websocket_connection_clear_write_queue D c w =
    (let c' = c\<lparr>c_write_queue := [], c_write_queue_offset := 0, c_queued_bytes := 0\<rparr>;
         w' = (if c_write_watched c \<and> c_fd c \<ge> 0 then
                 (case w_driver w of
                    None \<Rightarrow> w
                  | Some d \<Rightarrow> driver_call_unwatch (driver_unwatch_write D) (c_fd c) d w)
               else w)
     in (c'\<lparr>c_write_watched := False, c_close_after_write := False\<rparr>, w'))"

definition websocket_connection_close_socket ::
    "'d websocket_driver \<Rightarrow> websocket_connection \<Rightarrow> 'd world \<Rightarrow> websocket_connection \<times> 'd world" where
  [ws_eval]: "websocket_connection_close_socket D c w =
    (case (if c_fd c \<ge> 0 then
             (let fd = c_fd c;
                  w = (case w_driver w of
                         None \<Rightarrow> w
                       | Some d \<Rightarrow> driver_call_unwatch (driver_unwatch D) fd d w)
              in case (if c_refcount c > 1 then websocket_connection_cache_remote_address c w
                       else (c, w)) of
                   (c, w) \<Rightarrow> (c\<lparr>c_fd := -1\<rparr>, sys_close fd w))
           else (c, w)) of
       (c, w) \<Rightarrow>
         (case websocket_connection_clear_write_queue D (c\<lparr>c_open := False\<rparr>) w of
            (c, w) \<Rightarrow>
              (c\<lparr>c_fragmented_payload := None, c_fragmented := False, c_fragmented_opcode := 0,
                 c_accepted_at_usec := 0, c_last_activity_usec := 0, c_last_ping_usec := 0,
                 c_awaiting_pong := False\<rparr>, w)))"

definition websocket_connection_has_pending_writes :: "websocket_connection \<Rightarrow> bool" where
  [ws_eval]: "websocket_connection_has_pending_writes c \<longleftrightarrow> length (c_write_queue c) > 0"

text \<open>Result: the return value, \<^verbatim>\<open>*offset\<close> and \<^verbatim>\<open>*written_bytes\<close>.\<close>

function websocket_connection_write_some ::
    "int \<Rightarrow> bytes \<Rightarrow> nat \<Rightarrow> nat \<Rightarrow> 'd world \<Rightarrow> (bool \<times> nat \<times> nat) \<times> 'd world" where
  "websocket_connection_write_some fd frame offset written_bytes w =
    (if offset < length frame then
       (case sys_send fd (drop offset frame) w of
          (written, w') \<Rightarrow>
            if written > 0 then
              websocket_connection_write_some fd frame (offset + nat written)
                (written_bytes + nat written) w'
            else if written < 0 \<and> w_errno w' = EINTR then
              websocket_connection_write_some fd frame offset written_bytes w'
            else if written < 0 \<and> (w_errno w' = EAGAIN \<or> w_errno w' = EWOULDBLOCK) then
              ((True, offset, written_bytes), w')
            else ((False, offset, written_bytes), w'))
     else ((True, offset, written_bytes), w))"
  by pat_completeness auto
termination
  by (relation "measure (\<lambda>(fd, frame, offset, written_bytes, w). length (w_sends w fd))")
     (auto simp: sys_send_def split: list.splits send_result.splits)

declare websocket_connection_write_some.simps [simp del]

definition websocket_connection_ensure_write_capacity :: "websocket_connection \<Rightarrow> websocket_connection" where
  [ws_eval]: "websocket_connection_ensure_write_capacity c =
    (if length (c_write_queue c) < c_write_queue_capacity c then c
     else c\<lparr>c_write_queue_capacity :=
            (if c_write_queue_capacity c > 0 then c_write_queue_capacity c * 2 else 8)\<rparr>)"

definition websocket_connection_queue_frame ::
    "'d websocket_driver \<Rightarrow> bytes \<Rightarrow> nat \<Rightarrow> websocket_connection \<Rightarrow> 'd world
      \<Rightarrow> bool \<times> websocket_connection \<times> 'd world" where
  [ws_eval]: "websocket_connection_queue_frame D frame offset c w =
    (let remaining = length frame - offset in
     if remaining > c_max_queued_bytes c \<or> c_queued_bytes c > c_max_queued_bytes c - remaining then
       (False, c, w\<lparr>w_errno := ENOBUFS\<rparr>)
     else
       (let c = websocket_connection_ensure_write_capacity c;
            c = (if length (c_write_queue c) = 0 then c\<lparr>c_write_queue_offset := offset\<rparr> else c);
            c = c\<lparr>c_write_queue := c_write_queue c @ [frame],
                  c_queued_bytes := c_queued_bytes c + remaining\<rparr>
        in if \<not> c_write_watched c then
             (case w_driver w of
                None \<Rightarrow> (True, c, w)
              | Some d \<Rightarrow>
                  (case driver_call_watch (driver_watch_write D) (c_fd c) d w of
                     (ok, w) \<Rightarrow> if \<not> ok then (False, c, w)
                                else (True, c\<lparr>c_write_watched := True\<rparr>, w)))
           else (True, c, w)))"

text \<open>The loop of \<^verbatim>\<open>websocket_connection_flush\<close> over the queue: \<open>Inl\<close> is an early return.\<close>

fun flush_queue ::
    "bytes list \<Rightarrow> websocket_connection \<Rightarrow> 'd world
      \<Rightarrow> (bool + unit) \<times> websocket_connection \<times> 'd world" where
  "flush_queue [] c w = (Inr (), c, w)"
| "flush_queue (frame # rest) c w =
    (case websocket_connection_write_some (c_fd c) frame (c_write_queue_offset c) 0 w of
       ((ok, offset, written_bytes), w) \<Rightarrow>
         if \<not> ok then (Inl False, c\<lparr>c_open := False\<rparr>, w)
         else
           (let c = c\<lparr>c_queued_bytes := (if written_bytes > c_queued_bytes c then 0
                                         else c_queued_bytes c - written_bytes)\<rparr>
            in if offset < length frame then (Inl True, c\<lparr>c_write_queue_offset := offset\<rparr>, w)
               else flush_queue rest (c\<lparr>c_write_queue := rest, c_write_queue_offset := 0\<rparr>) w))"

definition websocket_connection_flush ::
    "'d websocket_driver \<Rightarrow> websocket_connection \<Rightarrow> 'd world \<Rightarrow> bool \<times> websocket_connection \<times> 'd world" where
  [ws_eval]: "websocket_connection_flush D c w =
    (if \<not> c_open c \<or> c_fd c < 0 then (False, c, w)
     else
       (case flush_queue (c_write_queue c) c w of
          (Inl ok, c, w) \<Rightarrow> (ok, c, w)
        | (Inr (), c, w) \<Rightarrow>
            (case (if c_write_watched c then
                     (case w_driver w of
                        None \<Rightarrow> (c, w)
                      | Some d \<Rightarrow> (c\<lparr>c_write_watched := False\<rparr>,
                                   driver_call_unwatch (driver_unwatch_write D) (c_fd c) d w))
                   else (c, w)) of
               (c, w) \<Rightarrow>
                 if c_close_after_write c then
                   (case websocket_connection_close_socket D c w of (c, w) \<Rightarrow> (True, c, w))
                 else (True, c, w))))"

definition websocket_connection_close_after_write ::
    "'d websocket_driver \<Rightarrow> websocket_connection \<Rightarrow> 'd world \<Rightarrow> websocket_connection \<times> 'd world" where
  [ws_eval]: "websocket_connection_close_after_write D c w =
    (if \<not> c_open c then (c, w)
     else if \<not> websocket_connection_has_pending_writes c then websocket_connection_close_socket D c w
     else (c\<lparr>c_close_after_write := True\<rparr>, w))"


subsection \<open>Sending frames\<close>

text \<open>
  The server never masks: \<^verbatim>\<open>websocket_protocol_pack_payload\<close> with flags FIN uses no entropy.
\<close>

definition no_entropy :: entropy where
  [ws_eval]: "no_entropy = \<lparr>getrandom_results = [], open_results = [], read_results = []\<rparr>"

definition websocket_connection_send_frame ::
    "'d websocket_driver \<Rightarrow> bytes \<Rightarrow> byte \<Rightarrow> websocket_connection \<Rightarrow> 'd world
      \<Rightarrow> bool \<times> websocket_connection \<times> 'd world" where
  [ws_eval]: "websocket_connection_send_frame D payload opcode c w =
    (if \<not> c_open c \<or> c_close_after_write c \<or> \<not> c_upgraded c \<or> c_fd c < 0 then (False, c, w)
     else
       (case websocket_protocol_pack_payload True no_entropy payload opcode FLAG_FIN of
          Inl _ \<Rightarrow> (False, c, w)
        | Inr frame \<Rightarrow>
            if length frame > c_max_queued_bytes c then (False, c, w\<lparr>w_errno := ENOBUFS\<rparr>)
            else if length (c_write_queue c) > 0 then
              (case websocket_connection_queue_frame D frame 0 c w of
                 (ok, c, w) \<Rightarrow>
                   (ok, if \<not> ok \<and> w_errno w \<noteq> ENOBUFS then c\<lparr>c_open := False\<rparr> else c, w))
            else
              (case websocket_connection_write_some (c_fd c) frame 0 0 w of
                 ((ok, offset, written_bytes), w) \<Rightarrow>
                   (case (if ok \<and> offset < length frame
                          then websocket_connection_queue_frame D frame offset c w
                          else (ok, c, w)) of
                      (ok, c, w) \<Rightarrow>
                        (ok, if \<not> ok \<and> w_errno w \<noteq> ENOBUFS then c\<lparr>c_open := False\<rparr> else c, w)))))"

definition websocket_connection_send_close_frame ::
    "'d websocket_driver \<Rightarrow> int \<Rightarrow> bytes \<Rightarrow> websocket_connection \<Rightarrow> 'd world
      \<Rightarrow> bool \<times> websocket_connection \<times> 'd world" where
  [ws_eval]: "websocket_connection_send_close_frame D code reason c w =
    (if \<not> c_open c \<or> \<not> c_upgraded c \<or> c_fd c < 0 then (False, c, w)
     else
       (case websocket_protocol_close_payload code reason of
          Inl _ \<Rightarrow> (False, c, w)
        | Inr payload \<Rightarrow> websocket_connection_send_frame D payload OPCODE_CLOSE c w))"

definition websocket_connection_open ::
    "'d websocket_driver \<Rightarrow> u64 \<Rightarrow> sockaddr option \<Rightarrow> int \<Rightarrow> websocket_connection \<Rightarrow> 'd world
      \<Rightarrow> websocket_connection \<times> 'd world" where
  [ws_eval]: "websocket_connection_open D i remote_addr fd c w =
    (let c = c\<lparr>c_id := None, c_remote_address := None, c_selected_subprotocol := None,
               c_numeric_id := i,
               c_remote_addr := (case remote_addr of
                  Some addr \<Rightarrow> if sa_len addr \<le> SIZEOF_SOCKADDR_STORAGE then Some addr else None
                | None \<Rightarrow> None),
               c_fd := fd, c_open := True, c_upgraded := False, c_close_notified := False,
               c_defer_close := False, c_read_buffer := []\<rparr>
     in case websocket_connection_clear_write_queue D c w of
          (c, w) \<Rightarrow>
            (c\<lparr>c_max_queued_bytes := WEBSOCKET_DEFAULT_MAX_QUEUED_BYTES,
               c_fragmented_payload := None, c_fragmented := False, c_fragmented_opcode := 0,
               c_last_ping_usec := 0, c_awaiting_pong := False\<rparr>, w))"

text \<open>
  \<^verbatim>\<open>websocket_connection_free_object\<close>: the socket is closed; the strings and buffers that are
  released have no further state.
\<close>

definition websocket_connection_free_object ::
    "'d websocket_driver \<Rightarrow> websocket_connection \<Rightarrow> 'd world \<Rightarrow> 'd world" where
  [ws_eval]: "websocket_connection_free_object D c w = snd (websocket_connection_close_socket D c w)"

subsection \<open>The PHP methods\<close>

text \<open>Magic properties; \<open>None\<close> leaves the property to the standard handler.\<close>

datatype property_value = PropString bytes | PropNull

definition websocket_connection_read_property ::
    "bytes \<Rightarrow> websocket_connection \<Rightarrow> 'd world
      \<Rightarrow> property_value option \<times> websocket_connection \<times> 'd world" where
  [ws_eval]: "websocket_connection_read_property name c w =
    (if name = lit ''id'' then
       (case websocket_connection_make_id c of (i, c) \<Rightarrow> (Some (PropString i), c, w))
     else if name = lit ''remoteAddress'' then
       (case websocket_connection_make_remote_address c w of (a, c, w) \<Rightarrow> (Some (PropString a), c, w))
     else if name = lit ''subprotocol'' then
       (Some (case c_selected_subprotocol c of Some s \<Rightarrow> PropString s | None \<Rightarrow> PropNull), c, w)
     else (None, c, w))"

definition Connection_send ::
    "'d websocket_driver \<Rightarrow> bytes \<Rightarrow> message_type option \<Rightarrow> websocket_connection \<Rightarrow> 'd world
      \<Rightarrow> (php_error + unit) \<times> websocket_connection \<times> 'd world" where
  [ws_eval]: "Connection_send D payload type c w =
    (if \<not> c_open c \<or> c_close_after_write c then
       (Inl (Error ''Cannot send on a closed WebSocket connection''), c, w)
     else if \<not> c_upgraded c then
       (Inl (Error ''Cannot send before the WebSocket connection is upgraded''), c, w)
     else
       (let opcode = (case type of Some t \<Rightarrow> websocket_protocol_message_type_opcode t
                                 | None \<Rightarrow> OPCODE_TEXT) in
        if opcode = OPCODE_CONTINUATION then
          (Inl (ArgumentValueError 2
             (''must not be WebSocket'' @ [CHR 0x5C] @ ''MessageType::Continuation'')), c, w)
        else if websocket_protocol_opcode_is_control (uint opcode) \<and> length payload > 125 then
          (Inl (ArgumentValueError 1 ''control frame payload must be at most 125 bytes''), c, w)
        else if opcode = OPCODE_TEXT \<and> \<not> websocket_protocol_is_valid_utf8 payload then
          (Inl (ArgumentValueError 1 ''must be valid UTF-8 for text frames''), c, w)
        else
          (case websocket_connection_send_frame D payload opcode c w of
             (ok, c, w) \<Rightarrow>
               (if ok then Inr () else Inl (Error ''Failed to send WebSocket frame''), c, w))))"

text \<open>\<^verbatim>\<open>close()\<close> without arguments has code 1000; a reason that is not given is empty.\<close>

definition Connection_close ::
    "'d websocket_driver \<Rightarrow> int option \<Rightarrow> bytes option \<Rightarrow> websocket_connection \<Rightarrow> 'd world
      \<Rightarrow> (php_error + unit) \<times> websocket_connection \<times> 'd world" where
  [ws_eval]: "Connection_close D code_arg reason_arg c w =
    (let code = (case code_arg of Some code \<Rightarrow> code | None \<Rightarrow> 1000);
         reason = (case reason_arg of Some r \<Rightarrow> r | None \<Rightarrow> []) in
     if \<not> websocket_protocol_close_code_is_valid code then
       (Inl (ArgumentValueError 1 ''must be a valid WebSocket close code''), c, w)
     else if length reason > WEBSOCKET_CLOSE_REASON_MAX_LEN then
       (Inl (ArgumentValueError 2 (''must be at most '' @ decimal WEBSOCKET_CLOSE_REASON_MAX_LEN @ '' bytes'')), c, w)
     else if \<not> websocket_protocol_is_valid_utf8 reason then
       (Inl (ArgumentValueError 2 ''must be valid UTF-8''), c, w)
     else if c_defer_close c then (Inr (), c\<lparr>c_open := False\<rparr>, w)
     else
       (case (if c_open c \<and> c_upgraded c then
                snd (websocket_connection_send_close_frame D code reason c w)
              else (c, w)) of
          (c, w) \<Rightarrow>
            (case websocket_connection_close_after_write D c w of (c, w) \<Rightarrow> (Inr (), c, w))))"

definition Connection_isOpen :: "websocket_connection \<Rightarrow> bool" where
  [ws_eval]: "Connection_isOpen c \<longleftrightarrow> c_open c \<and> \<not> c_close_after_write c"


subsection \<open>The bytes on their way\<close>

text \<open>
  \<open>pending c\<close> are the queued bytes that have not been given to the kernel. What the peer will
  see is \<open>w_wire w (c_fd c) @ pending c\<close>.
\<close>

definition pending :: "websocket_connection \<Rightarrow> bytes" where
  [ws_eval]: "pending c = drop (c_write_queue_offset c) (concat (c_write_queue c))"

text \<open>
  The invariant of the write queue: no frame in it is empty, the offset lies in the first one,
  \<^verbatim>\<open>queued_bytes\<close> counts the pending bytes and respects the limit, and the array has room.
\<close>

definition queue_ok :: "websocket_connection \<Rightarrow> bool" where
  [ws_eval]: "queue_ok c \<longleftrightarrow>
     list_all (\<lambda>f. f \<noteq> []) (c_write_queue c)
   \<and> (case c_write_queue c of [] \<Rightarrow> True | f # _ \<Rightarrow> c_write_queue_offset c < length f)
   \<and> c_queued_bytes c = length (pending c) \<and> c_queued_bytes c \<le> c_max_queued_bytes c
   \<and> length (c_write_queue c) \<le> c_write_queue_capacity c"

lemma pending_Nil [simp]: "c_write_queue c = [] \<Longrightarrow> pending c = []"
  by (simp add: pending_def)

lemma pending_Cons:
  "c_write_queue c = f # fs \<Longrightarrow> c_write_queue_offset c \<le> length f \<Longrightarrow>
     pending c = drop (c_write_queue_offset c) f @ concat fs"
  by (simp add: pending_def)

text \<open>What a run of \<^verbatim>\<open>send\<close> calls on \<open>fd\<close> that hands over \<open>bs\<close> changes of the world.\<close>

definition sent_on :: "int \<Rightarrow> bytes \<Rightarrow> 'd world \<Rightarrow> 'd world \<Rightarrow> bool" where
  "sent_on fd bs w w' \<longleftrightarrow>
     w_wire w' = (w_wire w)(fd := w_wire w fd @ bs)
   \<and> (\<exists>n. w_sends w' = (w_sends w)(fd := drop n (w_sends w fd)))
   \<and> w_driver w' = w_driver w \<and> w_recvs w' = w_recvs w \<and> w_closes w' = w_closes w
   \<and> w_closed w' = w_closed w \<and> w_peername w' = w_peername w \<and> w_getnameinfo w' = w_getnameinfo w
   \<and> w_accepts w' = w_accepts w \<and> w_fcntls w' = w_fcntls w \<and> w_clock w' = w_clock w"

lemma sent_on_refl [simp]: "sent_on fd [] w w"
  by (auto simp: sent_on_def intro: exI [of _ 0])

lemma sent_on_errno [simp]: "sent_on fd bs w (w'\<lparr>w_errno := e\<rparr>) = sent_on fd bs w w'"
  by (simp add: sent_on_def)

lemma sent_on_trans:
  assumes "sent_on fd xs w w'" "sent_on fd ys w' w''"
  shows "sent_on fd (xs @ ys) w w''"
proof -
  obtain m n where "w_sends w' = (w_sends w)(fd := drop m (w_sends w fd))"
      "w_sends w'' = (w_sends w')(fd := drop n (w_sends w' fd))"
    using assms by (auto simp: sent_on_def)
  then have "w_sends w'' = (w_sends w)(fd := drop (n + m) (w_sends w fd))" by simp
  then show ?thesis using assms by (auto simp: sent_on_def)
qed

lemma sent_onD:
  assumes "sent_on fd bs w w'"
  shows "w_wire w' = (w_wire w)(fd := w_wire w fd @ bs)" "w_driver w' = w_driver w" "w_recvs w' = w_recvs w"
    "w_closed w' = w_closed w" "w_clock w' = w_clock w" "w_accepts w' = w_accepts w" "w_fcntls w' = w_fcntls w"
    "set (w_sends w' fd) \<subseteq> set (w_sends w fd)" "g \<noteq> fd \<Longrightarrow> w_sends w' g = w_sends w g"
  using assms by (auto simp: sent_on_def dest: in_set_dropD)

text \<open>An answer after which \<^verbatim>\<open>write_some\<close> gives up: an error, or zero bytes taken.\<close>

definition send_gives_up :: "send_result \<Rightarrow> bool" where
  [ws_eval]: "send_gives_up r = (case r of Sent n \<Rightarrow> n = 0 | SendFailed e \<Rightarrow> e \<notin> {EINTR, EAGAIN, EWOULDBLOCK})"

lemma write_some:
  assumes "websocket_connection_write_some fd frame offset n w = ((ok, offset', n'), w')" "offset \<le> length frame"
  shows "offset \<le> offset' \<and> offset' \<le> length frame \<and> n' = n + (offset' - offset)
    \<and> sent_on fd (take (offset' - offset) (drop offset frame)) w w'
    \<and> (ok \<and> offset' < length frame \<longrightarrow> w_errno w' = EAGAIN \<or> w_errno w' = EWOULDBLOCK)
    \<and> (\<not> ok \<longrightarrow> offset' < length frame \<and>
        (Sent 0 \<in> set (w_sends w fd) \<or> SendFailed (w_errno w') \<in> set (w_sends w fd)
          \<and> w_errno w' \<notin> {EINTR, EAGAIN, EWOULDBLOCK}))"
  using assms
proof (induction fd frame offset n w rule: websocket_connection_write_some.induct)
  case (1 fd frame offset n w)
  show ?case
  proof (cases "offset < length frame")
    case False
    then show ?thesis using 1(3,4) by (simp add: websocket_connection_write_some.simps)
  next
    case True
    obtain r w1 where s: "sys_send fd (drop offset frame) w = (r, w1)" by fastforce
    note run = 1(3) [unfolded websocket_connection_write_some.simps [of fd frame offset n w] if_P [OF True] s prod.case]
    consider (empty) "w_sends w fd = []" | (sent) k rs where "w_sends w fd = Sent k # rs"
      | (failed) e rs where "w_sends w fd = SendFailed e # rs"
      by (metis list.exhaust send_result.exhaust)
    then show ?thesis
    proof cases
      case empty
      then have "r = -1" "w1 = w\<lparr>w_errno := EAGAIN\<rparr>" using s by (simp_all add: sys_send_def)
      then have "ok" "offset' = offset" "n' = n" "w' = w\<lparr>w_errno := EAGAIN\<rparr>" using run by auto
      then show ?thesis using 1(4) by simp
    next
      case (sent k rs)
      let ?m = "min k (length frame - offset)"
      have r: "r = int ?m" and w1: "w1 = w\<lparr>w_sends := (w_sends w)(fd := rs),
          w_wire := (w_wire w)(fd := w_wire w fd @ take k (drop offset frame))\<rparr>"
        using s sent by (simp_all add: sys_send_def)
      have so: "sent_on fd (take ?m (drop offset frame)) w w1"
        by (auto simp: sent_on_def w1 sent min_def intro: exI [of _ 1])
      show ?thesis
      proof (cases "k = 0")
        case True
        then have "\<not> ok" "offset' = offset" "n' = n" "w' = w1" using run r by auto
        then show ?thesis using so True sent \<open>offset < length frame\<close> by simp
      next
        case False
        then have pos: "r > 0" using r True by simp
        then have rec: "websocket_connection_write_some fd frame (offset + ?m) (n + ?m) w1 = ((ok, offset', n'), w')"
          using run r by simp
        have le: "offset + ?m \<le> length frame" using True by simp
        note IH = 1(1) [OF True s [symmetric] pos, unfolded r nat_int, OF rec le]
        have "take (offset' - offset) (drop offset frame) =
            take ?m (drop offset frame) @ take (offset' - (offset + ?m)) (drop (offset + ?m) frame)"
        proof -
          have "offset' - offset = ?m + (offset' - (offset + ?m))" using IH by simp
          then have "take (offset' - offset) (drop offset frame) =
              take (?m + (offset' - (offset + ?m))) (drop offset frame)" by simp
          then show ?thesis by (simp add: take_add add.commute)
        qed
        then have "sent_on fd (take (offset' - offset) (drop offset frame)) w w'"
          using sent_on_trans [OF so conjunct1 [OF conjunct2 [OF conjunct2 [OF conjunct2 [OF IH]]]]] by simp
        moreover have "set (w_sends w1 fd) \<subseteq> set (w_sends w fd)" by (auto simp: w1 sent)
        ultimately show ?thesis using IH by auto
      qed
    next
      case (failed e rs)
      have r: "r = -1" and w1: "w1 = w\<lparr>w_sends := (w_sends w)(fd := rs), w_errno := e\<rparr>"
        using s failed by (simp_all add: sys_send_def)
      have so: "sent_on fd [] w w1"
        by (auto simp: sent_on_def w1 failed intro: exI [of _ 1])
      show ?thesis
      proof (cases "e = EINTR")
        case True
        then have rec: "websocket_connection_write_some fd frame offset n w1 = ((ok, offset', n'), w')"
          using run r w1 by simp
        have c: "\<not> r > 0" "r < 0 \<and> w_errno w1 = EINTR" using r w1 True by simp_all
        note IH = 1(2) [OF \<open>offset < length frame\<close> s [symmetric] c rec 1(4)]
        have "set (w_sends w1 fd) \<subseteq> set (w_sends w fd)" by (auto simp: w1 failed)
        then show ?thesis using IH sent_on_trans [OF so] by auto
      next
        case False
        then have "(ok \<longleftrightarrow> e = EAGAIN \<or> e = EWOULDBLOCK)" "offset' = offset" "n' = n" "w' = w1"
          using run r w1 by (auto split: if_splits)
        then show ?thesis using so False w1 failed 1(4) True by auto
      qed
    qed
  qed
qed


subsection \<open>The operations on the queue\<close>

text \<open>What the driver, \<^verbatim>\<open>close\<close> and \<^verbatim>\<open>getpeername\<close> may change of the world.\<close>

definition quiet :: "'d world \<Rightarrow> 'd world \<Rightarrow> bool" where
  "quiet w w' \<longleftrightarrow>
     w_wire w' = w_wire w \<and> w_sends w' = w_sends w \<and> w_recvs w' = w_recvs w \<and> w_closed w' = w_closed w
   \<and> w_peername w' = w_peername w \<and> w_getnameinfo w' = w_getnameinfo w
   \<and> w_accepts w' = w_accepts w \<and> w_fcntls w' = w_fcntls w \<and> w_clock w' = w_clock w
   \<and> (w_driver w' = None \<longleftrightarrow> w_driver w = None)"

lemma quiet_refl [simp]: "quiet w w"
  by (simp add: quiet_def)

lemma quiet_errno [simp]: "quiet w (w'\<lparr>w_errno := e\<rparr>) = quiet w w'" "quiet w (w'\<lparr>w_closes := cs\<rparr>) = quiet w w'"
  by (simp_all add: quiet_def)

lemma quiet_trans: "quiet w w' \<Longrightarrow> quiet w' w'' \<Longrightarrow> quiet w w''"
  by (simp add: quiet_def)

lemma quietD:
  assumes "quiet w w'"
  shows "w_wire w' = w_wire w" "w_sends w' = w_sends w" "w_recvs w' = w_recvs w" "w_closed w' = w_closed w"
    "w_driver w' = None \<longleftrightarrow> w_driver w = None" "w_clock w' = w_clock w"
    "w_accepts w' = w_accepts w" "w_fcntls w' = w_fcntls w"
  using assms by (simp_all add: quiet_def)

lemma driver_call_quiet:
  "w_driver w = Some d \<Longrightarrow> quiet w (driver_call_unwatch f fd d w)"
  "w_driver w = Some d \<Longrightarrow> quiet w (snd (driver_call_watch g fd d w))"
  unfolding driver_call_unwatch_def driver_call_watch_def quiet_def
  by (simp_all split: prod.split)

lemma clear_write_queue:
  assumes "websocket_connection_clear_write_queue D c w = (c', w')"
  shows "c' = c\<lparr>c_write_queue := [], c_write_queue_offset := 0, c_queued_bytes := 0,
      c_write_watched := False, c_close_after_write := False\<rparr>" "quiet w w'"
  using assms driver_call_quiet(1) [of w _ "driver_unwatch_write D" "c_fd c"]
  by (auto simp: websocket_connection_clear_write_queue_def Let_def split: option.splits)

lemma cache_remote_address:
  obtains a e where "websocket_connection_cache_remote_address c w = (c\<lparr>c_remote_addr := a\<rparr>, w\<lparr>w_errno := e\<rparr>)"
proof -
  have "\<exists>a e. websocket_connection_cache_remote_address c w = (c\<lparr>c_remote_addr := a\<rparr>, w\<lparr>w_errno := e\<rparr>)"
  proof (cases "c_remote_addr c \<noteq> None \<or> c_fd c < 0")
    case True
    then show ?thesis
      by (intro exI [of _ "c_remote_addr c"] exI [of _ "w_errno w"]) (auto simp: websocket_connection_cache_remote_address_def)
  next
    case False
    then show ?thesis
      by (cases "w_peername w (c_fd c)")
         (auto simp: websocket_connection_cache_remote_address_def
           intro: exI [of _ "c_remote_addr c"] exI [of _ "w_errno w"])
  qed
  then show thesis using that by blast
qed

text \<open>Closing the socket: what is left of the connection, and the one descriptor it closes.\<close>

lemma close_socket:
  assumes "websocket_connection_close_socket D c w = (c', w')"
  obtains a w1 where "quiet w w1" "w' = w1\<lparr>w_closed := (if c_fd c \<ge> 0 then c_fd c # w_closed w else w_closed w)\<rparr>"
    "c' = c\<lparr>c_fd := (if c_fd c \<ge> 0 then -1 else c_fd c), c_remote_addr := a, c_open := False,
      c_write_queue := [], c_write_queue_offset := 0, c_queued_bytes := 0, c_write_watched := False,
      c_close_after_write := False, c_fragmented_payload := None, c_fragmented := False,
      c_fragmented_opcode := 0, c_accepted_at_usec := 0, c_last_activity_usec := 0, c_last_ping_usec := 0,
      c_awaiting_pong := False\<rparr>"
proof (cases "c_fd c \<ge> 0")
  case False
  then obtain c2 w2 where q: "websocket_connection_clear_write_queue D (c\<lparr>c_open := False\<rparr>) w = (c2, w2)" by fastforce
  note cl = clear_write_queue [OF q]
  have "w2 = w2\<lparr>w_closed := w_closed w\<rparr>" using quietD(4) [OF cl(2)] by simp
  then show thesis using assms False q cl
    by (intro that [of w2 "c_remote_addr c"]) (auto simp: websocket_connection_close_socket_def)
next
  case True
  define w1 where "w1 = (case w_driver w of None \<Rightarrow> w | Some d \<Rightarrow> driver_call_unwatch (driver_unwatch D) (c_fd c) d w)"
  have q1: "quiet w w1" unfolding w1_def by (auto intro: driver_call_quiet split: option.split)
  obtain a e where ca: "(if c_refcount c > 1 then websocket_connection_cache_remote_address c w1 else (c, w1))
      = (c\<lparr>c_remote_addr := a\<rparr>, w1\<lparr>w_errno := e\<rparr>)"
  proof (cases "c_refcount c > 1")
    case False
    then show thesis by (intro that [of "c_remote_addr c" "w_errno w1"]) simp
  next
    case True
    obtain a e where "websocket_connection_cache_remote_address c w1 = (c\<lparr>c_remote_addr := a\<rparr>, w1\<lparr>w_errno := e\<rparr>)"
      by (rule cache_remote_address)
    then show thesis using True by (intro that) simp
  qed
  obtain cs e' where cs: "close_loop (w_closes w1) e = (cs, e')" by fastforce
  define w2 where "w2 = w1\<lparr>w_errno := e', w_closes := cs\<rparr>"
  have q2: "quiet w w2"
    using q1 by (simp add: w2_def)
  have sc: "sys_close (c_fd c) (w1\<lparr>w_errno := e\<rparr>) = w2\<lparr>w_closed := c_fd c # w_closed w\<rparr>"
    using cs quietD(4) [OF q1] by (simp add: sys_close_def w2_def)
  obtain c3 w3 where q: "websocket_connection_clear_write_queue D (c\<lparr>c_remote_addr := a, c_fd := -1, c_open := False\<rparr>)
      (w2\<lparr>w_closed := c_fd c # w_closed w\<rparr>) = (c3, w3)" by fastforce
  note cl = clear_write_queue [OF q]
  have w3: "w3 = w2\<lparr>w_closed := c_fd c # w_closed w\<rparr>"
    using q by (simp add: websocket_connection_clear_write_queue_def Let_def)
  have "websocket_connection_close_socket D c w =
      (c3\<lparr>c_fragmented_payload := None, c_fragmented := False, c_fragmented_opcode := 0,
          c_accepted_at_usec := 0, c_last_activity_usec := 0, c_last_ping_usec := 0, c_awaiting_pong := False\<rparr>, w3)"
    unfolding websocket_connection_close_socket_def Let_def w1_def [symmetric] if_P [OF True] ca prod.case sc
    using q by simp
  then show thesis using assms True cl(1) w3 q2 by (intro that [of w2 a]) simp_all
qed


lemma concat_drop_first: "n \<le> length f \<Longrightarrow> drop n (concat (f # fs)) = drop n f @ concat fs"
  by simp

lemma queue_ok_cong:
  assumes "c_write_queue c' = c_write_queue c" "c_write_queue_offset c' = c_write_queue_offset c"
    "c_queued_bytes c' = c_queued_bytes c" "c_max_queued_bytes c' = c_max_queued_bytes c"
    "c_write_queue_capacity c' = c_write_queue_capacity c"
  shows "queue_ok c' = queue_ok c" "pending c' = pending c"
  unfolding queue_ok_def pending_def assms by (rule refl)+

lemma queue_ok_update [simp]:
  "queue_ok (c\<lparr>c_write_watched := b\<rparr>) = queue_ok c" "pending (c\<lparr>c_write_watched := b\<rparr>) = pending c"
  "queue_ok (c\<lparr>c_open := b\<rparr>) = queue_ok c" "pending (c\<lparr>c_open := b\<rparr>) = pending c"
  "queue_ok (c\<lparr>c_close_after_write := b\<rparr>) = queue_ok c" "pending (c\<lparr>c_close_after_write := b\<rparr>) = pending c"
  by (rule queue_ok_cong; simp)+

text \<open>\<^verbatim>\<open>queue_frame\<close>: a frame is queued whole, from \<open>offset\<close> on, or refused with \<^verbatim>\<open>ENOBUFS\<close>.\<close>

definition queue_limit_hit :: "bytes \<Rightarrow> nat \<Rightarrow> websocket_connection \<Rightarrow> bool" where
  "queue_limit_hit frame offset c \<longleftrightarrow>
     c_queued_bytes c + (length frame - offset) > c_max_queued_bytes c"

lemma queue_frame:
  assumes "websocket_connection_queue_frame D frame offset c w = (ok, c', w')" "queue_ok c" "offset < length frame"
    and "c_write_queue c \<noteq> [] \<longrightarrow> offset = 0"
  shows "queue_limit_hit frame offset c \<Longrightarrow> \<not> ok \<and> c' = c \<and> w' = w\<lparr>w_errno := ENOBUFS\<rparr>"
    "\<not> queue_limit_hit frame offset c \<Longrightarrow> queue_ok c' \<and> pending c' = pending c @ drop offset frame \<and> quiet w w'
       \<and> (\<exists>cap off ww. c' = c\<lparr>c_write_queue := c_write_queue c @ [frame], c_write_queue_capacity := cap,
            c_write_queue_offset := off, c_queued_bytes := c_queued_bytes c + (length frame - offset), c_write_watched := ww\<rparr>)
       \<and> (\<not> ok \<longrightarrow> (\<exists>d. w_driver w = Some d \<and> \<not> c_write_watched c
             \<and> fst (driver_watch_write D (c_fd c) (d, w_errno w)) = False
             \<and> w_errno w' = snd (snd (driver_watch_write D (c_fd c) (d, w_errno w)))))"
proof -
  have lim: "(length frame - offset > c_max_queued_bytes c \<or> c_queued_bytes c > c_max_queued_bytes c - (length frame - offset))
      \<longleftrightarrow> queue_limit_hit frame offset c"
    using assms(2) by (auto simp: queue_limit_hit_def queue_ok_def)
  show "\<not> ok \<and> c' = c \<and> w' = w\<lparr>w_errno := ENOBUFS\<rparr>" if "queue_limit_hit frame offset c"
    using assms(1) that unfolding websocket_connection_queue_frame_def Let_def lim by auto
  assume nl: "\<not> queue_limit_hit frame offset c"
  define c2 where "c2 = (let c = websocket_connection_ensure_write_capacity c;
            c = (if length (c_write_queue c) = 0 then c\<lparr>c_write_queue_offset := offset\<rparr> else c)
        in c\<lparr>c_write_queue := c_write_queue c @ [frame], c_queued_bytes := c_queued_bytes c + (length frame - offset)\<rparr>)"
  define cap where "cap = (if length (c_write_queue c) < c_write_queue_capacity c then c_write_queue_capacity c
      else if c_write_queue_capacity c > 0 then c_write_queue_capacity c * 2 else 8)"
  define off where "off = (if c_write_queue c = [] then offset else c_write_queue_offset c)"
  have c2: "c2 = c\<lparr>c_write_queue := c_write_queue c @ [frame], c_write_queue_capacity := cap,
            c_write_queue_offset := off, c_queued_bytes := c_queued_bytes c + (length frame - offset)\<rparr>"
    by (simp add: c2_def Let_def websocket_connection_ensure_write_capacity_def cap_def off_def)
  have cap: "length (c_write_queue c) < cap" using assms(2) by (auto simp: cap_def queue_ok_def)
  have pend: "pending c2 = pending c @ drop offset frame"
    using assms(2,3,4) by (cases "c_write_queue c") (auto simp: c2 pending_def off_def queue_ok_def)
  have ok2: "queue_ok c2"
    using assms(2,3) nl pend cap
    by (cases "c_write_queue c") (auto simp: queue_ok_def c2 off_def queue_limit_hit_def)
  have run: "(if \<not> c_write_watched c then
             (case w_driver w of
                None \<Rightarrow> (True, c2, w)
              | Some d \<Rightarrow>
                  (case driver_call_watch (driver_watch_write D) (c_fd c) d w of
                     (ok, w) \<Rightarrow> if \<not> ok then (False, c2, w) else (True, c2\<lparr>c_write_watched := True\<rparr>, w)))
           else (True, c2, w)) = (ok, c', w')"
  proof -
    have e: "c_write_watched c2 = c_write_watched c" "c_fd c2 = c_fd c" by (simp_all add: c2)
    show ?thesis
      using assms(1) unfolding websocket_connection_queue_frame_def Let_def lim if_not_P [OF nl]
        c2_def [unfolded Let_def, symmetric] e .
  qed
  have c': "\<exists>b. c' = c2\<lparr>c_write_watched := b\<rparr>" and q: "quiet w w'"
  proof -
    have "(\<exists>b. c' = c2\<lparr>c_write_watched := b\<rparr>) \<and> quiet w w'"
    proof (cases "\<not> c_write_watched c \<and> w_driver w \<noteq> None")
      case False
      then have "c' = c2" "w' = w" using run by (auto split: if_splits)
      then show ?thesis by (auto intro: exI [of _ "c_write_watched c2"])
    next
      case True
      then obtain d where d: "w_driver w = Some d" by blast
      obtain b w1 where call: "driver_call_watch (driver_watch_write D) (c_fd c) d w = (b, w1)" by fastforce
      have "quiet w w1" using driver_call_quiet(2) [OF d, of "driver_watch_write D" "c_fd c"] call by simp
      moreover have "w' = w1" "c' = c2 \<or> c' = c2\<lparr>c_write_watched := True\<rparr>"
        using run True d call by (auto split: if_splits)
      ultimately show ?thesis by (auto intro: exI [of _ "c_write_watched c2"] exI [of _ True])
    qed
    then show "\<exists>b. c' = c2\<lparr>c_write_watched := b\<rparr>" "quiet w w'" by simp_all
  qed
  then obtain b where c': "c' = c2\<lparr>c_write_watched := b\<rparr>" by blast
  have fail: "\<exists>d. w_driver w = Some d \<and> \<not> c_write_watched c
             \<and> fst (driver_watch_write D (c_fd c) (d, w_errno w)) = False
             \<and> w_errno w' = snd (snd (driver_watch_write D (c_fd c) (d, w_errno w)))" if "\<not> ok"
    using run that by (auto simp: driver_call_watch_def split: if_splits option.splits prod.splits)
  show "queue_ok c' \<and> pending c' = pending c @ drop offset frame \<and> quiet w w'
       \<and> (\<exists>cap off ww. c' = c\<lparr>c_write_queue := c_write_queue c @ [frame], c_write_queue_capacity := cap,
            c_write_queue_offset := off, c_queued_bytes := c_queued_bytes c + (length frame - offset), c_write_watched := ww\<rparr>)
       \<and> (\<not> ok \<longrightarrow> (\<exists>d. w_driver w = Some d \<and> \<not> c_write_watched c
             \<and> fst (driver_watch_write D (c_fd c) (d, w_errno w)) = False
             \<and> w_errno w' = snd (snd (driver_watch_write D (c_fd c) (d, w_errno w)))))"
    using ok2 pend q fail unfolding c' by (auto simp: c2)
qed


subsection \<open>Sending a frame\<close>

text \<open>The frames of the server: FIN set, no reserved bit, no mask.\<close>

definition server_frame :: "bytes \<Rightarrow> byte \<Rightarrow> bytes" where
  [ws_eval]: "server_frame payload opcode = raw_frame ((opcode AND 0x0f) OR 0x80) False [] payload"

lemma pack_server_frame:
  "websocket_protocol_pack_payload le k payload opcode FLAG_FIN = Inr (server_frame payload opcode)"
  by (simp add: websocket_protocol_pack_payload_def server_frame_def raw_frame_def frame_first_byte_def Let_def)

lemma length_server_frame: "2 \<le> length (server_frame payload opcode)" "server_frame payload opcode \<noteq> []"
  by (auto simp: server_frame_def header_length_def raw_frame_def)

text \<open>The fields a send leaves alone.\<close>

definition same_but_queue :: "websocket_connection \<Rightarrow> websocket_connection \<Rightarrow> bool" where
  "same_but_queue c c' \<longleftrightarrow> (\<exists>q cap off n ww op. c' = c\<lparr>c_open := op, c_write_queue := q, c_write_queue_capacity := cap,
      c_write_queue_offset := off, c_queued_bytes := n, c_write_watched := ww\<rparr>)"

lemma same_but_queueI:
  "c' = c\<lparr>c_open := c_open c', c_write_queue := c_write_queue c', c_write_queue_capacity := c_write_queue_capacity c',
      c_write_queue_offset := c_write_queue_offset c', c_queued_bytes := c_queued_bytes c',
      c_write_watched := c_write_watched c'\<rparr> \<Longrightarrow> same_but_queue c c'"
  unfolding same_but_queue_def by blast

lemma same_but_queue_refl [simp]: "same_but_queue c c"
  by (rule same_but_queueI) simp

lemma same_but_queueD:
  assumes "same_but_queue c c'"
  shows "c_fd c' = c_fd c" "c_upgraded c' = c_upgraded c" "c_close_after_write c' = c_close_after_write c"
    "c_read_buffer c' = c_read_buffer c" "c_close_notified c' = c_close_notified c" "c_fragmented c' = c_fragmented c"
    "c_fragmented_payload c' = c_fragmented_payload c" "c_fragmented_opcode c' = c_fragmented_opcode c"
    "c_max_queued_bytes c' = c_max_queued_bytes c" "c_awaiting_pong c' = c_awaiting_pong c"
    "c_last_ping_usec c' = c_last_ping_usec c" "c_last_activity_usec c' = c_last_activity_usec c"
    "c_defer_close c' = c_defer_close c" "c_read_buffer_capacity c' = c_read_buffer_capacity c"
    "c_accepted_at_usec c' = c_accepted_at_usec c" "c_numeric_id c' = c_numeric_id c"
  using assms by (auto simp: same_but_queue_def)

text \<open>The kernel or the driver says "no buffer space" for a reason of its own.\<close>

definition foreign_enobufs :: "'d websocket_driver \<Rightarrow> websocket_connection \<Rightarrow> 'd world \<Rightarrow> bool" where
  "foreign_enobufs D c w \<longleftrightarrow>
     Sent 0 \<in> set (w_sends w (c_fd c)) \<or> SendFailed ENOBUFS \<in> set (w_sends w (c_fd c))
   \<or> (\<exists>d e. \<not> fst (driver_watch_write D (c_fd c) (d, e)) \<and> snd (snd (driver_watch_write D (c_fd c) (d, e))) = ENOBUFS)"

lemma same_but_queue_open: "same_but_queue c c' \<Longrightarrow> same_but_queue c (c'\<lparr>c_open := b\<rparr>)"
  by (rule same_but_queueI) (auto simp: same_but_queue_def)

lemma queue_frame_room:
  assumes "websocket_connection_queue_frame D frame offset c w = (ok, c', w')" "queue_ok c" "offset < length frame"
    and "c_write_queue c \<noteq> [] \<longrightarrow> offset = 0" "\<not> queue_limit_hit frame offset c"
  shows "same_but_queue c c'" "c_open c' = c_open c" "queue_ok c'" "pending c' = pending c @ drop offset frame" "quiet w w'"
    "\<not> ok \<Longrightarrow> (\<exists>d. \<not> fst (driver_watch_write D (c_fd c) (d, w_errno w))
             \<and> w_errno w' = snd (snd (driver_watch_write D (c_fd c) (d, w_errno w))))"
proof -
  note q = queue_frame(2) [OF assms]
  from q show "queue_ok c'" "pending c' = pending c @ drop offset frame" "quiet w w'" by simp_all
  from q have e: "\<exists>cap off ww. c' = c\<lparr>c_write_queue := c_write_queue c @ [frame], c_write_queue_capacity := cap,
            c_write_queue_offset := off, c_queued_bytes := c_queued_bytes c + (length frame - offset), c_write_watched := ww\<rparr>"
    by (elim conjE)
  then show "c_open c' = c_open c" by auto
  from e show "same_but_queue c c'" by (intro same_but_queueI) auto
  show "\<exists>d. \<not> fst (driver_watch_write D (c_fd c) (d, w_errno w))
             \<and> w_errno w' = snd (snd (driver_watch_write D (c_fd c) (d, w_errno w)))" if "\<not> ok"
    using q that by auto
qed

lemma send_frame:
  assumes "websocket_connection_send_frame D payload opcode c w = (ok, c', w')" "queue_ok c"
  defines "frame \<equiv> server_frame payload opcode" and "fd \<equiv> c_fd c"
  shows "queue_ok c' \<and> same_but_queue c c' \<and> (ok \<longrightarrow> c_open c \<and> c_open c')
    \<and> (\<exists>w1 bs. sent_on fd bs w w1 \<and> quiet w1 w'
       \<and> (ok \<longrightarrow> bs @ pending c' = pending c @ frame)
       \<and> (\<not> ok \<and> c_open c' \<longrightarrow> (bs = [] \<and> pending c' = pending c) \<or> foreign_enobufs D c w))"
proof (cases "\<not> c_open c \<or> c_close_after_write c \<or> \<not> c_upgraded c \<or> c_fd c < 0 \<or> length frame > c_max_queued_bytes c")
  case True
  then have "\<not> ok" "c' = c" "w' = w \<or> w' = w\<lparr>w_errno := ENOBUFS\<rparr>"
    using assms(1) by (auto simp: websocket_connection_send_frame_def pack_server_frame frame_def split: if_splits)
  then show ?thesis using assms(2) by (auto intro!: exI [of _ w] exI [of _ "[]"])
next
  case False
  then have c: "\<not> (\<not> c_open c \<or> c_close_after_write c \<or> \<not> c_upgraded c \<or> c_fd c < 0)"
    "\<not> length frame > c_max_queued_bytes c" "c_open c" by auto
  have fr: "0 < length frame" using length_server_frame [of payload opcode] by (simp add: frame_def)
  note run = assms(1) [unfolded websocket_connection_send_frame_def if_not_P [OF c(1)] pack_server_frame sum.case
      frame_def [symmetric] if_not_P [OF c(2)]]
  show ?thesis
  proof (cases "length (c_write_queue c) > 0")
    case True
    obtain ok1 c1 w1 where q: "websocket_connection_queue_frame D frame 0 c w = (ok1, c1, w1)" by (metis prod_cases3)
    have r: "ok = ok1" "w' = w1" "c' = (if \<not> ok \<and> w_errno w' \<noteq> ENOBUFS then c1\<lparr>c_open := False\<rparr> else c1)"
      using run True q by (auto split: if_splits)
    note qf = queue_frame [OF q assms(2) fr]
    show ?thesis
    proof (cases "queue_limit_hit frame 0 c")
      case True
      then show ?thesis using qf(1) r assms(2) by (auto intro!: exI [of _ w] exI [of _ "[]"])
    next
      case False
      have "c_write_queue c \<noteq> [] \<longrightarrow> 0 = (0::nat)" by simp
      note q1 = queue_frame_room [OF q assms(2) fr this False]
      have sb: "same_but_queue c c'" using same_but_queue_open [OF q1(1)] q1(1) r(3) by simp
      have "c_open c1" using c(3) q1(2) by simp
      moreover have "\<not> ok \<and> c_open c' \<Longrightarrow> foreign_enobufs D c w"
        using q1(6) r unfolding foreign_enobufs_def by (auto split: if_splits)
      ultimately show ?thesis
        using q1(3-5) r sb c(3) by (intro conjI exI [of _ w] exI [of _ "[]"]) (simp_all split: if_splits)
    qed
  next
    case False
    then have empty: "c_write_queue c = []" by simp
    obtain ok1 off n w1 where ws: "websocket_connection_write_some (c_fd c) frame 0 0 w = ((ok1, off, n), w1)"
      by (metis prod.collapse)
    note wr = write_some [OF ws, simplified]
    note run2 = run [unfolded if_not_P [OF False] ws prod.case]
    show ?thesis
    proof (cases "ok1 \<and> off < length frame")
      case False
      then have r: "ok = ok1" "w' = w1" "c' = (if \<not> ok \<and> w_errno w' \<noteq> ENOBUFS then c\<lparr>c_open := False\<rparr> else c)"
        using run2 by (auto split: if_splits)
      have "\<not> ok \<and> c_open c' \<Longrightarrow> foreign_enobufs D c w"
        using wr r unfolding foreign_enobufs_def by (auto split: if_splits)
      moreover have "same_but_queue c c'"
        by (rule same_but_queueI) (simp add: r)
      moreover have "ok \<Longrightarrow> take off frame = frame" using r False wr by auto
      ultimately show ?thesis
        using wr r False assms(2) c(3) empty by (intro conjI exI [of _ w1] exI [of _ "take off frame"]) (auto simp: fd_def)
    next
      case True
      obtain ok2 c2 w2 where q: "websocket_connection_queue_frame D frame off c w1 = (ok2, c2, w2)" by (metis prod_cases3)
      have r: "ok = ok2" "w' = w2" "c' = (if \<not> ok \<and> w_errno w' \<noteq> ENOBUFS then c2\<lparr>c_open := False\<rparr> else c2)"
        using run2 True q by (auto split: if_splits)
      have nl: "\<not> queue_limit_hit frame off c"
        using c(2) assms(2) empty by (simp add: queue_limit_hit_def queue_ok_def)
      have "c_write_queue c \<noteq> [] \<longrightarrow> off = 0" using empty by simp
      note q1 = queue_frame_room [OF q assms(2) conjunct2 [OF True] this nl]
      have sb: "same_but_queue c c'" using same_but_queue_open [OF q1(1)] q1(1) r(3) by simp
      have "c_open c2" using c(3) q1(2) by simp
      moreover have "\<not> ok \<and> c_open c' \<Longrightarrow> foreign_enobufs D c w"
        using q1(6) r unfolding foreign_enobufs_def by (auto split: if_splits)
      moreover have "queue_ok c'" "pending c' = drop off frame" using q1(3,4) r empty by simp_all
      ultimately show ?thesis
        using wr r sb c(3) q1(5) empty by (intro conjI exI [of _ w1] exI [of _ "take off frame"]) (auto simp: fd_def)
    qed
  qed
qed



text \<open>A connection and a world to evaluate on.\<close>

definition example_driver :: "unit websocket_driver" where
  [ws_eval]: "example_driver = \<lparr>driver_name = [], driver_init = (\<lambda>(d, e). (True, d, e)),
     driver_shutdown = (\<lambda>de. de), driver_watch_read = (\<lambda>_ (d, e). (True, d, e)),
     driver_watch_write = (\<lambda>_ (d, e). (True, d, e)), driver_unwatch_write = (\<lambda>_ de. de),
     driver_unwatch = (\<lambda>_ de. de), driver_wait = (\<lambda>_ (d, e). ((0, None), d, e))\<rparr>"

definition example_world :: "send_result list \<Rightarrow> recv_result list \<Rightarrow> unit world" where
  [ws_eval]: "example_world sends recvs =
    \<lparr>w_errno = NoErrno, w_driver = Some (), w_sends = (\<lambda>_. sends), w_recvs = (\<lambda>_. recvs), w_closes = [],
     w_wire = (\<lambda>_. []), w_closed = [], w_peername = (\<lambda>_. Inl EBADF), w_getnameinfo = (\<lambda>_. None),
     w_accepts = [], w_fcntls = [], w_clock = []\<rparr>"

definition example_connection :: websocket_connection where
  [ws_eval]: "example_connection =
    websocket_connection_create_object\<lparr>c_fd := 7, c_open := True, c_upgraded := True, c_numeric_id := 1\<rparr>"

lemmas example_eval = example_driver_def example_world_def example_connection_def
  websocket_connection_create_object_def WEBSOCKET_DEFAULT_MAX_QUEUED_BYTES_def

lemma example_queue_ok: "queue_ok example_connection" "pending example_connection = []"
  by (simp_all add: queue_ok_def pending_def example_eval)



lemma same_but_queue_watched: "same_but_queue c c' \<Longrightarrow> same_but_queue c (c'\<lparr>c_write_watched := b\<rparr>)"
  by (rule same_but_queueI) (auto simp: same_but_queue_def)

subsection \<open>Flushing the queue\<close>

lemma flush_queue:
  assumes "flush_queue (c_write_queue c) c w = (r, c', w')" "queue_ok c"
  shows "queue_ok c' \<and> same_but_queue c c' \<and> c_write_watched c' = c_write_watched c
    \<and> (\<exists>bs. sent_on (c_fd c) bs w w' \<and> (if r = Inl False then prefix bs (pending c) else bs @ pending c' = pending c))
    \<and> (case r of Inr _ \<Rightarrow> c_write_queue c' = [] \<and> c_open c' = c_open c
       | Inl ok \<Rightarrow> c_write_queue c' \<noteq> [] \<and> (if ok then c_open c' = c_open c else \<not> c_open c'))"
  using assms
proof (induction "c_write_queue c" arbitrary: c w)
  case Nil
  then have "c' = c" "w' = w" "r = Inr ()" by (simp_all flip: Nil(1))
  moreover have "sent_on (c_fd c) [] w w" by simp
  ultimately show ?case using Nil by (auto simp flip: Nil(1) intro: exI [of _ "[]"])
next
  case (Cons f fs)
  let ?off = "c_write_queue_offset c"
  have q: "f \<noteq> []" "list_all (\<lambda>f. f \<noteq> []) fs" "?off < length f" "c_queued_bytes c = length (pending c)"
    "c_queued_bytes c \<le> c_max_queued_bytes c" "Suc (length fs) \<le> c_write_queue_capacity c"
    using Cons.prems(2) by (simp_all add: queue_ok_def flip: Cons.hyps(2))
  have pend: "pending c = drop ?off f @ concat fs" using q(3) by (simp add: pending_def flip: Cons.hyps(2))
  obtain ok off n w1 where ws: "websocket_connection_write_some (c_fd c) f ?off 0 w = ((ok, off, n), w1)"
    by (metis prod.collapse)
  have "?off \<le> length f" using q(3) by simp
  note wr = write_some [OF ws this]
  have run: "(if \<not> ok then (Inl False, c\<lparr>c_open := False\<rparr>, w1)
      else (let c = c\<lparr>c_queued_bytes := (if n > c_queued_bytes c then 0 else c_queued_bytes c - n)\<rparr>
            in if off < length f then (Inl True, c\<lparr>c_write_queue_offset := off\<rparr>, w1)
               else flush_queue fs (c\<lparr>c_write_queue := fs, c_write_queue_offset := 0\<rparr>) w1)) = (r, c', w')"
    using Cons.prems(1) ws by (simp flip: Cons.hyps(2))
  have n: "n = off - ?off" "n \<le> c_queued_bytes c" using wr q(4) pend by auto
  show ?case
  proof (cases "ok")
    case False
    then have r: "r = Inl False" "c' = c\<lparr>c_open := False\<rparr>" "w' = w1" using run by auto
    have "take (off - ?off) (drop ?off f) @ (drop (off - ?off) (drop ?off f) @ concat fs) = pending c"
      unfolding pend append_assoc [symmetric] append_take_drop_id ..
    then have "prefix (take (off - ?off) (drop ?off f)) (pending c)" by (metis prefixI)
    moreover have "same_but_queue c c'" by (rule same_but_queueI) (simp add: r)
    ultimately show ?thesis using wr Cons.prems(2) by (auto simp: r simp flip: Cons.hyps(2))
  next
    case True
    define c1 where "c1 = c\<lparr>c_queued_bytes := c_queued_bytes c - n\<rparr>"
    have run1: "(if off < length f then (Inl True, c1\<lparr>c_write_queue_offset := off\<rparr>, w1)
        else flush_queue fs (c1\<lparr>c_write_queue := fs, c_write_queue_offset := 0\<rparr>) w1) = (r, c', w')"
    proof -
      have e: "c\<lparr>c_queued_bytes := (if n > c_queued_bytes c then 0 else c_queued_bytes c - n)\<rparr> = c1"
        using n(2) by (simp add: c1_def)
      have nn: "\<not> \<not> ok" using True by simp
      show ?thesis using run unfolding if_not_P [OF nn] Let_def e .
    qed
    show ?thesis
    proof (cases "off < length f")
      case True
      then have r: "r = Inl True" "c' = c1\<lparr>c_write_queue_offset := off\<rparr>" "w' = w1" using run1 by auto
      have q': "c_write_queue c' = f # fs" "c_write_queue_offset c' = off" by (simp_all add: r c1_def Cons.hyps(2))
      have p': "pending c' = drop off f @ concat fs" using True q' by (simp add: pending_def)
      have "take (off - ?off) (drop ?off f) @ pending c' = pending c"
        unfolding p' pend using wr by (metis append_assoc append_take_drop_id drop_drop le_add_diff_inverse2)
      moreover have "queue_ok c'"
      proof -
        have l: "length (pending c') = length (pending c) - n" using p' pend wr q(3) n True by simp
        have "c_queued_bytes c' = c_queued_bytes c - n" "c_max_queued_bytes c' = c_max_queued_bytes c"
          "c_write_queue_capacity c' = c_write_queue_capacity c"
          by (simp_all add: r c1_def)
        then show ?thesis using q l q' True by (simp add: queue_ok_def)
      qed
      moreover have "same_but_queue c c'" by (rule same_but_queueI) (simp add: r c1_def)
      ultimately show ?thesis using wr by (auto simp: r c1_def q' simp flip: Cons.hyps(2))
    next
      case False
      define c2 where "c2 = c1\<lparr>c_write_queue := fs, c_write_queue_offset := 0\<rparr>"
      have off: "off = length f" using False wr by simp
      have p2: "pending c2 = concat fs" by (simp add: pending_def c2_def)
      have fields: "c_write_queue c2 = fs" "c_write_queue_offset c2 = 0" "c_queued_bytes c2 = c_queued_bytes c - n"
        "c_max_queued_bytes c2 = c_max_queued_bytes c" "c_write_queue_capacity c2 = c_write_queue_capacity c"
        by (simp_all add: c2_def c1_def)
      have "c_queued_bytes c - n = length (concat fs)" using q(4) pend off n(1) by simp
      then have q2: "queue_ok c2" unfolding queue_ok_def p2 fields using q(2,5,6) by (cases fs) simp_all
      have run2: "flush_queue (c_write_queue c2) c2 w1 = (r, c', w')" using run1 False by (simp add: c2_def)
      note IH = Cons.hyps(1) [of c2, OF _ run2 q2, unfolded p2]
      have fs: "fs = c_write_queue c2" by (simp add: c2_def)
      note IH = IH [OF fs]
      have c2: "c_fd c2 = c_fd c" "c_open c2 = c_open c" "c_write_watched c2 = c_write_watched c"
        "same_but_queue c2 c' \<Longrightarrow> same_but_queue c c'"
        by (simp_all add: c2_def c1_def same_but_queue_def)
      obtain bs where bs: "sent_on (c_fd c) bs w1 w'" "if r = Inl False then prefix bs (concat fs) else bs @ pending c' = concat fs"
        using IH c2 by auto
      have "take (off - ?off) (drop ?off f) = drop ?off f" using off by simp
      then have "sent_on (c_fd c) (drop ?off f @ bs) w w'" using sent_on_trans [OF _ bs(1)] wr by metis
      moreover have "if r = Inl False then prefix (drop ?off f @ bs) (pending c) else (drop ?off f @ bs) @ pending c' = pending c"
        using bs(2) pend by (simp split: if_splits)
      ultimately show ?thesis using IH [unfolded c2(1-3)] c2(4) by (intro conjI exI [of _ "drop ?off f @ bs"]) simp_all
    qed
  qed
qed


lemma queue_ok_empty: "c_write_queue c = [] \<Longrightarrow> c_queued_bytes c = 0 \<Longrightarrow> queue_ok c"
  by (simp add: queue_ok_def)

lemma flush:
  assumes "websocket_connection_flush D c w = (ok, c', w')" "queue_ok c" "c_open c" "0 \<le> c_fd c"
  shows "queue_ok c' \<and> c_upgraded c' = c_upgraded c \<and> c_read_buffer c' = c_read_buffer c
    \<and> c_close_notified c' = c_close_notified c
    \<and> (\<exists>bs. w_wire w' = (w_wire w)(c_fd c := w_wire w (c_fd c) @ bs) \<and>
        (if ok then bs @ pending c' = pending c else prefix bs (pending c)))
    \<and> (\<not> ok \<longrightarrow> \<not> c_open c' \<and> c_fd c' = c_fd c)
    \<and> (ok \<and> c_write_queue c' = [] \<and> c_close_after_write c \<longrightarrow>
         \<not> c_open c' \<and> c_fd c' = -1 \<and> w_closed w' = c_fd c # w_closed w)
    \<and> (ok \<and> (c_write_queue c' \<noteq> [] \<or> \<not> c_close_after_write c) \<longrightarrow>
         same_but_queue c c' \<and> c_open c' \<and> w_closed w' = w_closed w)"
proof -
  have g: "\<not> (\<not> c_open c \<or> c_fd c < 0)" using assms(3,4) by simp
  obtain r c1 w1 where q: "flush_queue (c_write_queue c) c w = (r, c1, w1)" by (metis prod_cases3)
  note f = flush_queue [OF q assms(2)]
  obtain bs where bs: "sent_on (c_fd c) bs w w1" "if r = Inl False then prefix bs (pending c) else bs @ pending c1 = pending c"
    using f by blast
  have sb: "same_but_queue c c1" and ok1: "queue_ok c1" using f by simp_all
  note run = assms(1) [unfolded websocket_connection_flush_def if_not_P [OF g] q prod.case]
  show ?thesis
  proof (cases r)
    case (Inl b)
    then have e: "ok = b" "c' = c1" "w' = w1" using run by auto
    show ?thesis
    proof (cases b)
      case True
      have "c_write_queue c1 \<noteq> []" "c_open c1" "bs @ pending c1 = pending c" using f bs(2) Inl True assms(3) by auto
      then show ?thesis
        unfolding e using sb ok1 True same_but_queueD(1-5) [OF sb] sent_onD(1,4) [OF bs(1)]
        by (intro conjI exI [of _ bs]) simp_all
    next
      case False
      have "\<not> c_open c1" "prefix bs (pending c)" using f bs(2) Inl False by auto
      then show ?thesis
        unfolding e using sb ok1 False same_but_queueD(1-5) [OF sb] sent_onD(1,4) [OF bs(1)]
        by (intro conjI exI [of _ bs]) simp_all
    qed
  next
    case (Inr u)
    define c2 where "c2 = (if c_write_watched c1 \<and> w_driver w1 \<noteq> None then c1\<lparr>c_write_watched := False\<rparr> else c1)"
    define w2 where "w2 = (if c_write_watched c1 \<and> w_driver w1 \<noteq> None
        then driver_call_unwatch (driver_unwatch_write D) (c_fd c1) (the (w_driver w1)) w1 else w1)"
    have run2: "(if c_close_after_write c2 then (case websocket_connection_close_socket D c2 w2 of (c, w) \<Rightarrow> (True, c, w))
        else (True, c2, w2)) = (ok, c', w')"
    proof -
      have e: "(if c_write_watched c1 then
                     (case w_driver w1 of
                        None \<Rightarrow> (c1, w1)
                      | Some d \<Rightarrow> (c1\<lparr>c_write_watched := False\<rparr>,
                                   driver_call_unwatch (driver_unwatch_write D) (c_fd c1) d w1))
                   else (c1, w1)) = (c2, w2)"
        by (simp add: c2_def w2_def split: option.split)
      have "r = Inr ()" using Inr by simp
      then show ?thesis using run by (simp only: sum.case unit.case e prod.case)
    qed
    have q2: "quiet w1 w2" unfolding w2_def using driver_call_quiet(1) [of w1] by auto
    have c2: "c_write_queue c2 = []" "c_open c2 = c_open c" "same_but_queue c c2" "queue_ok c2" "pending c2 = []"
      using f Inr sb ok1 same_but_queue_watched [OF sb] by (simp_all add: c2_def)
    have wire: "w_wire w2 = (w_wire w)(c_fd c := w_wire w (c_fd c) @ bs)" "w_closed w2 = w_closed w"
      using sent_onD [OF bs(1)] quietD [OF q2] by simp_all
    have pb: "bs = pending c" using bs(2) Inr c2 f by auto
    show ?thesis
    proof (cases "c_close_after_write c2")
      case False
      then have "ok" "c' = c2" "w' = w2" using run2 by auto
      then show ?thesis using c2 wire pb False assms(3) same_but_queueD [OF c2(3)]
        by (intro conjI exI [of _ bs]) auto
    next
      case True
      then obtain cs: "websocket_connection_close_socket D c2 w2 = (c', w')" and ok: ok
        using run2 by (auto split: prod.splits)
      obtain a w3 where s: "quiet w2 w3" "w' = w3\<lparr>w_closed := (if c_fd c2 \<ge> 0 then c_fd c2 # w_closed w2 else w_closed w2)\<rparr>"
        "c' = c2\<lparr>c_fd := (if c_fd c2 \<ge> 0 then -1 else c_fd c2), c_remote_addr := a, c_open := False,
          c_write_queue := [], c_write_queue_offset := 0, c_queued_bytes := 0, c_write_watched := False,
          c_close_after_write := False, c_fragmented_payload := None, c_fragmented := False,
          c_fragmented_opcode := 0, c_accepted_at_usec := 0, c_last_activity_usec := 0, c_last_ping_usec := 0,
          c_awaiting_pong := False\<rparr>"
        by (rule close_socket [OF cs])
      have "queue_ok c'" "pending c' = []" "c_write_queue c' = []" by (simp_all add: s(3) queue_ok_empty)
      moreover have "c_close_after_write c" "c_fd c2 = c_fd c" "c_upgraded c2 = c_upgraded c"
        "c_read_buffer c2 = c_read_buffer c" "c_close_notified c2 = c_close_notified c"
        using True same_but_queueD [OF c2(3)] by simp_all
      ultimately show ?thesis using ok wire pb assms(4) quietD [OF s(1)]
        by (intro conjI exI [of _ bs]) (simp_all add: s(2,3))
    qed
  qed
qed

text \<open>C19. Flushing moves bytes from the queue to the kernel in order, none lost, none twice: while
  the flush succeeds the peer's stream stays what it was; when it fails, the connection is no
  longer open and what was written is a prefix of the queue. A connection that waits to be
  closed is closed, once, when its queue has drained, and not before.\<close>

theorem flush_keeps_stream:
  assumes "websocket_connection_flush D c w = (ok, c', w')"
    and "queue_ok c" "c_open c" "0 \<le> c_fd c"
  shows "queue_ok c'
   \<and> (if ok then w_wire w' (c_fd c) @ pending c' = w_wire w (c_fd c) @ pending c
      else \<not> c_open c' \<and> (\<exists>bs. w_wire w' (c_fd c) = w_wire w (c_fd c) @ bs \<and> prefix bs (pending c)))
   \<and> (ok \<and> c_close_after_write c \<longrightarrow>
        (if pending c' = [] then c_fd c' = -1 \<and> w_closed w' = c_fd c # w_closed w
         else c_open c' \<and> c_fd c' = c_fd c \<and> w_closed w' = w_closed w))"
proof -
  note f = flush [OF assms]
  then have "queue_ok c'" by simp
  then have "pending c' = [] \<longleftrightarrow> c_write_queue c' = []"
    by (cases "c_write_queue c'") (auto simp: queue_ok_def pending_Cons)
  then show ?thesis using f same_but_queueD(1) [of c c'] by (auto split: if_splits)
qed

text \<open>A connection with one frame left in its queue, waiting to be closed.\<close>

definition example_closing :: websocket_connection where
  [ws_eval]: "example_closing = example_connection\<lparr>c_write_queue := [[0x88, 2, 3, 0xe8]],
     c_write_queue_capacity := 8, c_write_queue_offset := 1, c_queued_bytes := 3,
     c_write_watched := True, c_close_after_write := True\<rparr>"

theorem flush_keeps_stream_witness:
  "\<exists>c' w'. websocket_connection_flush example_driver example_closing (example_world [Sent 2, SendFailed EINTR, Sent 2] [])
       = (True, c', w')
     \<and> w_wire w' 7 @ pending c' = [2, 3, 0xe8]"
proof -
  let ?w = "example_world [Sent 2, SendFailed EINTR, Sent 2] []"
  obtain ok c' w' where r: "websocket_connection_flush example_driver example_closing ?w = (ok, c', w')"
    by (metis prod_cases3)
  have "fst (websocket_connection_flush example_driver example_closing ?w)" by code_simp
  then have ok: ok using r by simp
  have p: "queue_ok example_closing" "c_open example_closing" "0 \<le> c_fd example_closing"
    "pending example_closing = [2, 3, 0xe8]" "c_fd example_closing = 7" "w_wire ?w 7 = []"
    by (simp_all add: queue_ok_def pending_def example_closing_def example_eval)
  have "w_wire w' 7 @ pending c' = [2, 3, 0xe8]"
    using flush_keeps_stream [OF r p(1-3)] ok p(4-6) by simp
  then show ?thesis using r ok by (intro exI [of _ c'] exI [of _ w']) simp
qed

subsection \<open>Closing from PHP\<close>

lemma close_socket_facts:
  assumes "websocket_connection_close_socket D c w = (c', w')"
  shows "\<not> c_open c' \<and> c_fd c' < 0 \<and> c_write_queue c' = [] \<and> c_queued_bytes c' = 0 \<and> \<not> c_close_after_write c'
    \<and> c_upgraded c' = c_upgraded c \<and> c_close_notified c' = c_close_notified c \<and> c_read_buffer c' = c_read_buffer c
    \<and> c_read_buffer_capacity c' = c_read_buffer_capacity c \<and> c_defer_close c' = c_defer_close c
    \<and> \<not> c_fragmented c' \<and> c_fragmented_payload c' = None \<and> c_max_queued_bytes c' = c_max_queued_bytes c"
    "w_wire w' = w_wire w \<and> w_sends w' = w_sends w \<and> w_recvs w' = w_recvs w \<and> w_clock w' = w_clock w
    \<and> w_accepts w' = w_accepts w \<and> w_fcntls w' = w_fcntls w
    \<and> w_closed w' = (if c_fd c \<ge> 0 then c_fd c # w_closed w else w_closed w)
    \<and> (w_driver w' = None \<longleftrightarrow> w_driver w = None)"
proof -
  obtain a w1 where q: "quiet w w1" and w': "w' = w1\<lparr>w_closed := (if c_fd c \<ge> 0 then c_fd c # w_closed w else w_closed w)\<rparr>"
    and c': "c' = c\<lparr>c_fd := (if c_fd c \<ge> 0 then -1 else c_fd c), c_remote_addr := a, c_open := False,
      c_write_queue := [], c_write_queue_offset := 0, c_queued_bytes := 0, c_write_watched := False,
      c_close_after_write := False, c_fragmented_payload := None, c_fragmented := False,
      c_fragmented_opcode := 0, c_accepted_at_usec := 0, c_last_activity_usec := 0, c_last_ping_usec := 0,
      c_awaiting_pong := False\<rparr>"
    by (rule close_socket [OF assms])
  show "\<not> c_open c' \<and> c_fd c' < 0 \<and> c_write_queue c' = [] \<and> c_queued_bytes c' = 0 \<and> \<not> c_close_after_write c'
    \<and> c_upgraded c' = c_upgraded c \<and> c_close_notified c' = c_close_notified c \<and> c_read_buffer c' = c_read_buffer c
    \<and> c_read_buffer_capacity c' = c_read_buffer_capacity c \<and> c_defer_close c' = c_defer_close c
    \<and> \<not> c_fragmented c' \<and> c_fragmented_payload c' = None \<and> c_max_queued_bytes c' = c_max_queued_bytes c"
    by (simp add: c')
  show "w_wire w' = w_wire w \<and> w_sends w' = w_sends w \<and> w_recvs w' = w_recvs w \<and> w_clock w' = w_clock w
    \<and> w_accepts w' = w_accepts w \<and> w_fcntls w' = w_fcntls w
    \<and> w_closed w' = (if c_fd c \<ge> 0 then c_fd c # w_closed w else w_closed w)
    \<and> (w_driver w' = None \<longleftrightarrow> w_driver w = None)"
    using quietD [OF q] by (simp add: w')
qed

lemma close_after_write:
  assumes "websocket_connection_close_after_write D c w = (c', w')"
  shows "\<not> Connection_isOpen c' \<and> (c_open c' \<longrightarrow> c_close_after_write c' \<and> c_write_queue c' \<noteq> [])"
proof (cases "c_open c \<and> c_write_queue c = []")
  case True
  then have "websocket_connection_close_socket D c w = (c', w')"
    using assms by (simp add: websocket_connection_close_after_write_def websocket_connection_has_pending_writes_def)
  then have "\<not> c_open c'" using close_socket_facts(1) by blast
  then show ?thesis by (simp add: Connection_isOpen_def)
qed (use assms in \<open>auto simp: websocket_connection_close_after_write_def
      websocket_connection_has_pending_writes_def Connection_isOpen_def split: if_splits\<close>)

text \<open>C34. Once \<^verbatim>\<open>Connection::close\<close> has returned, the connection reports that it is not open, and
  every later \<^verbatim>\<open>send\<close> throws and changes nothing.\<close>

theorem close_is_final:
  assumes "Connection_close D code reason c w = (Inr (), c', w')"
  shows "\<not> Connection_isOpen c'
   \<and> Connection_send D' payload type c' w'' =
       (Inl (Error ''Cannot send on a closed WebSocket connection''), c', w'')"
proof -
  have "\<not> Connection_isOpen c'"
  proof (cases "c_defer_close c")
    case True
    then have "c' = c\<lparr>c_open := False\<rparr>"
      using assms by (auto simp: Connection_close_def Let_def split: if_splits)
    then show ?thesis by (simp add: Connection_isOpen_def)
  next
    case False
    then obtain c1 w1 where "websocket_connection_close_after_write D c1 w1 = (c', w')"
      using assms by (auto simp: Connection_close_def Let_def split: if_splits prod.splits)
    then show ?thesis using close_after_write by blast
  qed
  then show ?thesis by (auto simp: Connection_send_def Connection_isOpen_def)
qed

theorem close_is_final_witness:
  "\<exists>c' w'. Connection_close example_driver (Some 1001) (Some [98, 121, 101]) example_connection (example_world [] [])
       = (Inr (), c', w')
     \<and> \<not> Connection_isOpen c'"
proof -
  obtain r c' w' where e: "Connection_close example_driver (Some 1001) (Some [98, 121, 101]) example_connection
      (example_world [] []) = (r, c', w')"
    by (metis prod_cases3)
  have "fst (Connection_close example_driver (Some 1001) (Some [98, 121, 101]) example_connection (example_world [] [])) = Inr ()"
    by code_simp
  then have "r = Inr ()" using e by simp
  then show ?thesis using e close_is_final by (intro exI [of _ c'] exI [of _ w']) blast
qed

end
