(* ===== verification/Ws_Server.thy ===== *)
theory Ws_Server
  imports Ws_Http Ws_Connection
begin

text \<open>
  What the server does to a single connection (\<^verbatim>\<open>websocket_server_runtime.c\<close>): its options, the
  read buffer, the parser for incoming frames, the assembly of fragmented messages, closing with
  a status code, the heartbeat and the timeouts.
\<close>

subsection \<open>Options\<close>

text \<open>
  The options of a server are a PHP array, a \<^verbatim>\<open>ServerOptions\<close> object or neither. An entry is the
  value that \<^verbatim>\<open>zval_get_long\<close> makes of it, a 64-bit integer.
\<close>

datatype server_options =
    OptionsArray "string \<rightharpoonup> int"
  | OptionsObject "string \<rightharpoonup> int" \<comment> \<open>a property that is not there reads as null, that is 0\<close>
  | OptionsUndef

definition websocket_server_positive_option :: "server_options \<Rightarrow> string \<Rightarrow> nat \<Rightarrow> nat" where
  [ws_eval]: "websocket_server_positive_option options name fallback =
    (case (case options of
             OptionsArray m \<Rightarrow> m name
           | OptionsObject m \<Rightarrow> (case m name of Some v \<Rightarrow> Some v | None \<Rightarrow> Some 0)
           | OptionsUndef \<Rightarrow> None) of
       None \<Rightarrow> fallback
     | Some option_value \<Rightarrow> if option_value \<le> 0 then fallback else nat option_value)"

definition websocket_server_nonnegative_option :: "server_options \<Rightarrow> string \<Rightarrow> nat \<Rightarrow> nat" where
  [ws_eval]: "websocket_server_nonnegative_option options name fallback =
    (case (case options of
             OptionsArray m \<Rightarrow> m name
           | OptionsObject m \<Rightarrow> (case m name of Some v \<Rightarrow> Some v | None \<Rightarrow> Some 0)
           | OptionsUndef \<Rightarrow> None) of
       None \<Rightarrow> fallback
     | Some option_value \<Rightarrow> if option_value < 0 then fallback else nat option_value)"

definition WEBSOCKET_DEFAULT_MAX_MESSAGE_SIZE :: nat where
  [ws_eval]: "WEBSOCKET_DEFAULT_MAX_MESSAGE_SIZE = 16 * 1024 * 1024"
definition WEBSOCKET_DEFAULT_MAX_CONNECTIONS :: nat where
  [ws_eval]: "WEBSOCKET_DEFAULT_MAX_CONNECTIONS = 10000"
definition WEBSOCKET_DEFAULT_HANDSHAKE_TIMEOUT_MS :: nat where
  [ws_eval]: "WEBSOCKET_DEFAULT_HANDSHAKE_TIMEOUT_MS = 10000"
definition WEBSOCKET_DEFAULT_IDLE_TIMEOUT_MS :: nat where
  [ws_eval]: "WEBSOCKET_DEFAULT_IDLE_TIMEOUT_MS = 120000"
definition WEBSOCKET_DEFAULT_PING_INTERVAL_MS :: nat where
  [ws_eval]: "WEBSOCKET_DEFAULT_PING_INTERVAL_MS = 0"
definition WEBSOCKET_DEFAULT_PONG_TIMEOUT_MS :: nat where
  [ws_eval]: "WEBSOCKET_DEFAULT_PONG_TIMEOUT_MS = 10000"

definition websocket_server_max_message_size :: "server_options \<Rightarrow> nat" where
  [ws_eval]: "websocket_server_max_message_size options =
    websocket_server_positive_option options ''maxMessageSize'' WEBSOCKET_DEFAULT_MAX_MESSAGE_SIZE"

definition websocket_server_max_queued_bytes :: "server_options \<Rightarrow> nat" where
  [ws_eval]: "websocket_server_max_queued_bytes options =
    websocket_server_positive_option options ''maxQueuedBytes'' WEBSOCKET_DEFAULT_MAX_QUEUED_BYTES"

definition websocket_server_max_connections :: "server_options \<Rightarrow> nat" where
  [ws_eval]: "websocket_server_max_connections options =
    websocket_server_positive_option options ''maxConnections'' WEBSOCKET_DEFAULT_MAX_CONNECTIONS"

definition websocket_server_handshake_timeout_usec :: "server_options \<Rightarrow> u64" where
  [ws_eval]: "websocket_server_handshake_timeout_usec options =
    word_of_nat (websocket_server_positive_option options ''handshakeTimeoutMs'' WEBSOCKET_DEFAULT_HANDSHAKE_TIMEOUT_MS) * 1000"

definition websocket_server_idle_timeout_usec :: "server_options \<Rightarrow> u64" where
  [ws_eval]: "websocket_server_idle_timeout_usec options =
    word_of_nat (websocket_server_positive_option options ''idleTimeoutMs'' WEBSOCKET_DEFAULT_IDLE_TIMEOUT_MS) * 1000"

definition websocket_server_ping_interval_usec :: "server_options \<Rightarrow> u64" where
  [ws_eval]: "websocket_server_ping_interval_usec options =
    word_of_nat (websocket_server_nonnegative_option options ''pingIntervalMs'' WEBSOCKET_DEFAULT_PING_INTERVAL_MS) * 1000"

definition websocket_server_pong_timeout_usec :: "server_options \<Rightarrow> u64" where
  [ws_eval]: "websocket_server_pong_timeout_usec options =
    word_of_nat (websocket_server_positive_option options ''pongTimeoutMs'' WEBSOCKET_DEFAULT_PONG_TIMEOUT_MS) * 1000"

subsection \<open>The clock\<close>

text \<open>The next value of the clock; 0 when neither clock can be read.\<close>

definition websocket_server_now_usec :: "'d world \<Rightarrow> u64 \<times> 'd world" where
  [ws_eval]: "websocket_server_now_usec w =
    (case w_clock w of [] \<Rightarrow> (0, w) | t # ts \<Rightarrow> (t, w\<lparr>w_clock := ts\<rparr>))"

subsection \<open>The read buffer\<close>

text \<open>The loop \<^verbatim>\<open>while (capacity < needed) capacity *= 2\<close>; it is entered with a positive capacity.\<close>

function grow_read_capacity :: "nat \<Rightarrow> nat \<Rightarrow> nat" where
  "grow_read_capacity capacity needed =
    (if 0 < capacity \<and> capacity < needed then grow_read_capacity (capacity * 2) needed else capacity)"
  by pat_completeness auto
termination
  by (relation "measure (\<lambda>(capacity, needed). needed - capacity)") auto

declare grow_read_capacity.simps [simp del]

definition websocket_connection_ensure_read_capacity ::
    "nat \<Rightarrow> nat \<Rightarrow> websocket_connection \<Rightarrow> bool \<times> websocket_connection" where
  [ws_eval]: "websocket_connection_ensure_read_capacity append_len limit c =
    (if append_len > limit \<or> length (c_read_buffer c) > limit - append_len then (False, c)
     else
       (let needed = length (c_read_buffer c) + append_len in
        if needed \<le> c_read_buffer_capacity c then (True, c)
        else
          (let capacity = grow_read_capacity
                 (if c_read_buffer_capacity c > 0 then c_read_buffer_capacity c else 1024) needed;
               capacity = (if capacity > limit then limit else capacity)
           in (True, c\<lparr>c_read_buffer_capacity := capacity\<rparr>))))"

text \<open>The \<^verbatim>\<open>memcpy\<close> of a chunk behind the buffered bytes, in room that was made for it.\<close>

definition append_read_bytes :: "bytes \<Rightarrow> websocket_connection \<Rightarrow> websocket_connection" where
  [ws_eval]: "append_read_bytes chunk c = c\<lparr>c_read_buffer := c_read_buffer c @ chunk\<rparr>"

definition websocket_connection_discard_read_bytes :: "nat \<Rightarrow> websocket_connection \<Rightarrow> websocket_connection" where
  [ws_eval]: "websocket_connection_discard_read_bytes n c =
    (if n \<ge> length (c_read_buffer c) then c\<lparr>c_read_buffer := []\<rparr>
     else c\<lparr>c_read_buffer := drop n (c_read_buffer c)\<rparr>)"

subsection \<open>Sending without a queue\<close>

text \<open>\<open>sent\<close> bytes are out; any failure but \<^verbatim>\<open>EINTR\<close>, \<^verbatim>\<open>EAGAIN\<close> included, ends the loop.\<close>

function websocket_server_send_bytes :: "int \<Rightarrow> bytes \<Rightarrow> nat \<Rightarrow> 'd world \<Rightarrow> bool \<times> 'd world" where
  "websocket_server_send_bytes fd buffer sent w =
    (if sent < length buffer then
       (case sys_send fd (drop sent buffer) w of
          (written, w') \<Rightarrow>
            if written > 0 then websocket_server_send_bytes fd buffer (sent + nat written) w'
            else if written < 0 \<and> w_errno w' = EINTR then websocket_server_send_bytes fd buffer sent w'
            else (False, w'))
     else (True, w))"
  by pat_completeness auto
termination
  by (relation "measure (\<lambda>(fd, buffer, sent, w). length (w_sends w fd))")
     (auto simp: sys_send_def split: list.splits send_result.splits)

declare websocket_server_send_bytes.simps [simp del]

definition websocket_bad_request_response :: bytes where
  [ws_eval]: "websocket_bad_request_response =
    lit ''HTTP/1.1 400 Bad Request'' @ CRLF @ lit ''Connection: close'' @ CRLF
    @ lit ''Content-Length: 0'' @ CRLF @ CRLF"

definition websocket_service_unavailable_response :: bytes where
  [ws_eval]: "websocket_service_unavailable_response =
    lit ''HTTP/1.1 503 Service Unavailable'' @ CRLF @ lit ''Connection: close'' @ CRLF
    @ lit ''Content-Length: 0'' @ CRLF @ CRLF"

definition websocket_forbidden_response :: bytes where
  [ws_eval]: "websocket_forbidden_response =
    lit ''HTTP/1.1 403 Forbidden'' @ CRLF @ lit ''Connection: close'' @ CRLF
    @ lit ''Content-Length: 0'' @ CRLF @ CRLF"
subsection \<open>Incoming frames\<close>

datatype websocket_server_frame_status =
    FrameIncomplete | FrameOk | FrameProtocolError | FrameMessageTooBig | FrameInvalidPayload

record websocket_server_frame =
  sf_opcode :: byte
  sf_final :: bool
  sf_bytes_consumed :: nat
  sf_payload :: "bytes option"

text \<open>The length field: \<open>Inl\<close> is an early return, \<open>Inr\<close> the payload length and \<^verbatim>\<open>pos\<close>.\<close>

definition server_frame_length :: "bytes \<Rightarrow> websocket_server_frame_status + u64 \<times> nat" where
  [ws_eval]: "server_frame_length in_buf =
    (let len = length in_buf; short_len = in_buf ! 1 AND 0x7f in
     if short_len = 126 then
       (if len < 4 then Inl FrameIncomplete
        else (let payload_len = push_bit 8 (ucast (in_buf ! 2)) OR ucast (in_buf ! 3) in
              if payload_len < 126 then Inl FrameProtocolError else Inr (payload_len, 4)))
     else if short_len = 127 then
       (if len < 10 then Inl FrameIncomplete
        else if in_buf ! 2 AND 0x80 \<noteq> 0 then Inl FrameProtocolError
        else (let payload_len = read_length64 in_buf in
              if payload_len \<le> 0xffff then Inl FrameProtocolError else Inr (payload_len, 10)))
     else Inr (ucast short_len, 2))"

definition websocket_server_parse_frame ::
    "bytes \<Rightarrow> nat \<Rightarrow> websocket_server_frame_status \<times> websocket_server_frame" where
  [ws_eval]: "websocket_server_parse_frame in_buf max_message_size =
    (let frame = \<lparr>sf_opcode = 0, sf_final = False, sf_bytes_consumed = 0, sf_payload = None\<rparr>;
         len = length in_buf in
     if len < 2 then (FrameIncomplete, frame)
     else
       (let b0 = in_buf ! 0; b1 = in_buf ! 1;
            frame = frame\<lparr>sf_final := b0 AND 0x80 \<noteq> 0, sf_opcode := b0 AND 0x0f\<rparr>;
            opcode = sf_opcode frame
        in if b0 AND 0x70 \<noteq> 0 \<or> b1 AND 0x80 = 0 then (FrameProtocolError, frame)
        else if \<not> websocket_protocol_opcode_is_valid (uint opcode) then (FrameProtocolError, frame)
        else
          (case server_frame_length in_buf of
             Inl status \<Rightarrow> (status, frame)
           | Inr (payload_len, pos) \<Rightarrow>
               if websocket_protocol_opcode_is_control (uint opcode)
                   \<and> (\<not> sf_final frame \<or> payload_len > 125) then (FrameProtocolError, frame)
               else if \<not> websocket_protocol_opcode_is_control (uint opcode)
                   \<and> unat payload_len > max_message_size then (FrameMessageTooBig, frame)
               else if unat payload_len > SIZE_MAX \<or> unat payload_len > SIZE_MAX - pos \<or> len < pos + 4 then
                 (FrameIncomplete, frame)
               else
                 (let key = take 4 (drop pos in_buf); pos = pos + 4; n = unat payload_len in
                  if n > SIZE_MAX - pos \<or> len < pos + n then (FrameIncomplete, frame)
                  else if opcode = OPCODE_CLOSE \<and> n = 1 then (FrameProtocolError, frame)
                  else if opcode = OPCODE_CLOSE \<and> n \<ge> 2
                      \<and> \<not> websocket_protocol_close_code_is_valid
                            (push_bit 8 (uint (in_buf ! pos XOR key ! 0)) OR uint (in_buf ! (pos + 1) XOR key ! 1))
                  then (FrameProtocolError, frame)
                  else
                    (let payload = websocket_server_mask_payload (replicate n 0) (take n (drop pos in_buf)) n key;
                         frame = frame\<lparr>sf_payload := Some payload, sf_bytes_consumed := pos + n\<rparr>
                     in if opcode = OPCODE_CLOSE \<and> n \<ge> 2 \<and> \<not> websocket_protocol_is_valid_utf8 (drop 2 payload) then
                          (FrameInvalidPayload, frame\<lparr>sf_payload := None\<rparr>)
                        else (FrameOk, frame))))))"

subsection \<open>Fragmented messages\<close>

definition websocket_server_clear_fragment :: "websocket_connection \<Rightarrow> websocket_connection" where
  [ws_eval]: "websocket_server_clear_fragment c =
    c\<lparr>c_fragmented_payload := None, c_fragmented := False, c_fragmented_opcode := 0\<rparr>"

definition websocket_server_append_fragment :: "bytes \<Rightarrow> nat \<Rightarrow> websocket_connection \<Rightarrow> bool \<times> websocket_connection" where
  [ws_eval]: "websocket_server_append_fragment payload max_message_size c =
    (let current_len = (case c_fragmented_payload c of Some p \<Rightarrow> length p | None \<Rightarrow> 0);
         append_len = length payload in
     if append_len > max_message_size \<or> current_len > max_message_size - append_len then (False, c)
     else (case c_fragmented_payload c of
             None \<Rightarrow> (True, c\<lparr>c_fragmented_payload := Some payload\<rparr>)
           | Some p \<Rightarrow> if append_len = 0 then (True, c)
                       else (True, c\<lparr>c_fragmented_payload := Some (p @ payload)\<rparr>)))"

subsection \<open>Closing, heartbeat and timeouts\<close>

definition websocket_server_close_with_code ::
    "'d websocket_driver \<Rightarrow> int \<Rightarrow> bytes option \<Rightarrow> websocket_connection \<Rightarrow> 'd world
      \<Rightarrow> bool \<times> websocket_connection \<times> 'd world" where
  [ws_eval]: "websocket_server_close_with_code D code reason c w =
    (case websocket_connection_send_close_frame D code (case reason of Some r \<Rightarrow> r | None \<Rightarrow> []) c w of
       (ok, c, w) \<Rightarrow>
         if ok then (case websocket_connection_close_after_write D c w of (c, w) \<Rightarrow> (ok, c, w))
         else (case websocket_connection_close_socket D c w of (c, w) \<Rightarrow> (True, c, w)))"

definition websocket_server_process_heartbeat ::
    "'d websocket_driver \<Rightarrow> server_options \<Rightarrow> u64 \<Rightarrow> websocket_connection \<Rightarrow> 'd world
      \<Rightarrow> bool \<times> websocket_connection \<times> 'd world" where
  [ws_eval]: "websocket_server_process_heartbeat D options now_usec c w =
    (let ping_interval_usec = websocket_server_ping_interval_usec options;
         last_activity_usec = (if c_last_activity_usec c \<noteq> 0 then c_last_activity_usec c else c_accepted_at_usec c) in
     if ping_interval_usec = 0 \<or> now_usec = 0 \<or> \<not> c_open c \<or> \<not> c_upgraded c \<or> c_close_after_write c then (True, c, w)
     else if c_awaiting_pong c then
       (if c_last_ping_usec c > 0 \<and> now_usec \<ge> c_last_ping_usec c
           \<and> now_usec - c_last_ping_usec c \<ge> websocket_server_pong_timeout_usec options
        then websocket_server_close_with_code D CLOSE_NORMAL (Some (lit ''pong timeout'')) c w
        else (True, c, w))
     else if last_activity_usec = 0 \<or> now_usec < last_activity_usec
         \<or> now_usec - last_activity_usec < ping_interval_usec then (True, c, w)
     else
       (case websocket_connection_send_frame D [] OPCODE_PING c w of
          (ok, c, w) \<Rightarrow>
            if \<not> ok then websocket_server_close_with_code D CLOSE_NORMAL (Some (lit ''heartbeat failed'')) c w
            else (True, c\<lparr>c_awaiting_pong := True, c_last_ping_usec := now_usec\<rparr>, w)))"

definition websocket_server_connection_expired :: "server_options \<Rightarrow> u64 \<Rightarrow> websocket_connection \<Rightarrow> bool" where
  [ws_eval]: "websocket_server_connection_expired options now_usec c =
    (if now_usec = 0 then False
     else
       (let last_activity_usec = (if c_last_activity_usec c \<noteq> 0 then c_last_activity_usec c else c_accepted_at_usec c) in
        if last_activity_usec = 0 \<or> now_usec < last_activity_usec then False
        else
          (let timeout_usec = (if \<not> c_upgraded c then websocket_server_handshake_timeout_usec options
                               else websocket_server_idle_timeout_usec options)
           in timeout_usec > 0 \<and> now_usec - last_activity_usec \<ge> timeout_usec)))"

definition websocket_server_close_expired_connection ::
    "'d websocket_driver \<Rightarrow> websocket_connection \<Rightarrow> 'd world \<Rightarrow> websocket_connection \<times> 'd world" where
  [ws_eval]: "websocket_server_close_expired_connection D c w =
    (if c_upgraded c then
       snd (websocket_server_close_with_code D CLOSE_NORMAL (Some (lit ''idle timeout'')) c w)
     else websocket_connection_close_socket D c w)"

subsection \<open>The header as the server reads it\<close>

text \<open>The length field is the shortest one for its value.\<close>

definition wire_minimal :: "bytes \<Rightarrow> bool" where
  "wire_minimal buf \<longleftrightarrow>
     (buf ! 1 AND 0x7f = 126 \<longrightarrow> 126 \<le> wire_length buf)
   \<and> (buf ! 1 AND 0x7f = 127 \<longrightarrow> \<not> bit (buf ! 2) 7 \<and> 0xffff < wire_length buf)"

lemma byte_split: "(if bit b 7 then 0x80 else 0) OR (b AND 0x7f) = (b :: byte)"
proof (rule bit_word_eqI)
  fix n assume "n < LENGTH(8)"
  then have "n = 0 \<or> n = 1 \<or> n = 2 \<or> n = 3 \<or> n = 4 \<or> n = 5 \<or> n = 6 \<or> n = 7" by simp linarith
  then show "bit ((if bit b 7 then 0x80 else 0) OR (b AND 0x7f)) n = bit b n"
    by (elim disjE) (simp_all add: bit_simps)
qed

lemma word16_bytes:
  "ucast (drop_bit 8 (push_bit 8 (ucast a) OR ucast b :: u64) AND 0xff) = (a :: byte)"
  "ucast ((push_bit 8 (ucast a) OR ucast b :: u64) AND 0xff) = (b :: byte)"
proof -
  have m: "(0xff::u64) = Bit_Operations.mask 8" by (simp add: mask_eq_exp_minus_1)
  show "ucast (drop_bit 8 (push_bit 8 (ucast a) OR ucast b :: u64) AND 0xff) = a" unfolding m
    by (rule bit_word_eqI) (auto simp: bit_simps dest: bit_imp_le_length)
  show "ucast ((push_bit 8 (ucast a) OR ucast b :: u64) AND 0xff) = b" unfolding m
    by (rule bit_word_eqI) (auto simp: bit_simps)
qed

lemma length64_bytes:
  assumes "k \<le> 8" "j < k"
  shows "ucast (drop_bit (8 * (k - 1 - j)) (foldl (\<lambda>len i. push_bit 8 len OR ucast (buf ! (2 + i))) (0::u64) [0..<k]) AND 0xff)
    = (buf ! (2 + j) :: byte)"
  using assms
proof (induction k)
  case (Suc k)
  let ?acc = "foldl (\<lambda>len i. push_bit 8 len OR ucast (buf ! (2 + i))) (0::u64) [0..<k]"
  have m: "(0xff::u64) = Bit_Operations.mask 8" by (simp add: mask_eq_exp_minus_1)
  show ?case
  proof (cases "j = k")
    case True
    then show ?thesis unfolding m by (intro bit_word_eqI) (auto simp: bit_simps)
  next
    case False
    then have j: "j < k" "Suc k - 1 - j = Suc (k - 1 - j)" "8 * (k - 1 - j) < 56" using Suc.prems by auto
    have "ucast (drop_bit (8 * (Suc k - 1 - j)) (push_bit 8 ?acc OR ucast (buf ! (2 + k)) :: u64) AND 0xff)
        = (ucast (drop_bit (8 * (k - 1 - j)) ?acc AND 0xff) :: byte)"
      unfolding m j(2) using j(3)
      by (intro bit_word_eqI) (auto simp: bit_simps dest: bit_imp_le_length)
    then show ?thesis using Suc j by simp
  qed
qed simp

lemma word16_less: "unat (push_bit 8 (ucast (a::byte)) OR ucast (b::byte) :: u64) \<le> 0xffff"
proof -
  let ?w = "push_bit 8 (ucast a) OR ucast b :: u64"
  have t: "take_bit 16 ?w = ?w"
  proof (rule bit_word_eqI)
    fix n assume n: "n < LENGTH(64)"
    show "bit (take_bit 16 ?w) n = bit ?w n"
    proof (cases "n < 16")
      case False
      then have "\<not> bit a (n - 8)" "\<not> bit b n"
        using bit_imp_le_length [of a "n - 8"] bit_imp_le_length [of b n] by auto
      then show ?thesis using n False by (simp add: bit_simps)
    qed (simp add: bit_simps)
  qed
  have "unat ?w = unat (take_bit 16 ?w)" by (simp only: t)
  also have "\<dots> = take_bit 16 (unat ?w)" by (rule unsigned_take_bit_eq)
  also have "\<dots> < 2 ^ 16" by (rule take_bit_nat_less_exp)
  finally show ?thesis by simp
qed

lemma short_unat: "unat (ucast (b :: byte) :: u64) = unat b"
  by (simp add: unsigned_ucast_eq take_bit_nat_eq_self less_trans [OF unat_byte_less])

lemma frame_length_bytes_wire:
  assumes "2 \<le> length buf" "wire_pos buf \<le> length buf" "wire_minimal buf"
  shows "frame_length_bytes (wire_masked buf) (wire_length buf) = take (wire_pos buf - 1) (drop 1 buf)"
proof -
  let ?s = "buf ! 1 AND 0x7f" and ?m = "if wire_masked buf then (0x80::byte) else 0"
  have b1: "?m OR ?s = buf ! 1" unfolding wire_masked_def by (rule byte_split)
  have sl: "unat ?s \<le> 127" using word_and_le1 [of "buf ! 1" "0x7f"] by (simp add: word_le_nat_alt)
  have d: "drop 1 buf = buf ! 1 # drop 2 buf" using assms(1) by (metis Cons_nth_drop_Suc One_nat_def Suc_1 Suc_le_lessD)
  consider "?s = 126" | "?s = 127" | "?s \<noteq> 126" "?s \<noteq> 127" by blast
  then show ?thesis
  proof cases
    case 1
    then have l: "4 \<le> length buf" "126 \<le> wire_length buf" "wire_pos buf = 4"
      "wire_length buf = unat (push_bit 8 (ucast (buf ! 2)) OR ucast (buf ! 3) :: u64)"
      using assms(2,3) by (simp_all add: wire_pos_def wire_minimal_def wire_length_def)
    then have u: "wire_length buf \<le> 0xffff" by (simp only: word16_less)
    have w: "(word_of_nat (wire_length buf) :: u64) = push_bit 8 (ucast (buf ! 2)) OR ucast (buf ! 3)"
      by (simp add: l(4))
    have "drop 2 buf = buf ! 2 # buf ! 3 # drop 4 buf"
      using l(1) take_drop_nth_Cons [of 2 buf] take_drop_nth_Cons [of 3 buf] by simp
    then have "take 3 (drop 1 buf) = [buf ! 1, buf ! 2, buf ! 3]" unfolding d by simp
    then show ?thesis unfolding frame_length_bytes_simps(2) [OF l(2) u] w word16_bytes l(3)
      using b1 1 by simp
  next
    case 2
    then have l: "10 \<le> length buf" "0xffff < wire_length buf" "wire_pos buf = 10"
      "wire_length buf = unat (read_length64 buf)"
      using assms(2,3) by (simp_all add: wire_pos_def wire_minimal_def wire_length_def)
    have w: "(word_of_nat (wire_length buf) :: u64) = read_length64 buf" by (simp add: l(4))
    have "map (\<lambda>i. ucast (drop_bit (56 - i * 8) (read_length64 buf) AND 0xff)) [0..<8] = take 8 (drop 2 buf)"
    proof (rule nth_equalityI)
      fix i assume "i < length (map (\<lambda>i. ucast (drop_bit (56 - i * 8) (read_length64 buf) AND 0xff)) [0..<8])"
      then have i: "i < 8" by simp
      have e: "56 - i * 8 = 8 * (8 - 1 - i)" by (simp add: diff_mult_distrib2 mult.commute)
      show "map (\<lambda>i. ucast (drop_bit (56 - i * 8) (read_length64 buf) AND 0xff)) [0..<8] ! i = take 8 (drop 2 buf) ! i"
        using length64_bytes [of 8 i buf] i l(1) by (simp add: read_length64_def e del: upt_Suc)
    qed (use l(1) in simp)
    then show ?thesis unfolding frame_length_bytes_simps(3) [OF l(2)] w l(3) d
      using b1 2 by simp
  next
    case 3
    then have l: "wire_length buf = unat ?s" "wire_pos buf = 2"
      by (simp_all add: wire_length_def wire_pos_def short_unat)
    have "unat ?s \<noteq> 126" "unat ?s \<noteq> 127" using 3 by (auto simp: word_unat_eq_iff)
    then have "unat ?s < 126" using sl by linarith
    then have "frame_length_bytes (wire_masked buf) (wire_length buf) = [buf ! 1]"
      using b1 by (simp add: l frame_length_bytes_simps(1))
    then show ?thesis unfolding d l(2) by simp
  qed
qed

lemma wire_raw_frame:
  assumes "wire_complete buf" "wire_masked buf" "wire_minimal buf"
  shows "\<exists>key. length key = 4
     \<and> buf = raw_frame (buf ! 0) True key (mask_payload key (wire_payload buf)) @ drop (wire_start buf + wire_length buf) buf"
proof -
  have l: "2 \<le> length buf" "wire_pos buf \<le> length buf" "wire_start buf + wire_length buf \<le> length buf"
    "wire_start buf = wire_pos buf + 4" "2 \<le> wire_pos buf"
    using assms(1,2) by (auto simp: wire_complete_def wire_start_def wire_pos_def)
  define key where "key = take 4 (drop (wire_pos buf) buf)"
  define body where "body = take (wire_length buf) (drop (wire_start buf) buf)"
  have k: "length key = 4" and b: "length body = wire_length buf" using l by (simp_all add: key_def body_def)
  have p: "wire_payload buf = mask_payload key body"
    using assms(2) by (simp add: wire_payload_def Let_def key_def body_def)
  have "buf = buf ! 0 # take (wire_pos buf - 1) (drop 1 buf) @ key @ body @ drop (wire_start buf + wire_length buf) buf"
  proof -
    have "key @ body @ drop (wire_start buf + wire_length buf) buf = drop (wire_pos buf) buf"
      unfolding key_def body_def l(4) by (metis add.commute append_take_drop_id drop_drop)
    moreover have "drop (wire_pos buf) buf = drop (wire_pos buf - 1) (drop 1 buf)" using l(5) by simp
    ultimately have "take (wire_pos buf - 1) (drop 1 buf) @ key @ body @ drop (wire_start buf + wire_length buf) buf = drop 1 buf"
      by (metis append_take_drop_id)
    then show ?thesis using l(1) by (cases buf) simp_all
  qed
  moreover have "mask_payload key (wire_payload buf) = body" using k by (simp add: p)
  ultimately show ?thesis using k b frame_length_bytes_wire [OF l(1,2) assms(3)] assms(2)
    by (intro exI [of _ key]) (simp add: raw_frame_def)
qed

text \<open>The verdict on a frame that is there in full.\<close>

definition close_payload_code :: "bytes \<Rightarrow> int" where
  [ws_eval]: "close_payload_code payload = push_bit 8 (uint (payload ! 0)) OR uint (payload ! 1)"

definition server_verdict :: "byte \<Rightarrow> bytes \<Rightarrow> nat \<Rightarrow> websocket_server_frame_status" where
  [ws_eval]: "server_verdict b0 payload max_message_size =
    (let opcode = uint (b0 AND 0x0f); n = length payload in
     if b0 AND 0x70 \<noteq> 0 \<or> \<not> websocket_protocol_opcode_is_valid opcode then FrameProtocolError
     else if websocket_protocol_opcode_is_control opcode \<and> (\<not> bit b0 7 \<or> n > 125) then FrameProtocolError
     else if \<not> websocket_protocol_opcode_is_control opcode \<and> n > max_message_size then FrameMessageTooBig
     else if opcode = 8 \<and> n = 1 then FrameProtocolError
     else if opcode = 8 \<and> n \<ge> 2 \<and> \<not> websocket_protocol_close_code_is_valid (close_payload_code payload) then
       FrameProtocolError
     else if opcode = 8 \<and> n \<ge> 2 \<and> \<not> websocket_protocol_is_valid_utf8 (drop 2 payload) then FrameInvalidPayload
     else FrameOk)"

lemma server_mask_payload:
  "length key = 4 \<Longrightarrow> length src = n \<Longrightarrow>
     websocket_server_mask_payload (replicate n 0) src n key = mask_payload key src"
  by (auto simp: websocket_server_mask_payload_def mask_copy_bytes_masked)

lemma server_frame_length_eq:
  assumes "2 \<le> length buf"
  shows "server_frame_length buf =
    (if length buf < wire_pos buf then Inl FrameIncomplete
     else if wire_minimal buf then Inr (word_of_nat (wire_length buf), wire_pos buf)
     else Inl FrameProtocolError)"
proof -
  let ?s = "buf ! 1 AND 0x7f"
  have lt: "\<not> (w < 126) \<longleftrightarrow> 126 \<le> unat w" "\<not> (w \<le> 0xffff) \<longleftrightarrow> 0xffff < unat w" for w :: u64
    by (simp_all add: word_less_nat_alt word_le_nat_alt not_less not_le)
  consider "?s = 126" | "?s = 127" | "?s \<noteq> 126" "?s \<noteq> 127" by blast
  then show ?thesis
  proof cases
    case 1
    then show ?thesis
      using lt(1) [of "push_bit 8 (ucast (buf ! 2)) OR ucast (buf ! 3)"]
      by (auto simp: server_frame_length_def wire_pos_def wire_minimal_def wire_length_def Let_def)
  next
    case 2
    then show ?thesis
      using lt(2) [of "read_length64 buf"]
      by (auto simp: server_frame_length_def wire_pos_def wire_minimal_def wire_length_def Let_def byte_bit_tests)
  next
    case 3
    then show ?thesis using assms
      by (simp add: server_frame_length_def wire_pos_def wire_minimal_def wire_length_def Let_def)
  qed
qed

text \<open>The payload bytes of a masked frame.\<close>

lemma wire_payload_masked:
  assumes "wire_complete buf" "wire_masked buf"
  shows "wire_payload buf = mask_payload (take 4 (drop (wire_pos buf) buf)) (take (wire_length buf) (drop (wire_pos buf + 4) buf))"
    "i < wire_length buf \<Longrightarrow> i < 4 \<Longrightarrow>
      buf ! (wire_pos buf + 4 + i) XOR (take 4 (drop (wire_pos buf) buf)) ! i = wire_payload buf ! i"
proof -
  show p: "wire_payload buf = mask_payload (take 4 (drop (wire_pos buf) buf)) (take (wire_length buf) (drop (wire_pos buf + 4) buf))"
    using assms(2) by (simp add: wire_payload_def wire_start_def)
  show "buf ! (wire_pos buf + 4 + i) XOR (take 4 (drop (wire_pos buf) buf)) ! i = wire_payload buf ! i"
    if "i < wire_length buf" "i < 4"
  proof -
    have h: "wire_pos buf + 4 + wire_length buf \<le> length buf" using assms by (auto simp: wire_complete_def wire_start_def)
    then have "i < length (take (wire_length buf) (drop (wire_pos buf + 4) buf))" using that(1) by simp
    moreover have "wire_pos buf + 4 \<le> length buf" using h by simp
    ultimately show ?thesis using that by (simp add: p mask_payload_def)
  qed
qed

text \<open>The parser once the length field has been read.\<close>

definition parse_body :: "bytes \<Rightarrow> nat \<Rightarrow> nat \<Rightarrow> nat \<Rightarrow> websocket_server_frame \<Rightarrow> websocket_server_frame_status \<times> websocket_server_frame" where
  "parse_body in_buf pos n max_message_size frame =
    (let opcode = sf_opcode frame; key = take 4 (drop pos in_buf) in
     if websocket_protocol_opcode_is_control (uint opcode) \<and> (\<not> sf_final frame \<or> n > 125) then (FrameProtocolError, frame)
     else if \<not> websocket_protocol_opcode_is_control (uint opcode) \<and> n > max_message_size then (FrameMessageTooBig, frame)
     else if n > SIZE_MAX - pos \<or> length in_buf < pos + 4 then (FrameIncomplete, frame)
     else if n > SIZE_MAX - (pos + 4) \<or> length in_buf < pos + 4 + n then (FrameIncomplete, frame)
     else if opcode = OPCODE_CLOSE \<and> n = 1 then (FrameProtocolError, frame)
     else if opcode = OPCODE_CLOSE \<and> n \<ge> 2
       \<and> \<not> websocket_protocol_close_code_is_valid
             (push_bit 8 (uint (in_buf ! (pos + 4) XOR key ! 0)) OR uint (in_buf ! (pos + 4 + 1) XOR key ! 1))
     then (FrameProtocolError, frame)
     else
       (let payload = websocket_server_mask_payload (replicate n 0) (take n (drop (pos + 4) in_buf)) n key;
            frame = frame\<lparr>sf_payload := Some payload, sf_bytes_consumed := pos + 4 + n\<rparr>
        in if opcode = OPCODE_CLOSE \<and> n \<ge> 2 \<and> \<not> websocket_protocol_is_valid_utf8 (drop 2 payload) then
             (FrameInvalidPayload, frame\<lparr>sf_payload := None\<rparr>)
           else (FrameOk, frame)))"

definition header_frame :: "bytes \<Rightarrow> websocket_server_frame" where
  "header_frame buf = \<lparr>sf_opcode = buf ! 0 AND 0x0f, sf_final = bit (buf ! 0) 7, sf_bytes_consumed = 0, sf_payload = None\<rparr>"

lemma parse_frame_unfold:
  "websocket_server_parse_frame buf max_message_size =
    (if length buf < 2 then (FrameIncomplete, \<lparr>sf_opcode = 0, sf_final = False, sf_bytes_consumed = 0, sf_payload = None\<rparr>)
     else if buf ! 0 AND 0x70 \<noteq> 0 \<or> \<not> wire_masked buf
         \<or> \<not> websocket_protocol_opcode_is_valid (uint (buf ! 0 AND 0x0f)) then (FrameProtocolError, header_frame buf)
     else if length buf < wire_pos buf then (FrameIncomplete, header_frame buf)
     else if \<not> wire_minimal buf then (FrameProtocolError, header_frame buf)
     else parse_body buf (wire_pos buf) (wire_length buf) max_message_size (header_frame buf))"
proof (cases "length buf < 2")
  case False
  have gt: "word_of_nat (wire_length buf) > (125::u64) \<longleftrightarrow> wire_length buf > 125"
    and u: "unat (word_of_nat (wire_length buf) :: u64) = wire_length buf"
    using wire_length_le [of buf] by (simp_all add: word_less_nat_alt unat_of_nat SIZE_MAX_def)
  have m: "(wire_length buf > SIZE_MAX) = False" by (simp add: not_less)
  have l: "2 \<le> length buf" using False by simp
  note unf = websocket_server_parse_frame_def Let_def server_frame_length_eq [OF l] byte_bit_tests not_not if_not_P [OF False]
    wire_masked_def [symmetric]
  show ?thesis
  proof (cases "(buf ! 0 AND 0x70 \<noteq> 0 \<or> \<not> wire_masked buf) \<or> \<not> websocket_protocol_opcode_is_valid (uint (buf ! 0 AND 0x0f))
      \<or> length buf < wire_pos buf \<or> \<not> wire_minimal buf")
    case True
    show ?thesis
    proof (cases "buf ! 0 AND 0x70 \<noteq> 0 \<or> \<not> wire_masked buf")
      case h: True
      then have "buf ! 0 AND 0x70 \<noteq> 0 \<or> \<not> wire_masked buf \<or> \<not> websocket_protocol_opcode_is_valid (uint (buf ! 0 AND 0x0f))"
        by blast
      note h2 = if_P [OF this]
      show ?thesis unfolding unf if_P [OF h] h2 by (simp only: header_frame_def websocket_server_frame.simps)
    next
      case h: False
      show ?thesis
      proof (cases "websocket_protocol_opcode_is_valid (uint (buf ! 0 AND 0x0f))")
        case False
        then show ?thesis unfolding unf if_not_P [OF h] by (simp add: header_frame_def)
      next
        case v: True
        with h have "\<not> (buf ! 0 AND 0x70 \<noteq> 0 \<or> \<not> wire_masked buf \<or> \<not> websocket_protocol_opcode_is_valid (uint (buf ! 0 AND 0x0f)))"
          by blast
        note h2 = if_not_P [OF this]
        from v have nv: "\<not> \<not> websocket_protocol_opcode_is_valid (uint (buf ! 0 AND 0x0f))" by simp
        show ?thesis
        proof (cases "length buf < wire_pos buf")
          case t: True
          show ?thesis unfolding unf if_not_P [OF h] websocket_server_frame.simps if_not_P [OF nv] h2 if_P [OF t] sum.case
            by (simp only: header_frame_def websocket_server_frame.simps)
        next
          case t: False
          with True h v have m: "\<not> wire_minimal buf" by blast
          show ?thesis unfolding unf if_not_P [OF h] websocket_server_frame.simps if_not_P [OF nv] h2 if_not_P [OF t]
              if_not_P [OF m] if_P [OF m] sum.case
            by (simp only: header_frame_def websocket_server_frame.simps)
        qed
      qed
    qed
  next
    case ok: False
    then have c: "\<not> (buf ! 0 AND 0x70 \<noteq> 0 \<or> \<not> wire_masked buf)"
      "\<not> \<not> websocket_protocol_opcode_is_valid (uint (buf ! 0 AND 0x0f))"
      "\<not> length buf < wire_pos buf" "wire_minimal buf"
      "\<not> (buf ! 0 AND 0x70 \<noteq> 0 \<or> \<not> wire_masked buf \<or> \<not> websocket_protocol_opcode_is_valid (uint (buf ! 0 AND 0x0f)))"
      "\<not> \<not> wire_minimal buf"
      by simp_all
    show ?thesis
      unfolding unf if_not_P [OF c(5)] if_not_P [OF c(3)] if_not_P [OF c(6)]
        websocket_server_frame.simps if_not_P [OF c(1)] if_not_P [OF c(2)]
        if_P [OF c(4)] sum.case prod.case gt u m simp_thms(32) header_frame_def parse_body_def
      by (simp only: websocket_server_frame.simps)
  qed
qed (simp add: websocket_server_parse_frame_def)

lemma parse_body_incomplete:
  assumes "\<not> wire_complete buf" "wire_masked buf" "2 \<le> length buf" "wire_pos buf \<le> length buf"
  shows "parse_body buf (wire_pos buf) (wire_length buf) max_message_size (header_frame buf) =
    (let control = websocket_protocol_opcode_is_control (uint (buf ! 0 AND 0x0f)) in
     (if control \<and> (\<not> bit (buf ! 0) 7 \<or> wire_length buf > 125) then FrameProtocolError
      else if \<not> control \<and> wire_length buf > max_message_size then FrameMessageTooBig
      else FrameIncomplete, header_frame buf))"
proof -
  have "wire_length buf > SIZE_MAX - (wire_pos buf + 4) \<or> length buf < wire_pos buf + 4 + wire_length buf"
    using assms by (auto simp: wire_complete_def wire_start_def)
  then show ?thesis by (auto simp: parse_body_def Let_def header_frame_def)
qed

lemma parse_body_complete:
  fixes max_message_size :: nat
  assumes "wire_complete buf" "wire_masked buf" "buf ! 0 AND 0x70 = 0" "websocket_protocol_opcode_is_valid (uint (buf ! 0 AND 0x0f))"
  defines "v \<equiv> server_verdict (buf ! 0) (wire_payload buf) max_message_size"
  shows "fst (parse_body buf (wire_pos buf) (wire_length buf) max_message_size (header_frame buf)) = v"
    "v = FrameOk \<Longrightarrow> snd (parse_body buf (wire_pos buf) (wire_length buf) max_message_size (header_frame buf)) =
      \<lparr>sf_opcode = buf ! 0 AND 0x0f, sf_final = bit (buf ! 0) 7,
       sf_bytes_consumed = wire_start buf + wire_length buf, sf_payload = Some (wire_payload buf)\<rparr>"
proof -
  let ?k = "take 4 (drop (wire_pos buf) buf)"
  have c: "\<not> (wire_length buf > SIZE_MAX - wire_pos buf \<or> length buf < wire_pos buf + 4)"
    "\<not> (wire_length buf > SIZE_MAX - (wire_pos buf + 4) \<or> length buf < wire_pos buf + 4 + wire_length buf)"
    "wire_start buf = wire_pos buf + 4"
    using assms(1,2) by (auto simp: wire_complete_def wire_start_def)
  have p: "websocket_server_mask_payload (replicate (wire_length buf) 0) (take (wire_length buf) (drop (wire_pos buf + 4) buf))
      (wire_length buf) ?k = wire_payload buf"
    using c unfolding wire_payload_masked(1) [OF assms(1,2)] by (intro server_mask_payload) auto
  have l: "length (wire_payload buf) = wire_length buf" using assms(1) by simp
  have code: "wire_length buf \<ge> 2 \<Longrightarrow> push_bit 8 (uint (buf ! (wire_pos buf + 4) XOR ?k ! 0))
      OR uint (buf ! (wire_pos buf + 4 + 1) XOR ?k ! 1) = close_payload_code (wire_payload buf)"
    using wire_payload_masked(2) [OF assms(1,2), of 0] wire_payload_masked(2) [OF assms(1,2), of 1]
    by (simp add: close_payload_code_def)
  define b where "b = buf ! 0 AND 0x0f"
  have e: "b = OPCODE_CLOSE \<longleftrightarrow> uint b = 8" by (simp add: word_uint_eq_iff)
  note unf = parse_body_def v_def server_verdict_def Let_def header_frame_def b_def [symmetric] if_not_P [OF c(1)] if_not_P [OF c(2)] p l
    websocket_server_frame.simps
  have "fst (parse_body buf (wire_pos buf) (wire_length buf) max_message_size (header_frame buf)) = v
    \<and> (v = FrameOk \<longrightarrow> snd (parse_body buf (wire_pos buf) (wire_length buf) max_message_size (header_frame buf)) =
      \<lparr>sf_opcode = b, sf_final = bit (buf ! 0) 7,
       sf_bytes_consumed = wire_start buf + wire_length buf, sf_payload = Some (wire_payload buf)\<rparr>)"
  proof (cases "websocket_protocol_opcode_is_control (uint b) \<and> (\<not> bit (buf ! 0) 7 \<or> wire_length buf > 125)")
    case True
    then show ?thesis using assms(3,4) by (simp add: unf)
  next
    case 1: False
    show ?thesis
    proof (cases "\<not> websocket_protocol_opcode_is_control (uint b) \<and> wire_length buf > max_message_size")
      case True
      then show ?thesis using assms(3,4) by (simp add: unf)
    next
      case 2: False
      show ?thesis
      proof (cases "uint b = 8 \<and> wire_length buf \<ge> 2")
        case True
        then show ?thesis
          unfolding unf if_not_P [OF 1] if_not_P [OF 2] using assms(3,4) code c(3)
          by (simp add: e b_def [symmetric])
      next
        case False
        then show ?thesis
          unfolding unf if_not_P [OF 1] if_not_P [OF 2] using assms(3,4) c(3)
          by (auto simp add: e b_def [symmetric])
      qed
    qed
  qed
  then show "fst (parse_body buf (wire_pos buf) (wire_length buf) max_message_size (header_frame buf)) = v"
    "v = FrameOk \<Longrightarrow> snd (parse_body buf (wire_pos buf) (wire_length buf) max_message_size (header_frame buf)) =
      \<lparr>sf_opcode = buf ! 0 AND 0x0f, sf_final = bit (buf ! 0) 7,
       sf_bytes_consumed = wire_start buf + wire_length buf, sf_payload = Some (wire_payload buf)\<rparr>"
    by (simp_all add: b_def)
qed

lemma parse_frame_ok_iff_wire:
  "websocket_server_parse_frame buf max_message_size = (FrameOk, f) \<longleftrightarrow>
     wire_complete buf \<and> wire_masked buf \<and> wire_minimal buf
   \<and> server_verdict (buf ! 0) (wire_payload buf) max_message_size = FrameOk
   \<and> f = \<lparr>sf_opcode = buf ! 0 AND 0x0f, sf_final = bit (buf ! 0) 7,
          sf_bytes_consumed = wire_start buf + wire_length buf, sf_payload = Some (wire_payload buf)\<rparr>"
proof (cases "wire_complete buf \<and> wire_masked buf \<and> wire_minimal buf \<and> buf ! 0 AND 0x70 = 0
    \<and> websocket_protocol_opcode_is_valid (uint (buf ! 0 AND 0x0f))")
  case True
  then have c: "wire_complete buf" "wire_masked buf" "buf ! 0 AND 0x70 = 0"
    "websocket_protocol_opcode_is_valid (uint (buf ! 0 AND 0x0f))" "wire_minimal buf" by auto
  then have "\<not> length buf < 2" "\<not> length buf < wire_pos buf" by (auto simp: wire_complete_def)
  then have "websocket_server_parse_frame buf max_message_size =
      parse_body buf (wire_pos buf) (wire_length buf) max_message_size (header_frame buf)"
    using c by (simp add: parse_frame_unfold)
  then show ?thesis using parse_body_complete [OF c(1-4), of max_message_size] c
    by (metis prod.collapse prod.inject)
next
  case False
  then have "\<not> (wire_complete buf \<and> wire_masked buf \<and> wire_minimal buf
     \<and> server_verdict (buf ! 0) (wire_payload buf) max_message_size = FrameOk)"
    by (auto simp: server_verdict_def Let_def)
  moreover have "fst (websocket_server_parse_frame buf max_message_size) \<noteq> FrameOk"
  proof (cases "2 \<le> length buf \<and> buf ! 0 AND 0x70 = 0 \<and> wire_masked buf
      \<and> websocket_protocol_opcode_is_valid (uint (buf ! 0 AND 0x0f)) \<and> wire_pos buf \<le> length buf \<and> wire_minimal buf")
    case True
    then have "\<not> wire_complete buf" "wire_masked buf" "2 \<le> length buf" "wire_pos buf \<le> length buf" using False by auto
    note p = parse_body_incomplete [OF this, of max_message_size]
    then show ?thesis using True by (simp add: parse_frame_unfold Let_def)
  qed (auto simp: parse_frame_unfold)
  ultimately show ?thesis by (metis fst_conv)
qed

text \<open>A frame as a client has to send it, and the ones the server takes.\<close>

definition client_frame :: "byte \<Rightarrow> bytes \<Rightarrow> bytes \<Rightarrow> bytes" where
  [ws_eval]: "client_frame b0 key payload = raw_frame b0 True key (mask_payload key payload)"

definition client_frame_ok :: "byte \<Rightarrow> bytes \<Rightarrow> nat \<Rightarrow> bool" where
  [ws_eval]: "client_frame_ok b0 payload max_message_size \<longleftrightarrow>
    (let opcode = uint (b0 AND 0x0f) in
     b0 AND 0x70 = 0 \<and> opcode \<in> {0, 1, 2, 8, 9, 10}
   \<and> (if opcode \<in> {8, 9, 10} then bit b0 7 \<and> length payload \<le> 125 else length payload \<le> max_message_size)
   \<and> (opcode = 8 \<and> payload \<noteq> [] \<longrightarrow>
        2 \<le> length payload \<and> websocket_protocol_close_code_is_valid (close_payload_code payload)
      \<and> utf8_text (drop 2 payload)))"

lemma verdict_ok:
  "((if rsv \<or> \<not> valid then FrameProtocolError else if ctl \<and> (\<not> fin \<or> big) then FrameProtocolError
     else if \<not> ctl \<and> toobig then FrameMessageTooBig else if cl \<and> n1 then FrameProtocolError
     else if cl \<and> n2 \<and> \<not> cv then FrameProtocolError else if cl \<and> n2 \<and> \<not> ut then FrameInvalidPayload
     else FrameOk) = FrameOk) \<longleftrightarrow>
   \<not> rsv \<and> valid \<and> (if ctl then fin \<and> \<not> big else \<not> toobig) \<and> (cl \<longrightarrow> \<not> n1 \<and> (n2 \<longrightarrow> cv \<and> ut))"
  by simp

lemma server_verdict_ok_iff: "server_verdict b0 payload max_message_size = FrameOk \<longleftrightarrow> client_frame_ok b0 payload max_message_size"
proof -
  define op where "op = uint (b0 AND 0x0f)"
  have v: "websocket_protocol_opcode_is_valid op \<longleftrightarrow> op \<in> {0, 1, 2, 8, 9, 10}"
    by (auto simp: websocket_protocol_opcode_is_valid_def)
  have c: "websocket_protocol_opcode_is_control op \<longleftrightarrow> op \<in> {8, 9, 10}" if "op \<in> {0, 1, 2, 8, 9, 10}"
    using control_opcode_byte v that by auto
  have n: "payload \<noteq> [] \<longleftrightarrow> length payload = 1 \<or> 2 \<le> length payload" by (cases payload) (auto simp: Suc_le_eq)
  show ?thesis
    unfolding server_verdict_def client_frame_ok_def Let_def op_def [symmetric] verdict_ok v valid_utf8_text n
    using c by (cases "op \<in> {0, 1, 2, 8, 9, 10}") (simp_all only: not_less simp_thms, auto)
qed

lemma client_frame_view:
  fixes b0 :: byte
  assumes "length payload < 2 ^ 63" "length key = 4"
  defines "buf m rest \<equiv> take m (client_frame b0 key payload @ rest)"
  shows "frame_view (buf m rest) b0 True (length payload)"
    "2 \<le> length (buf m rest) \<Longrightarrow> wire_pos (buf m rest) \<le> length (buf m rest) \<Longrightarrow> wire_minimal (buf m rest)"
proof -
  have n64: "length payload < 2 ^ 64" using assms(1) by simp
  have k: "length key = (if True then 4 else 0)" using assms(2) by simp
  have mp: "length (mask_payload key payload) < 2 ^ 64" using n64 by simp
  show v: "frame_view (buf m rest) b0 True (length payload)"
    using frame_view_take_raw_frame [OF k mp, where ?b0.0 = b0 and m = m and rest = rest]
    by (simp add: client_frame_def buf_def)
  note w = frame_view_wire [OF v n64]
  show "wire_minimal (buf m rest)" if l: "2 \<le> length (buf m rest)" "wire_pos (buf m rest) \<le> length (buf m rest)"
  proof -
    have n: "wire_length (buf m rest) = length payload" using w(2,4) l by simp
    have b: "buf m rest ! 1 AND 0x7f = short_length (length payload)" using v l(1) by (simp add: frame_view_def)
    show ?thesis
      unfolding wire_minimal_def n b short_length_cases
    proof (intro conjI impI)
      assume big: "0xffff < length payload"
      then have "10 \<le> length (buf m rest)" using w(2) l by (simp add: length_field_end_def)
      then have b2: "buf m rest ! 2 = ucast (drop_bit 56 (word_of_nat (length payload) :: u64) AND 0xff)"
        using v big by (simp add: frame_view_def)
      have "take_bit 63 (length payload) = length payload" using assms(1) by (rule take_bit_nat_eq_self)
      then have "\<not> bit (length payload) 63" by (metis bit_take_bit_iff less_irrefl)
      then show "\<not> bit (buf m rest ! 2) 7" by (simp add: b2 bit_simps)
    qed simp_all
  qed
qed

lemma parse_client_frame:
  assumes "client_frame_ok b0 payload max_message_size" "length key = 4" "length payload < 2 ^ 63"
  shows "websocket_server_parse_frame (client_frame b0 key payload @ rest) max_message_size =
      (FrameOk, \<lparr>sf_opcode = b0 AND 0x0f, sf_final = bit b0 7, sf_bytes_consumed = length (client_frame b0 key payload),
         sf_payload = Some payload\<rparr>)"
    "m < length (client_frame b0 key payload) \<Longrightarrow>
      fst (websocket_server_parse_frame (take m (client_frame b0 key payload @ rest)) max_message_size) = FrameIncomplete"
proof -
  let ?f = "client_frame b0 key payload"
  have k: "length key = (if True then 4 else 0)" using assms(2) by simp
  have fit: "length (mask_payload key payload) + 14 \<le> SIZE_MAX" using assms(3) by (simp add: SIZE_MAX_def)
  have full: "wire_complete (?f @ rest)" "(?f @ rest) ! 0 = b0" "wire_masked (?f @ rest)"
    "wire_start (?f @ rest) = header_length True (length payload)" "wire_length (?f @ rest) = length payload"
    "wire_payload (?f @ rest) = payload"
    using raw_frame_wire [OF k fit refl, where ?b0.0 = b0 and rest = rest] assms(2) by (simp_all add: client_frame_def)
  have lf: "length ?f = header_length True (length payload) + length payload"
    using assms(2) by (simp add: client_frame_def)
  have mn: "wire_minimal (?f @ rest)"
    using client_frame_view(2) [OF assms(3,2), where m = "length (?f @ rest)" and ?b0.0 = b0 and rest = rest] full(1)
    by (simp add: wire_complete_def)
  show "websocket_server_parse_frame (?f @ rest) max_message_size =
      (FrameOk, \<lparr>sf_opcode = b0 AND 0x0f, sf_final = bit b0 7, sf_bytes_consumed = length ?f, sf_payload = Some payload\<rparr>)"
    using full mn assms(1) lf by (simp add: parse_frame_ok_iff_wire server_verdict_ok_iff)
  assume m: "m < length ?f"
  define buf where "buf = take m (?f @ rest)"
  have v: "frame_view buf b0 True (length payload)"
    and mn: "2 \<le> length buf \<Longrightarrow> wire_pos buf \<le> length buf \<Longrightarrow> wire_minimal buf"
    unfolding buf_def using client_frame_view [OF assms(3,2)] by auto
  have n64: "length payload < 2 ^ 64" using assms(3) by simp
  have fit2: "length payload + 14 \<le> SIZE_MAX" using fit by simp
  note w = frame_view_wire [OF v n64]
  have nc: "\<not> wire_complete buf" using frame_view_complete [OF v fit2] m lf by (simp add: buf_def)
  have ok: "b0 AND 0x70 = 0" "websocket_protocol_opcode_is_valid (uint (b0 AND 0x0f))"
    "\<not> (websocket_protocol_opcode_is_control (uint (b0 AND 0x0f)) \<and> (\<not> bit b0 7 \<or> length payload > 125))"
    "\<not> (\<not> websocket_protocol_opcode_is_control (uint (b0 AND 0x0f)) \<and> length payload > max_message_size)"
    using assms(1) unfolding server_verdict_ok_iff [symmetric] server_verdict_def Let_def verdict_ok by auto
  show "fst (websocket_server_parse_frame (take m (?f @ rest)) max_message_size) = FrameIncomplete"
    unfolding buf_def [symmetric]
  proof (cases "2 \<le> length buf \<and> wire_pos buf \<le> length buf")
    case True
    then have l: "2 \<le> length buf" "wire_pos buf \<le> length buf" by auto
    then have x: "buf ! 0 = b0" "wire_masked buf" "wire_length buf = length payload" "wire_minimal buf"
      using w mn by simp_all
    have h: "\<not> length buf < 2" "\<not> length buf < wire_pos buf" using l by auto
    show "fst (websocket_server_parse_frame buf max_message_size) = FrameIncomplete"
      using parse_body_incomplete [OF nc x(2) l, of max_message_size] ok x h
      by (simp add: parse_frame_unfold Let_def)
  next
    case False
    then show "fst (websocket_server_parse_frame buf max_message_size) = FrameIncomplete"
      using w ok by (auto simp: parse_frame_unfold)
  qed
qed

text \<open>Two equal frames have the same payload: the header of a frame determines it.\<close>

lemma header_append:
  assumes "2 \<le> length buf"
  shows "(buf @ extra) ! 0 = buf ! 0" "wire_masked (buf @ extra) = wire_masked buf" "wire_pos (buf @ extra) = wire_pos buf"
    "wire_pos buf \<le> length buf \<Longrightarrow> wire_length (buf @ extra) = wire_length buf"
    "wire_pos buf \<le> length buf \<Longrightarrow> wire_minimal (buf @ extra) = wire_minimal buf"
    "header_frame (buf @ extra) = header_frame buf"
proof -
  have l: "0 < length buf" "1 < length buf" using assms by linarith+
  show h: "(buf @ extra) ! 0 = buf ! 0" "wire_masked (buf @ extra) = wire_masked buf" "wire_pos (buf @ extra) = wire_pos buf"
    using l by (simp_all add: wire_masked_def wire_pos_def nth_append del: length_greater_0_conv)
  show "header_frame (buf @ extra) = header_frame buf" using h by (simp add: header_frame_def)
  have r: "read_length64 (buf @ extra) = read_length64 buf" if "10 \<le> length buf"
    unfolding read_length64_def using that by (intro foldl_cong) (auto simp: nth_append)
  show n: "wire_length (buf @ extra) = wire_length buf" if "wire_pos buf \<le> length buf"
    using that l r by (auto simp: wire_length_def wire_pos_def nth_append split: if_splits)
  show "wire_minimal (buf @ extra) = wire_minimal buf" if "wire_pos buf \<le> length buf"
    using that l n [OF that] by (auto simp: wire_minimal_def wire_pos_def nth_append split: if_splits)
qed

lemma parse_frame_append:
  assumes "fst (websocket_server_parse_frame buf max_message_size) \<noteq> FrameIncomplete"
  shows "websocket_server_parse_frame (buf @ extra) max_message_size = websocket_server_parse_frame buf max_message_size"
proof -
  have l: "2 \<le> length buf" using assms by (auto simp: parse_frame_unfold split: if_splits)
  note h = header_append [OF l, of extra]
  have nl: "\<not> length buf < 2" "\<not> length (buf @ extra) < 2" using l by auto
  show ?thesis
  proof (cases "buf ! 0 AND 0x70 \<noteq> 0 \<or> \<not> wire_masked buf \<or> \<not> websocket_protocol_opcode_is_valid (uint (buf ! 0 AND 0x0f))")
    case True
    then show ?thesis
      unfolding parse_frame_unfold if_not_P [OF nl(1)] if_not_P [OF nl(2)] h(1,2,6) by (simp only: if_P)
  next
    case False
    then have p: "wire_pos buf \<le> length buf"
      using assms nl unfolding parse_frame_unfold if_not_P [OF nl(1)] if_not_P [OF False] by (auto split: if_splits)
    then have np: "\<not> length buf < wire_pos buf" "\<not> length (buf @ extra) < wire_pos buf" by auto
    note n = h(4,5) [OF p]
    show ?thesis
    proof (cases "wire_minimal buf")
      case m: False
      show ?thesis
        unfolding parse_frame_unfold if_not_P [OF nl(1)] if_not_P [OF nl(2)] h(1,2,3,6) n if_not_P [OF False]
          if_not_P [OF np(1)] if_not_P [OF np(2)] if_P [OF m] ..
    next
      case m: True
      let ?c = "websocket_protocol_opcode_is_control (uint (buf ! 0 AND 0x0f))"
      have u: "websocket_server_parse_frame buf max_message_size =
          parse_body buf (wire_pos buf) (wire_length buf) max_message_size (header_frame buf)"
        "websocket_server_parse_frame (buf @ extra) max_message_size =
          parse_body (buf @ extra) (wire_pos buf) (wire_length buf) max_message_size (header_frame buf)"
        unfolding parse_frame_unfold if_not_P [OF nl(1)] if_not_P [OF nl(2)] h(1,2,3,6) n if_not_P [OF False]
          if_not_P [OF np(1)] if_not_P [OF np(2)] using m by simp_all
      have "parse_body (buf @ extra) (wire_pos buf) (wire_length buf) max_message_size (header_frame buf) =
        parse_body buf (wire_pos buf) (wire_length buf) max_message_size (header_frame buf)"
      proof (cases "wire_complete buf")
        case c: False
        have mk: "wire_masked buf" using False by simp
        have d: "?c \<and> (\<not> bit (buf ! 0) 7 \<or> wire_length buf > 125) \<or> \<not> ?c \<and> wire_length buf > max_message_size"
          using assms parse_body_incomplete [OF c mk l p, of max_message_size] unfolding u(1)
          by (auto simp: Let_def split: if_splits)
        show ?thesis
          using d unfolding parse_body_def Let_def header_frame_def websocket_server_frame.simps
          by (elim disjE) (simp_all only: simp_thms if_True if_False)
      next
        case c: True
        have mk: "wire_masked buf" using False by simp
        have len: "wire_pos buf + 4 + wire_length buf \<le> length buf" using c mk by (auto simp: wire_complete_def wire_start_def)
        have t: "take 4 (drop (wire_pos buf) (buf @ extra)) = take 4 (drop (wire_pos buf) buf)"
          "take (wire_length buf) (drop (wire_pos buf + 4) (buf @ extra)) = take (wire_length buf) (drop (wire_pos buf + 4) buf)"
          using len by simp_all
        have i: "wire_length buf \<ge> 2 \<Longrightarrow> (buf @ extra) ! (wire_pos buf + 4) = buf ! (wire_pos buf + 4)"
          "wire_length buf \<ge> 2 \<Longrightarrow> (buf @ extra) ! (wire_pos buf + 4 + 1) = buf ! (wire_pos buf + 4 + 1)"
          using len by (simp_all add: nth_append)
        have g: "\<not> length (buf @ extra) < wire_pos buf + 4 + wire_length buf" "\<not> length buf < wire_pos buf + 4 + wire_length buf"
          "\<not> length (buf @ extra) < wire_pos buf + 4" "\<not> length buf < wire_pos buf + 4"
          using len by auto
        show ?thesis
        proof (cases "wire_length buf \<ge> 2")
          case True
          show ?thesis unfolding parse_body_def Let_def t i [OF True] by (simp only: g)
        next
          case False
          have f: "(P \<and> wire_length buf \<ge> 2 \<and> Q) = False" for P Q using False by simp
          show ?thesis unfolding parse_body_def Let_def t f by (simp only: g)
        qed
      qed
      then show ?thesis by (simp only: u)
    qed
  qed
qed

lemma byte_and_70: "(b :: byte) AND 0x70 = 0 \<longleftrightarrow> \<not> bit b 6 \<and> \<not> bit b 5 \<and> \<not> bit b 4"
proof -
  have "b AND 0x70 = (b AND 0x40) OR (b AND 0x20) OR (b AND 0x10)" by (simp flip: bit.conj_disj_distrib)
  then show ?thesis by (simp add: or_eq_0_iff byte_bit_tests)
qed

text \<open>C8. The server takes exactly the frames of RFC 6455 a client may send: masked, no reserved bit, a
  known opcode, the shortest length field, control frames whole and of at most 125 bytes, data
  frames within the limit, a close payload that is empty or has a valid code and a UTF-8 reason.
  It hands on the unmasked payload and consumes just the frame. No buffer reaches 2^63 bytes.\<close>

theorem server_parse_ok_iff:
  assumes "length buf < 2 ^ 63"
  shows "websocket_server_parse_frame buf max_message_size = (FrameOk, f) \<longleftrightarrow>
    (\<exists>b0 key payload rest. length key = 4 \<and> buf = client_frame b0 key payload @ rest
     \<and> client_frame_ok b0 payload max_message_size
     \<and> f = \<lparr>sf_opcode = b0 AND 0x0f, sf_final = bit b0 7,
            sf_bytes_consumed = length (client_frame b0 key payload), sf_payload = Some payload\<rparr>)"
proof
  assume "websocket_server_parse_frame buf max_message_size = (FrameOk, f)"
  then have w: "wire_complete buf" "wire_masked buf" "wire_minimal buf"
    and ok: "client_frame_ok (buf ! 0) (wire_payload buf) max_message_size"
    and f: "f = \<lparr>sf_opcode = buf ! 0 AND 0x0f, sf_final = bit (buf ! 0) 7,
       sf_bytes_consumed = wire_start buf + wire_length buf, sf_payload = Some (wire_payload buf)\<rparr>"
    by (simp_all add: parse_frame_ok_iff_wire server_verdict_ok_iff)
  obtain key where k: "length key = 4"
    and buf: "buf = client_frame (buf ! 0) key (wire_payload buf) @ drop (wire_start buf + wire_length buf) buf"
    using wire_raw_frame [OF w] unfolding client_frame_def by blast
  have "wire_start buf + wire_length buf \<le> length buf" using w(1) by (simp add: wire_complete_def)
  then have n: "length (client_frame (buf ! 0) key (wire_payload buf)) = wire_start buf + wire_length buf"
  proof -
    define g where "g = client_frame (buf ! 0) key (wire_payload buf)"
    have "length buf = length (g @ drop (wire_start buf + wire_length buf) buf)"
      using buf unfolding g_def by (rule arg_cong)
    then show ?thesis using \<open>wire_start buf + wire_length buf \<le> length buf\<close>
      unfolding g_def [symmetric] by (simp only: length_append length_drop)
  qed
  have "length key = 4 \<and> buf = client_frame (buf ! 0) key (wire_payload buf) @ drop (wire_start buf + wire_length buf) buf
     \<and> client_frame_ok (buf ! 0) (wire_payload buf) max_message_size
     \<and> f = \<lparr>sf_opcode = buf ! 0 AND 0x0f, sf_final = bit (buf ! 0) 7,
            sf_bytes_consumed = length (client_frame (buf ! 0) key (wire_payload buf)), sf_payload = Some (wire_payload buf)\<rparr>"
    by (rule conjI [OF k conjI [OF buf conjI [OF ok]]]) (simp only: f n)
  then show "\<exists>b0 key payload rest. length key = 4 \<and> buf = client_frame b0 key payload @ rest
     \<and> client_frame_ok b0 payload max_message_size
     \<and> f = \<lparr>sf_opcode = b0 AND 0x0f, sf_final = bit b0 7,
            sf_bytes_consumed = length (client_frame b0 key payload), sf_payload = Some payload\<rparr>"
    by blast
next
  assume "\<exists>b0 key payload rest. length key = 4 \<and> buf = client_frame b0 key payload @ rest
     \<and> client_frame_ok b0 payload max_message_size
     \<and> f = \<lparr>sf_opcode = b0 AND 0x0f, sf_final = bit b0 7,
            sf_bytes_consumed = length (client_frame b0 key payload), sf_payload = Some payload\<rparr>"
  then obtain b0 key payload rest where c: "length key = 4" "buf = client_frame b0 key payload @ rest"
    "client_frame_ok b0 payload max_message_size"
    "f = \<lparr>sf_opcode = b0 AND 0x0f, sf_final = bit b0 7,
            sf_bytes_consumed = length (client_frame b0 key payload), sf_payload = Some payload\<rparr>" by blast
  have "length payload < 2 ^ 63" using assms c(1,2) by (simp add: client_frame_def)
  then show "websocket_server_parse_frame buf max_message_size = (FrameOk, f)"
    using parse_client_frame(1) [OF c(3,1)] c(2,4) by simp
qed

theorem server_parse_ok_iff_witness:
  "websocket_server_parse_frame [0x89, 0x82, 1, 2, 3, 4, 105, 107, 0xff] 10 = (FrameOk,
     \<lparr>sf_opcode = 9, sf_final = True, sf_bytes_consumed = 8, sf_payload = Some [104, 105]\<rparr>)"
proof -
  have l: "length [0x89 :: byte, 0x82, 1, 2, 3, 4, 105, 107, 0xff] < 2 ^ 63" by simp
  have e: "client_frame 0x89 [1, 2, 3, 4] [104, 105] = [0x89, 0x82, 1, 2, 3, 4, 105, 107]" by code_simp
  have u: "(0x89 :: byte) AND 0x70 = 0" "(0x89 :: byte) AND 0x0f = 9" "bit (0x89 :: byte) 7" by simp_all
  then have "client_frame_ok 0x89 [104, 105] 10" by (simp add: client_frame_ok_def)
  then show ?thesis
    by (intro server_parse_ok_iff [OF l, THEN iffD2] exI [of _ "0x89"] exI [of _ "[1, 2, 3, 4]"] exI [of _ "[104, 105]"] exI [of _ "[0xff]"])
      (simp add: e u)
qed

text \<open>C31. The verdict of the parser, frame or error, does not change when more bytes arrive.\<close>

theorem server_parse_stable:
  assumes "fst (websocket_server_parse_frame buf max_message_size) \<noteq> FrameIncomplete"
  shows "websocket_server_parse_frame (buf @ extra) max_message_size = websocket_server_parse_frame buf max_message_size"
  by (rule parse_frame_append [OF assms])

theorem server_parse_stable_witness:
  "fst (websocket_server_parse_frame [0x81, 0x05] 10) = FrameProtocolError
   \<and> websocket_server_parse_frame ([0x81, 0x05] @ [1, 2]) 10 = websocket_server_parse_frame [0x81, 0x05] 10"
proof -
  have e: "fst (websocket_server_parse_frame [0x81, 0x05] 10) = FrameProtocolError" by code_simp
  then have "fst (websocket_server_parse_frame [0x81, 0x05] 10) \<noteq> FrameIncomplete" by simp
  then show ?thesis using e server_parse_stable by blast
qed

subsection \<open>The server as a reader of frames\<close>

definition accepted_frame :: "nat \<Rightarrow> byte \<times> bytes \<Rightarrow> bytes \<Rightarrow> bool" where
  "accepted_frame max_message_size m f \<longleftrightarrow> (case m of (b0, payload) \<Rightarrow>
     client_frame_ok b0 payload max_message_size \<and> length payload < 2 ^ 63
   \<and> (\<exists>key. length key = 4 \<and> f = client_frame b0 key payload))"

definition server_answer :: "nat \<Rightarrow> bytes \<Rightarrow> (websocket_server_frame_status \<times> websocket_server_frame) option" where
  "server_answer max_message_size buf =
    (let r = websocket_server_parse_frame buf max_message_size in if fst r = FrameIncomplete then None else Some r)"

definition accepted_result :: "byte \<times> bytes \<Rightarrow> nat \<Rightarrow> websocket_server_frame_status \<times> websocket_server_frame" where
  "accepted_result m n = (case m of (b0, payload) \<Rightarrow>
     (FrameOk, \<lparr>sf_opcode = b0 AND 0x0f, sf_final = bit b0 7, sf_bytes_consumed = n, sf_payload = Some payload\<rparr>))"

interpretation srv: frame_codec "accepted_frame max_message_size" "server_answer max_message_size" accepted_result
  for max_message_size
proof
  fix m f assume "accepted_frame max_message_size m f"
  then obtain b0 payload key where m: "m = (b0, payload)" and ok: "client_frame_ok b0 payload max_message_size"
    and k: "length key = 4" and l: "length payload < 2 ^ 63" and f: "f = client_frame b0 key payload"
    unfolding accepted_frame_def by (cases m) auto
  show "f \<noteq> []" by (simp add: f client_frame_def raw_frame_def)
  show "server_answer max_message_size (f @ rest) = Some (accepted_result m (length f))" for rest
    using parse_client_frame(1) [OF ok k l] by (simp add: server_answer_def accepted_result_def m f)
  show "server_answer max_message_size (take n f) = None" if "n < length f" for n
    using parse_client_frame(2) [OF ok k l, of n "[]"] that by (simp add: server_answer_def f Let_def)
qed

text \<open>C18. The server reads what \<^verbatim>\<open>Protocol::pack\<close> writes. A message packed with a mask and without
  reserved bits, within the limit, comes out of the server's parser as soon as the stream holds
  it in full, and until then the parser waits.\<close>

theorem server_reads_packed:
  assumes "Protocol_pack le k data opcode_arg flags_arg = Inr frame"
    and "pack_arguments data opcode_arg flags_arg = Inr (payload, opcode, flags)"
    and "flags AND 0x3e = 0x20" "opcode = 8 \<longrightarrow> payload = [] \<or> (\<exists>c. data = PackClose c)"
    and "length payload \<le> max_message_size" "length payload < 2 ^ 63"
  shows "server_answer max_message_size (take n (frame @ rest)) =
    (if n < length frame then None
     else Some (FrameOk, \<lparr>sf_opcode = word_of_int opcode, sf_final = bit flags 0,
                          sf_bytes_consumed = length frame, sf_payload = Some payload\<rparr>))"
proof -
  define fl :: byte where "fl = word_of_int (flags AND uint WEBSOCKET_FLAGS_ALL)"
  define b0 where "b0 = frame_first_byte (word_of_int opcode) fl"
  note p = Protocol_pack_InrD [OF assms(1,2)]
  have v: "websocket_protocol_opcode_is_valid opcode" using p(1) by (simp add: pack_checks_def)
  note ob = valid_opcode_byte [OF v]
  have "flags AND 0x3f AND 0x3e = 0x20" using assms(3) by (simp add: and.assoc)
  then have "word_of_int (flags AND 0x3f AND 0x3e) = (0x20 :: byte)" by simp
  then have "(word_of_int (flags AND 0x3f) :: byte) AND 0x3e = 0x20" unfolding of_int_and_eq by (simp add: and.assoc)
  then have f3e: "fl AND 0x3e = 0x20" by (simp add: fl_def WEBSOCKET_FLAGS_ALL_def)
  have fb: "bit fl i = bit (fl AND 0x3e) i" if "i \<in> {1, 2, 3, 4, 5}" for i
    using that by (auto simp: bit_simps)
  have bits: "bit fl 5" "\<not> bit fl 1" "\<not> bit fl 2" "\<not> bit fl 3" "\<not> bit fl 4"
    using fb [unfolded f3e] by simp_all
  have b0: "b0 AND 0x0f = word_of_int opcode" "bit b0 7 = bit flags 0" "b0 AND 0x70 = 0"
    using ob flags_word(1) [of flags, folded fl_def] bits by (simp_all add: b0_def byte_and_70)
  obtain key where key: "length key = 4" "frame = client_frame b0 key payload"
    using pack_payload_raw_frame [OF p(2), folded fl_def b0_def] bits(1) by (auto simp: client_frame_def)
  have close: "opcode = 8 \<Longrightarrow> payload \<noteq> [] \<Longrightarrow> 2 \<le> length payload
      \<and> websocket_protocol_close_code_is_valid (close_payload_code payload) \<and> utf8_text (drop 2 payload)"
  proof -
    assume "opcode = 8" "payload \<noteq> []"
    then obtain c where "data = PackClose c" using assms(4) by blast
    then have "websocket_protocol_close_payload (close_code c) (close_reason c) = Inr payload"
      using assms(2) by (simp add: pack_arguments_def split: sum.splits)
    from close_payload_bytes [OF this] show ?thesis by (simp add: close_payload_code_def flip: valid_utf8_text)
  qed
  have "opcode \<in> {0, 1, 2, 8, 9, 10}" using v by (auto simp: websocket_protocol_opcode_is_valid_def)
  then have "client_frame_ok b0 payload max_message_size"
    unfolding client_frame_ok_def Let_def b0 ob(1)
    using p(1) assms(5) close control_opcode_byte [OF v] by (auto simp: pack_checks_def)
  then have "accepted_frame max_message_size (b0, payload) frame"
    using key assms(6) by (auto simp: accepted_frame_def)
  then show ?thesis
    using srv.dec_stream [of max_message_size "(b0, payload)" frame n rest] b0 by (simp add: accepted_result_def)
qed

subsection \<open>The read buffer grows within its limit\<close>

lemma grow_read_capacity_bounds:
  assumes "0 < capacity"
  shows "needed \<le> grow_read_capacity capacity needed" "capacity \<le> grow_read_capacity capacity needed"
    "grow_read_capacity capacity needed \<le> max capacity (2 * needed)"
proof -
  have "needed \<le> grow_read_capacity capacity needed \<and> capacity \<le> grow_read_capacity capacity needed
    \<and> grow_read_capacity capacity needed \<le> max capacity (2 * needed)"
    using assms
  proof (induction capacity needed rule: grow_read_capacity.induct)
    case (1 capacity needed)
    then show ?case by (cases "capacity < needed") (auto simp: grow_read_capacity.simps [of capacity needed])
  qed
  then show "needed \<le> grow_read_capacity capacity needed" "capacity \<le> grow_read_capacity capacity needed"
    "grow_read_capacity capacity needed \<le> max capacity (2 * needed)" by auto
qed

lemma ensure_read_capacity_room:
  assumes "websocket_connection_ensure_read_capacity n limit c = (ok, c')"
    and "length (c_read_buffer c) \<le> c_read_buffer_capacity c"
  shows "ok = (length (c_read_buffer c) + n \<le> limit)
   \<and> c_read_buffer c' = c_read_buffer c \<and> c_read_buffer_capacity c \<le> c_read_buffer_capacity c'
   \<and> (if ok then length (c_read_buffer c) + n \<le> c_read_buffer_capacity c'
        \<and> (c_read_buffer_capacity c' = c_read_buffer_capacity c
           \<or> c_read_buffer_capacity c' \<le> limit
             \<and> c_read_buffer_capacity c' \<le> max 1024 (2 * (length (c_read_buffer c) + n)))
      else c' = c)"
proof (cases "n > limit \<or> length (c_read_buffer c) > limit - n")
  case True
  then show ?thesis using assms by (auto simp: websocket_connection_ensure_read_capacity_def)
next
  case False
  then have l: "length (c_read_buffer c) + n \<le> limit" by auto
  show ?thesis
  proof (cases "length (c_read_buffer c) + n \<le> c_read_buffer_capacity c")
    case True
    then show ?thesis using assms False l by (auto simp: websocket_connection_ensure_read_capacity_def)
  next
    case big: False
    define cap where "cap = (if c_read_buffer_capacity c > 0 then c_read_buffer_capacity c else 1024)"
    have "0 < cap" by (simp add: cap_def)
    note g = grow_read_capacity_bounds [OF this, of "length (c_read_buffer c) + n"]
    have "ok" "c' = c\<lparr>c_read_buffer_capacity := min limit (grow_read_capacity cap (length (c_read_buffer c) + n))\<rparr>"
      using assms(1) False big
      by (auto simp: websocket_connection_ensure_read_capacity_def cap_def Let_def min_def split: if_splits)
    then show ?thesis using g l big by (auto simp: cap_def split: if_splits)
  qed
qed

text \<open>C35. Room for the bytes that were read is made if, and only if, they fit the limit. Then the
  buffer holds them, it has grown to at most the limit and at most twice what is needed (or its
  first 1024 bytes), it never shrinks, and its contents stay.\<close>

theorem ensure_read_capacity_bounds:
  assumes "websocket_connection_ensure_read_capacity n limit c = (ok, c')"
    and "length (c_read_buffer c) \<le> c_read_buffer_capacity c"
  shows "ok = (length (c_read_buffer c) + n \<le> limit)
   \<and> c_read_buffer c' = c_read_buffer c \<and> c_read_buffer_capacity c \<le> c_read_buffer_capacity c'
   \<and> (if ok then length (c_read_buffer c) + n \<le> c_read_buffer_capacity c'
        \<and> (c_read_buffer_capacity c' = c_read_buffer_capacity c
           \<or> c_read_buffer_capacity c' \<le> limit
             \<and> c_read_buffer_capacity c' \<le> max 1024 (2 * (length (c_read_buffer c) + n)))
      else c' = c)"
  using assms by (rule ensure_read_capacity_room)

theorem ensure_read_capacity_bounds_witness:
  "\<exists>c'. websocket_connection_ensure_read_capacity 5000 8192 websocket_connection_create_object = (True, c')
     \<and> 5000 \<le> c_read_buffer_capacity c' \<and> c_read_buffer_capacity c' \<le> 8192"
proof -
  obtain ok c' where r: "websocket_connection_ensure_read_capacity 5000 8192 websocket_connection_create_object = (ok, c')"
    by fastforce
  have i: "c_read_buffer websocket_connection_create_object = []" "c_read_buffer_capacity websocket_connection_create_object = 0"
    by (simp_all add: websocket_connection_create_object_def)
  show ?thesis using ensure_read_capacity_bounds [OF r] r i by auto
qed

subsection \<open>Timeouts\<close>

lemma usec_exact:
  "n * 1000 < 2 ^ 64 \<Longrightarrow> unat (word_of_nat n * 1000 :: u64) = n * 1000"
proof -
  assume n: "n * 1000 < 2 ^ 64"
  have "(word_of_nat n * 1000 :: u64) = word_of_nat (n * 1000)" by simp
  moreover have "unat (word_of_nat (n * 1000) :: u64) = n * 1000" using n by (subst unat_of_nat) (simp add: take_bit_nat_eq_self)
  ultimately show ?thesis by (simp only:)
qed

text \<open>The timeout of a connection in milliseconds, and the time of its last sign of life.\<close>

definition timeout_ms :: "server_options \<Rightarrow> websocket_connection \<Rightarrow> nat" where
  [ws_eval]: "timeout_ms options c =
    (if c_upgraded c then websocket_server_positive_option options ''idleTimeoutMs'' WEBSOCKET_DEFAULT_IDLE_TIMEOUT_MS
     else websocket_server_positive_option options ''handshakeTimeoutMs'' WEBSOCKET_DEFAULT_HANDSHAKE_TIMEOUT_MS)"

definition last_seen :: "websocket_connection \<Rightarrow> nat" where
  [ws_eval]: "last_seen c = (if c_last_activity_usec c \<noteq> 0 then unat (c_last_activity_usec c) else unat (c_accepted_at_usec c))"

lemma positive_option_pos: "0 < fallback \<Longrightarrow> 0 < websocket_server_positive_option options name fallback"
  by (auto simp: websocket_server_positive_option_def split: server_options.splits option.splits)

text \<open>C22. A connection has expired exactly when its clock readings are there and as many milliseconds
  have passed since its last sign of life as its state allows: the handshake timeout before the
  upgrade, the idle timeout after it. This holds for timeouts below 2^64 microseconds; see
  \<open>idle_timeout_wraps\<close> for what happens above.\<close>

theorem connection_expired_iff:
  assumes "timeout_ms options c * 1000 < 2 ^ 64"
  shows "websocket_server_connection_expired options now c \<longleftrightarrow>
    now \<noteq> 0 \<and> last_seen c \<noteq> 0 \<and> last_seen c + timeout_ms options c * 1000 \<le> unat now"
proof -
  let ?last = "if c_last_activity_usec c \<noteq> 0 then c_last_activity_usec c else c_accepted_at_usec c"
  let ?t = "if \<not> c_upgraded c then websocket_server_handshake_timeout_usec options else websocket_server_idle_timeout_usec options"
  have t: "unat ?t = timeout_ms options c * 1000"
    using usec_exact [OF assms]
    by (cases "c_upgraded c") (simp_all add: timeout_ms_def websocket_server_handshake_timeout_usec_def websocket_server_idle_timeout_usec_def)
  have l: "unat ?last = last_seen c" by (simp add: last_seen_def)
  have "0 < timeout_ms options c"
    by (simp add: timeout_ms_def positive_option_pos WEBSOCKET_DEFAULT_IDLE_TIMEOUT_MS_def WEBSOCKET_DEFAULT_HANDSHAKE_TIMEOUT_MS_def)
  then have pos: "?t > 0" using t by (simp add: word_less_nat_alt)
  have z: "?last = 0 \<longleftrightarrow> last_seen c = 0" using l by (simp add: unat_eq_0 [symmetric] del: unat_eq_0)
  have "now < ?last \<longleftrightarrow> unat now < last_seen c" using l by (simp add: word_less_nat_alt)
  moreover have "now - ?last \<ge> ?t \<longleftrightarrow> last_seen c + timeout_ms options c * 1000 \<le> unat now" if "\<not> now < ?last"
  proof -
    have "unat (now - ?last) = unat now - last_seen c" using that l unat_sub [of ?last now] by (simp add: not_less)
    moreover have "last_seen c \<le> unat now" using that l by (simp add: word_less_nat_alt not_less)
    ultimately show ?thesis using t by (auto simp: word_le_nat_alt)
  qed
  ultimately show ?thesis
    using pos z unfolding websocket_server_connection_expired_def Let_def by auto
qed

theorem connection_expired_iff_witness:
  "websocket_server_connection_expired OptionsUndef 20000000 (websocket_connection_create_object\<lparr>c_accepted_at_usec := 9000000\<rparr>)
   \<and> \<not> websocket_server_connection_expired OptionsUndef 18999999 (websocket_connection_create_object\<lparr>c_accepted_at_usec := 9000000\<rparr>)"
proof -
  let ?c = "websocket_connection_create_object\<lparr>c_accepted_at_usec := 9000000\<rparr>"
  have v: "timeout_ms OptionsUndef ?c = 10000" "last_seen ?c = 9000000" by code_simp+
  then have "timeout_ms OptionsUndef ?c * 1000 < 2 ^ 64" by simp
  from connection_expired_iff [OF this] show ?thesis by (simp add: v)
qed


subsection \<open>Closing with a code\<close>

text \<open>The queue does not care about the other fields.\<close>

lemma queue_ok_other [simp]:
  "queue_ok (c\<lparr>c_awaiting_pong := x0\<rparr>) = queue_ok c" "pending (c\<lparr>c_awaiting_pong := x0\<rparr>) = pending c"
  "queue_ok (c\<lparr>c_last_ping_usec := x1\<rparr>) = queue_ok c" "pending (c\<lparr>c_last_ping_usec := x1\<rparr>) = pending c"
  "queue_ok (c\<lparr>c_last_activity_usec := x2\<rparr>) = queue_ok c" "pending (c\<lparr>c_last_activity_usec := x2\<rparr>) = pending c"
  "queue_ok (c\<lparr>c_accepted_at_usec := x3\<rparr>) = queue_ok c" "pending (c\<lparr>c_accepted_at_usec := x3\<rparr>) = pending c"
  "queue_ok (c\<lparr>c_read_buffer := x4\<rparr>) = queue_ok c" "pending (c\<lparr>c_read_buffer := x4\<rparr>) = pending c"
  "queue_ok (c\<lparr>c_read_buffer_capacity := x5\<rparr>) = queue_ok c" "pending (c\<lparr>c_read_buffer_capacity := x5\<rparr>) = pending c"
  "queue_ok (c\<lparr>c_fragmented := x6\<rparr>) = queue_ok c" "pending (c\<lparr>c_fragmented := x6\<rparr>) = pending c"
  "queue_ok (c\<lparr>c_fragmented_payload := x7\<rparr>) = queue_ok c" "pending (c\<lparr>c_fragmented_payload := x7\<rparr>) = pending c"
  "queue_ok (c\<lparr>c_fragmented_opcode := x8\<rparr>) = queue_ok c" "pending (c\<lparr>c_fragmented_opcode := x8\<rparr>) = pending c"
  "queue_ok (c\<lparr>c_close_notified := x9\<rparr>) = queue_ok c" "pending (c\<lparr>c_close_notified := x9\<rparr>) = pending c"
  "queue_ok (c\<lparr>c_upgraded := x10\<rparr>) = queue_ok c" "pending (c\<lparr>c_upgraded := x10\<rparr>) = pending c"
  "queue_ok (c\<lparr>c_defer_close := x11\<rparr>) = queue_ok c" "pending (c\<lparr>c_defer_close := x11\<rparr>) = pending c"
  "queue_ok (c\<lparr>c_selected_subprotocol := x12\<rparr>) = queue_ok c" "pending (c\<lparr>c_selected_subprotocol := x12\<rparr>) = pending c"
  "queue_ok (c\<lparr>c_refcount := x13\<rparr>) = queue_ok c" "pending (c\<lparr>c_refcount := x13\<rparr>) = pending c"
  "queue_ok (c\<lparr>c_id := x14\<rparr>) = queue_ok c" "pending (c\<lparr>c_id := x14\<rparr>) = pending c"
  "queue_ok (c\<lparr>c_remote_address := x15\<rparr>) = queue_ok c" "pending (c\<lparr>c_remote_address := x15\<rparr>) = pending c"
  "queue_ok (c\<lparr>c_remote_addr := x16\<rparr>) = queue_ok c" "pending (c\<lparr>c_remote_addr := x16\<rparr>) = pending c"
  by (rule queue_ok_cong; simp)+


lemma close_after_write_facts:
  assumes "websocket_connection_close_after_write D c w = (c', w')" "queue_ok c"
  shows "queue_ok c' \<and> \<not> Connection_isOpen c' \<and> w_wire w' = w_wire w
    \<and> (if c_open c' then c' = c\<lparr>c_close_after_write := True\<rparr> \<and> c_write_queue c' \<noteq> [] \<and> w' = w \<and> c_open c
       else if c_open c then c_fd c' < 0 \<and> c_write_queue c' = [] \<and> c_write_queue c = [] else c' = c \<and> w' = w)"
proof (cases "c_open c \<and> c_write_queue c = []")
  case True
  then have cs: "websocket_connection_close_socket D c w = (c', w')"
    using assms(1) by (simp add: websocket_connection_close_after_write_def websocket_connection_has_pending_writes_def)
  from close_socket_facts [OF cs] True show ?thesis
    by (simp add: Connection_isOpen_def queue_ok_empty)
next
  case False
  show ?thesis
  proof (cases "c_open c")
    case True
    then have "c' = c\<lparr>c_close_after_write := True\<rparr>" "w' = w"
      using assms(1) False
      by (simp_all add: websocket_connection_close_after_write_def websocket_connection_has_pending_writes_def)
    then show ?thesis using True False assms(2) by (simp add: Connection_isOpen_def)
  next
    case False
    then have "c' = c" "w' = w" using assms(1) by (simp_all add: websocket_connection_close_after_write_def)
    then show ?thesis using False assms(2) by (simp add: Connection_isOpen_def)
  qed
qed

lemma pending_empty_iff: "queue_ok c \<Longrightarrow> pending c = [] \<longleftrightarrow> c_write_queue c = []"
  by (cases "c_write_queue c") (auto simp: queue_ok_def pending_Cons)

lemma close_with_code:
  assumes "websocket_server_close_with_code D code reason c w = (ok, c', w')" "queue_ok c"
  shows "ok \<and> queue_ok c' \<and> \<not> Connection_isOpen c'
   \<and> (if c_open c' then c_fd c' = c_fd c \<and> c_close_after_write c' \<and> pending c' \<noteq> []
        \<and> (\<exists>payload. websocket_protocol_close_payload code (case reason of Some r \<Rightarrow> r | None \<Rightarrow> []) = Inr payload
             \<and> w_wire w' (c_fd c) @ pending c' = w_wire w (c_fd c) @ pending c @ server_frame payload OPCODE_CLOSE)
      else c_fd c' < 0 \<and> pending c' = [])"
proof -
  let ?r = "case reason of Some r \<Rightarrow> r | None \<Rightarrow> []"
  obtain ok1 c1 w1 where s: "websocket_connection_send_close_frame D code ?r c w = (ok1, c1, w1)" by (metis prod_cases3)
  note run = assms(1) [unfolded websocket_server_close_with_code_def s prod.case]
  show ?thesis
  proof (cases ok1)
    case False
    then have cs: "websocket_connection_close_socket D c1 w1 = (c', w')" and "ok"
      using run by (auto split: prod.splits)
    from close_socket_facts(1) [OF cs] \<open>ok\<close> show ?thesis by (simp add: queue_ok_empty Connection_isOpen_def)
  next
    case True
    then have ca: "websocket_connection_close_after_write D c1 w1 = (c', w')" and ok: ok
      using run by (auto split: prod.splits)
    obtain payload where p: "websocket_protocol_close_payload code ?r = Inr payload"
      and sf: "websocket_connection_send_frame D payload OPCODE_CLOSE c w = (ok1, c1, w1)"
      using s True by (auto simp: websocket_connection_send_close_frame_def split: if_splits sum.splits)
    note f = send_frame [OF sf assms(2)]
    then obtain w2 bs where w2: "sent_on (c_fd c) bs w w2" "quiet w2 w1" "bs @ pending c1 = pending c @ server_frame payload OPCODE_CLOSE"
      using True by blast
    have q1: "queue_ok c1" "c_open c1" "c_fd c1 = c_fd c" using f True same_but_queueD(1) by auto
    note a = close_after_write_facts [OF ca q1(1)]
    have wire: "w_wire w' (c_fd c) = w_wire w (c_fd c) @ bs"
      using a sent_onD(1) [OF w2(1)] quietD(1) [OF w2(2)] by simp
    show ?thesis
    proof (cases "c_open c'")
      case True
      then have c': "c' = c1\<lparr>c_close_after_write := True\<rparr>" "c_write_queue c' \<noteq> []" using a by auto
      have fields: "pending c' = pending c1" "c_fd c' = c_fd c" "c_close_after_write c'" using q1 by (simp_all add: c'(1))
      have "w_wire w' (c_fd c) @ pending c' = w_wire w (c_fd c) @ pending c @ server_frame payload OPCODE_CLOSE"
        unfolding wire fields(1) using w2(3) by simp
      moreover have "pending c' \<noteq> []" using a c'(2) pending_empty_iff by blast
      moreover have "queue_ok c'" "\<not> Connection_isOpen c'" using a by blast+
      ultimately show ?thesis unfolding if_P [OF True] using ok fields(2,3) p by blast
    next
      case False
      then show ?thesis using a ok q1(2) by simp
    qed
  qed
qed

lemma close_with_code_any:
  "websocket_server_close_with_code D code reason c w = (ok, c', w') \<Longrightarrow> queue_ok c \<Longrightarrow>
     ok \<and> queue_ok c' \<and> \<not> Connection_isOpen c'"
  using close_with_code by blast



subsection \<open>The heartbeat\<close>

definition ping_interval_ms :: "server_options \<Rightarrow> nat" where
  [ws_eval]: "ping_interval_ms options =
    websocket_server_nonnegative_option options ''pingIntervalMs'' WEBSOCKET_DEFAULT_PING_INTERVAL_MS"

text \<open>Is a ping due?\<close>

definition ping_due :: "server_options \<Rightarrow> u64 \<Rightarrow> websocket_connection \<Rightarrow> bool" where
  [ws_eval]: "ping_due options now c \<longleftrightarrow>
    0 < ping_interval_ms options \<and> now \<noteq> 0 \<and> Connection_isOpen c \<and> c_upgraded c \<and> \<not> c_awaiting_pong c
  \<and> last_seen c \<noteq> 0 \<and> last_seen c + ping_interval_ms options * 1000 \<le> unat now"

lemma heartbeat_cases:
  assumes "websocket_server_process_heartbeat D options now c w = (ok, c', w')" "ping_interval_ms options * 1000 < 2 ^ 64"
  shows "c' = c \<and> w' = w \<and> ok \<and> \<not> ping_due options now c
    \<or> websocket_server_close_with_code D CLOSE_NORMAL (Some (lit ''pong timeout'')) c w = (ok, c', w')
        \<and> Connection_isOpen c \<and> c_awaiting_pong c \<and> \<not> ping_due options now c
    \<or> ping_due options now c \<and> (\<exists>c1 w1. websocket_connection_send_frame D [] OPCODE_PING c w = (False, c1, w1)
        \<and> websocket_server_close_with_code D CLOSE_NORMAL (Some (lit ''heartbeat failed'')) c1 w1 = (ok, c', w'))
    \<or> ping_due options now c \<and> ok \<and> (\<exists>c1. websocket_connection_send_frame D [] OPCODE_PING c w = (True, c1, w')
        \<and> c' = c1\<lparr>c_awaiting_pong := True, c_last_ping_usec := now\<rparr>)"
proof -
  let ?last = "if c_last_activity_usec c \<noteq> 0 then c_last_activity_usec c else c_accepted_at_usec c"
  have i: "unat (websocket_server_ping_interval_usec options) = ping_interval_ms options * 1000"
    using usec_exact [OF assms(2)] by (simp add: ping_interval_ms_def websocket_server_ping_interval_usec_def)
  have l: "unat ?last = last_seen c" by (simp add: last_seen_def)
  have z: "websocket_server_ping_interval_usec options = 0 \<longleftrightarrow> ping_interval_ms options = 0" "?last = 0 \<longleftrightarrow> last_seen c = 0"
    using i l by (simp_all add: unat_eq_0 [symmetric] del: unat_eq_0)
  have lt: "now < ?last \<longleftrightarrow> unat now < last_seen c" using l by (simp add: word_less_nat_alt)
  have d: "now - ?last < websocket_server_ping_interval_usec options \<longleftrightarrow> unat now < last_seen c + ping_interval_ms options * 1000"
    if "\<not> now < ?last"
  proof -
    have "unat (now - ?last) = unat now - last_seen c" using that l unat_sub [of ?last now] by (simp add: not_less)
    moreover have "last_seen c \<le> unat now" using that l by (simp add: word_less_nat_alt not_less)
    ultimately show ?thesis using i by (auto simp: word_less_nat_alt)
  qed
  let ?off = "websocket_server_ping_interval_usec options = 0 \<or> now = 0 \<or> \<not> c_open c \<or> \<not> c_upgraded c \<or> c_close_after_write c"
  let ?early = "?last = 0 \<or> now < ?last \<or> now - ?last < websocket_server_ping_interval_usec options"
  have due: "ping_due options now c \<longleftrightarrow> \<not> ?off \<and> \<not> c_awaiting_pong c \<and> \<not> ?early"
    using z lt d unfolding ping_due_def Connection_isOpen_def by auto
  show ?thesis
  proof (cases "?off \<or> c_awaiting_pong c")
    case True
    then have "\<not> ping_due options now c" using due by blast
    then show ?thesis using assms(1) True unfolding websocket_server_process_heartbeat_def Let_def
      by (auto simp: Connection_isOpen_def split: if_splits)
  next
    case False
    then have off: "\<not> ?off" "\<not> c_awaiting_pong c" by auto
    note run = assms(1) [unfolded websocket_server_process_heartbeat_def Let_def if_not_P [OF off(1)] if_not_P [OF off(2)]]
    show ?thesis
    proof (cases ?early)
      case e: True
      then show ?thesis using run [unfolded if_P [OF e]] due by auto
    next
      case e: False
      obtain ok1 c1 w1 where s: "websocket_connection_send_frame D [] OPCODE_PING c w = (ok1, c1, w1)" by (metis prod_cases3)
      have "ping_due options now c" using due off e by blast
      then show ?thesis using run [unfolded if_not_P [OF e] s prod.case] s by (cases ok1) auto
    qed
  qed
qed



theorem server_reads_packed_witness:
  "Protocol_pack True \<lparr>getrandom_results = [Got [1, 2, 3, 4]], open_results = [], read_results = []\<rparr>
     (PackString [72, 105]) 1 33 = Inr [0x81, 0x82, 1, 2, 3, 4, 73, 107]
   \<and> server_answer 10 [0x81, 0x82, 1, 2, 3, 4, 73, 107] = Some (FrameOk,
       \<lparr>sf_opcode = 1, sf_final = True, sf_bytes_consumed = 8, sf_payload = Some [72, 105]\<rparr>)
   \<and> server_answer 10 [0x81, 0x82, 1, 2, 3, 4, 73] = None"
proof -
  let ?f = "[0x81, 0x82, 1, 2, 3, 4, 73, 107] :: bytes"
  have p: "Protocol_pack True \<lparr>getrandom_results = [Got [1, 2, 3, 4]], open_results = [], read_results = []\<rparr>
     (PackString [72, 105]) 1 33 = Inr ?f"
    by code_simp
  have a: "pack_arguments (PackString [72, 105]) 1 33 = Inr ([72, 105], 1, 33)" by (simp add: pack_arguments_def)
  note r = server_reads_packed [OF p a, of 10 _ "[]"]
  show ?thesis using p r [of 8] r [of 7] by simp
qed


end
