(* ===== verification/Ws_Api.thy ===== *)
theory Ws_Api
  imports Ws_Http Ws_Server
begin

text \<open>
  The value objects of the PHP interface (\<^verbatim>\<open>websocket_server.c\<close>): \<^verbatim>\<open>ServerOptions\<close>, \<^verbatim>\<open>Request\<close>,
  \<^verbatim>\<open>HandshakeResponse\<close> and \<^verbatim>\<open>HandshakeException\<close>, the list of subprotocols, and the HTTP response
  a rejected handshake sends (\<^verbatim>\<open>websocket_server_runtime.c\<close>).
\<close>

text \<open>A PHP value where the code wants a string: the string, or the name of another type.\<close>

datatype php_value = PhpString bytes | PhpOther string

subsection \<open>\<^verbatim>\<open>ServerOptions\<close>\<close>

text \<open>The seven arguments; one that is not given has the default of the code.\<close>

definition ServerOptions_construct ::
    "int option \<Rightarrow> int option \<Rightarrow> int option \<Rightarrow> int option \<Rightarrow> int option \<Rightarrow> int option \<Rightarrow> int option
      \<Rightarrow> php_error + server_options" where
  [ws_eval]: "ServerOptions_construct a1 a2 a3 a4 a5 a6 a7 =
    (let max_message_size = (case a1 of Some v \<Rightarrow> v | None \<Rightarrow> int WEBSOCKET_DEFAULT_MAX_MESSAGE_SIZE);
         max_queued_bytes = (case a2 of Some v \<Rightarrow> v | None \<Rightarrow> int WEBSOCKET_DEFAULT_MAX_QUEUED_BYTES);
         max_connections = (case a3 of Some v \<Rightarrow> v | None \<Rightarrow> int WEBSOCKET_DEFAULT_MAX_CONNECTIONS);
         handshake_timeout_ms = (case a4 of Some v \<Rightarrow> v | None \<Rightarrow> int WEBSOCKET_DEFAULT_HANDSHAKE_TIMEOUT_MS);
         idle_timeout_ms = (case a5 of Some v \<Rightarrow> v | None \<Rightarrow> int WEBSOCKET_DEFAULT_IDLE_TIMEOUT_MS);
         ping_interval_ms = (case a6 of Some v \<Rightarrow> v | None \<Rightarrow> int WEBSOCKET_DEFAULT_PING_INTERVAL_MS);
         pong_timeout_ms = (case a7 of Some v \<Rightarrow> v | None \<Rightarrow> int WEBSOCKET_DEFAULT_PONG_TIMEOUT_MS) in
     if max_message_size < 1 then Inl (ArgumentValueError 1 ''must be at least 1'')
     else if max_queued_bytes < 1 then Inl (ArgumentValueError 2 ''must be at least 1'')
     else if max_connections < 1 then Inl (ArgumentValueError 3 ''must be at least 1'')
     else if handshake_timeout_ms < 1 then Inl (ArgumentValueError 4 ''must be at least 1'')
     else if idle_timeout_ms < 1 then Inl (ArgumentValueError 5 ''must be at least 1'')
     else if ping_interval_ms < 0 then Inl (ArgumentValueError 6 ''must be at least 0'')
     else if pong_timeout_ms < 1 then Inl (ArgumentValueError 7 ''must be at least 1'')
     else Inr (OptionsObject
       [''maxMessageSize'' \<mapsto> max_message_size, ''maxQueuedBytes'' \<mapsto> max_queued_bytes,
        ''maxConnections'' \<mapsto> max_connections, ''handshakeTimeoutMs'' \<mapsto> handshake_timeout_ms,
        ''idleTimeoutMs'' \<mapsto> idle_timeout_ms, ''pingIntervalMs'' \<mapsto> ping_interval_ms,
        ''pongTimeoutMs'' \<mapsto> pong_timeout_ms]))"

subsection \<open>\<^verbatim>\<open>Request\<close>\<close>

record ws_request =
  req_method :: bytes
  req_target :: bytes
  req_headers :: "(bytes \<times> bytes) list"

definition websocket_server_create_request :: "websocket_http_upgrade \<Rightarrow> ws_request" where
  [ws_eval]: "websocket_server_create_request upgrade =
    \<lparr>req_method = up_method upgrade, req_target = up_target upgrade,
     req_headers = websocket_http_upgrade_request_headers upgrade\<rparr>"

definition Request_header :: "bytes \<Rightarrow> ws_request \<Rightarrow> bytes option" where
  [ws_eval]: "Request_header name request = map_of (req_headers request) (map to_lower name)"

subsection \<open>\<^verbatim>\<open>HandshakeResponse\<close> and \<^verbatim>\<open>HandshakeException\<close>\<close>

record handshake_response =
  hr_status :: int
  hr_headers :: "(bytes \<times> bytes) list"
  hr_body :: bytes

definition websocket_header_value_is_valid :: "bytes \<Rightarrow> bool" where
  [ws_eval]: "websocket_header_value_is_valid v \<longleftrightarrow>
     memchr v CR (length v) = None \<and> memchr v LF (length v) = None"

text \<open>The loop over the array of headers; an integer key has no name.\<close>

fun normalize_headers ::
    "(bytes option \<times> php_value) list \<Rightarrow> (bytes \<times> bytes) list \<Rightarrow> php_error + (bytes \<times> bytes) list" where
  "normalize_headers [] normalized = Inr normalized"
| "normalize_headers ((name_opt, v) # hs) normalized =
    (case name_opt of
       None \<Rightarrow> Inl (ArgumentValueError 2 ''must contain valid HTTP header names'')
     | Some name \<Rightarrow>
         if \<not> websocket_http_validate_subprotocol_token name then
           Inl (ArgumentValueError 2 ''must contain valid HTTP header names'')
         else
           (case v of
              PhpOther t \<Rightarrow> Inl (ArgumentTypeError 2 (''must contain string header values, '' @ t @ '' given''))
            | PhpString s \<Rightarrow>
                if \<not> websocket_header_value_is_valid s then
                  Inl (ArgumentValueError 2 ''must contain HTTP header values without CR or LF'')
                else normalize_headers hs (normalized @ [(name, s)])))"

definition HandshakeResponse_construct ::
    "int option \<Rightarrow> (bytes option \<times> php_value) list option \<Rightarrow> bytes option \<Rightarrow> php_error + handshake_response" where
  [ws_eval]: "HandshakeResponse_construct status_arg headers_arg body_arg =
    (let status = (case status_arg of Some s \<Rightarrow> s | None \<Rightarrow> 403);
         body = (case body_arg of Some b \<Rightarrow> b | None \<Rightarrow> []) in
     if status < 100 \<or> status > 599 \<or> status = 101 then
       Inl (ArgumentValueError 1 ''must be a valid non-101 HTTP status code'')
     else
       (case (case headers_arg of None \<Rightarrow> Inr [] | Some hs \<Rightarrow> normalize_headers hs []) of
          Inl e \<Rightarrow> Inl e
        | Inr normalized \<Rightarrow> Inr \<lparr>hr_status = status, hr_headers = normalized, hr_body = body\<rparr>))"

text \<open>The response of the exception; the default is an empty 403.\<close>

definition HandshakeException_construct :: "handshake_response option \<Rightarrow> handshake_response" where
  [ws_eval]: "HandshakeException_construct response =
    (case response of Some r \<Rightarrow> r | None \<Rightarrow> \<lparr>hr_status = 403, hr_headers = [], hr_body = []\<rparr>)"

definition websocket_http_reason_phrase :: "int \<Rightarrow> string" where
  [ws_eval]: "websocket_http_reason_phrase status =
    (if status = 200 then ''OK''
     else if status = 400 then ''Bad Request''
     else if status = 401 then ''Unauthorized''
     else if status = 403 then ''Forbidden''
     else if status = 404 then ''Not Found''
     else if status = 429 then ''Too Many Requests''
     else if status = 500 then ''Internal Server Error''
     else if status = 503 then ''Service Unavailable''
     else ''Rejected'')"

definition equals_literal_ci :: "bytes \<Rightarrow> string \<Rightarrow> bool" where
  [ws_eval]: "equals_literal_ci name s \<longleftrightarrow> map to_lower name = map to_lower (lit s)"

text \<open>The bytes \<^verbatim>\<open>websocket_server_send_handshake_response\<close> builds.\<close>

fun handshake_header_lines :: "(bytes \<times> bytes) list \<Rightarrow> bytes" where
  "handshake_header_lines [] = []"
| "handshake_header_lines ((name, v) # hs) = name @ lit '': '' @ v @ CRLF @ handshake_header_lines hs"

definition handshake_response_bytes :: "handshake_response \<Rightarrow> bytes" where
  [ws_eval]: "handshake_response_bytes r =
    (let has_connection = list_ex (\<lambda>(name, v). equals_literal_ci name ''Connection'') (hr_headers r);
         has_content_length = list_ex (\<lambda>(name, v). \<not> equals_literal_ci name ''Connection''
             \<and> equals_literal_ci name ''Content-Length'') (hr_headers r)
     in lit (''HTTP/1.1 '' @ decimal_int (hr_status r) @ '' '' @ websocket_http_reason_phrase (hr_status r)) @ CRLF
        @ handshake_header_lines (hr_headers r)
        @ (if \<not> has_connection then lit ''Connection: close'' @ CRLF else [])
        @ (if \<not> has_content_length then lit (''Content-Length: '' @ decimal (length (hr_body r))) @ CRLF else [])
        @ CRLF @ hr_body r)"

definition websocket_server_send_handshake_response :: "int \<Rightarrow> handshake_response \<Rightarrow> 'd world \<Rightarrow> bool \<times> 'd world" where
  [ws_eval]: "websocket_server_send_handshake_response fd r w =
    websocket_server_send_bytes fd (handshake_response_bytes r) 0 w"

subsection \<open>The list of subprotocols\<close>

text \<open>The loop of \<^verbatim>\<open>Server::subprotocols\<close>: \<open>i\<close> is the index, the keys of \<open>normalized\<close> are those of \<^verbatim>\<open>seen\<close>.\<close>

fun normalize_subprotocols :: "php_value list \<Rightarrow> nat \<Rightarrow> bytes list \<Rightarrow> php_error + bytes list" where
  "normalize_subprotocols [] i normalized = Inr normalized"
| "normalize_subprotocols (protocol # protocols) i normalized =
    (case protocol of
       PhpOther t \<Rightarrow> Inl (ArgumentTypeError (i + 1) (''must be of type string, '' @ t @ '' given''))
     | PhpString s \<Rightarrow>
         if \<not> websocket_http_validate_subprotocol_token s then
           Inl (ArgumentValueError (i + 1) ''must be a valid WebSocket subprotocol token'')
         else if s \<in> set normalized then
           Inl (ArgumentValueError (i + 1) ''must not duplicate a previous subprotocol'')
         else normalize_subprotocols protocols (i + 1) (normalized @ [s]))"

subsection \<open>A response is one response\<close>

lemma normalize_headers_Inr:
  "normalize_headers hs acc = Inr r \<Longrightarrow>
     \<exists>hs'. r = acc @ hs' \<and> hs = map (\<lambda>(n, v). (Some n, PhpString v)) hs'
       \<and> (\<forall>(n, v)\<in>set hs'. websocket_http_validate_subprotocol_token n \<and> websocket_header_value_is_valid v)"
proof (induction hs acc rule: normalize_headers.induct)
  case (2 name_opt v hs acc)
  then obtain n s where nv: "name_opt = Some n" "v = PhpString s" "websocket_http_validate_subprotocol_token n"
    "websocket_header_value_is_valid s" and r: "normalize_headers hs (acc @ [(n, s)]) = Inr r"
    by (auto split: option.splits if_splits php_value.splits)
  from "2.IH" [OF nv(1) _ nv(2) _ r] nv(3,4) obtain hs' where
    "r = (acc @ [(n, s)]) @ hs'" "hs = map (\<lambda>(n, v). (Some n, PhpString v)) hs'"
    "\<forall>(n, v)\<in>set hs'. websocket_http_validate_subprotocol_token n \<and> websocket_header_value_is_valid v" by auto
  then show ?case using nv by (intro exI [of _ "(n, s) # hs'"]) simp
qed simp

text \<open>The lines in front of the body.\<close>

definition response_lines :: "handshake_response \<Rightarrow> bytes list" where
  "response_lines r =
    lit (''HTTP/1.1 '' @ decimal_int (hr_status r) @ '' '' @ websocket_http_reason_phrase (hr_status r))
    # map (\<lambda>(n, v). n @ lit '': '' @ v) (hr_headers r)
    @ (if list_ex (\<lambda>(n, v). equals_literal_ci n ''Connection'') (hr_headers r) then [] else [lit ''Connection: close''])
    @ (if list_ex (\<lambda>(n, v). \<not> equals_literal_ci n ''Connection'' \<and> equals_literal_ci n ''Content-Length'') (hr_headers r)
       then [] else [lit (''Content-Length: '' @ decimal (length (hr_body r)))])"

lemma handshake_header_lines_eq:
  "handshake_header_lines hs = concat (map text_line (map (\<lambda>(n, v). n @ lit '': '' @ v) hs))"
  by (induction hs) (auto simp: text_line_def)

lemma response_bytes_lines:
  "handshake_response_bytes r = concat (map text_line (response_lines r)) @ CRLF @ hr_body r"
  by (simp add: handshake_response_bytes_def response_lines_def handshake_header_lines_eq text_line_def Let_def)

lemma decimal_digits: "ch \<in> set (decimal n) \<Longrightarrow> \<exists>d::nat. d < 10 \<and> ch = char_of (48 + d)"
proof (induction n rule: decimal.induct)
  case (1 n)
  show ?case
  proof (cases "n < 10")
    case False
    then have "ch \<in> set (decimal (n div 10)) \<or> ch = char_of (48 + n mod 10)" using "1.prems" by (auto simp: decimal.simps [of n])
    moreover have "n mod 10 < 10" by simp
    ultimately show ?thesis using "1.IH" [OF False] by blast
  qed (use 1 in \<open>auto simp: decimal.simps [of n]\<close>)
qed

definition clean_line :: "bytes \<Rightarrow> bool" where
  [ws_eval]: "clean_line l \<longleftrightarrow> l \<noteq> [] \<and> CR \<notin> set l \<and> LF \<notin> set l"

lemma lit_clean:
  assumes "\<forall>ch\<in>set s. (of_char ch :: byte) \<noteq> CR \<and> (of_char ch :: byte) \<noteq> LF" "s \<noteq> []"
  shows "clean_line (lit s)"
  using assms by (auto simp: clean_line_def lit_def)

lemma decimal_clean: "\<forall>ch\<in>set (decimal n). (of_char ch :: byte) \<noteq> CR \<and> (of_char ch :: byte) \<noteq> LF"
proof
  fix ch assume "ch \<in> set (decimal n)"
  then obtain d :: nat where d: "d < 10" "ch = char_of (48 + d)" using decimal_digits by blast
  have "(of_char ch :: byte) = of_nat (of_char ch)" by (rule of_nat_of_char [symmetric])
  also have "\<dots> = of_nat (48 + d)" using d by simp
  finally have c: "(of_char ch :: byte) = of_nat (48 + d)" .
  have "unat (of_nat (48 + d) :: byte) = 48 + d" using d(1) by (subst unat_of_nat) (simp add: take_bit_nat_eq_self)
  then have "unat (of_char ch :: byte) = 48 + d" by (simp only: c)
  then show "(of_char ch :: byte) \<noteq> CR \<and> (of_char ch :: byte) \<noteq> LF" by auto
qed

lemma reason_phrase_clean:
  "\<forall>ch\<in>set (websocket_http_reason_phrase st). (of_char ch :: byte) \<noteq> CR \<and> (of_char ch :: byte) \<noteq> LF"
  by (simp add: websocket_http_reason_phrase_def of_char_def)

lemma valid_token_clean: "websocket_http_validate_subprotocol_token n \<Longrightarrow> n \<noteq> [] \<and> CR \<notin> set n \<and> LF \<notin> set n"
  by (auto simp: websocket_http_validate_subprotocol_token_def list_all_iff split: if_splits)

lemma response_lines_clean:
  assumes "HandshakeResponse_construct status_arg headers_arg body_arg = Inr r"
  shows "\<forall>l\<in>set (response_lines r). clean_line l"
proof -
  have n: "\<exists>hs. normalize_headers hs [] = Inr []" by (rule exI [of _ "[]"]) simp
  have "\<exists>hs. normalize_headers hs [] = Inr (hr_headers r)" and st: "0 \<le> hr_status r"
    using assms n
    by (auto simp: HandshakeResponse_construct_def Let_def split: if_splits sum.splits option.splits)
  then have h: "\<forall>(n, v)\<in>set (hr_headers r). websocket_http_validate_subprotocol_token n \<and> websocket_header_value_is_valid v"
    using normalize_headers_Inr by fastforce
  have "clean_line (n @ lit '': '' @ v)" if "(n, v) \<in> set (hr_headers r)" for n v
    using bspec [OF h that] valid_token_clean [of n]
    by (auto simp: clean_line_def websocket_header_value_is_valid_def memchr_None_iff lit_def of_char_def)
  moreover have "clean_line (lit (''HTTP/1.1 '' @ decimal_int (hr_status r) @ '' '' @ websocket_http_reason_phrase (hr_status r)))"
    using decimal_clean [of "nat (hr_status r)"] reason_phrase_clean [of "hr_status r"] st
    by (intro lit_clean) (simp_all add: decimal_int_def of_char_def ball_Un)
  moreover have "clean_line (lit ''Connection: close'')" by (intro lit_clean) (simp_all add: of_char_def)
  moreover have "clean_line (lit (''Content-Length: '' @ decimal (length (hr_body r))))"
    using decimal_clean [of "length (hr_body r)"] by (intro lit_clean) (simp_all add: of_char_def ball_Un)
  ultimately show ?thesis by (auto simp: response_lines_def)
qed

text \<open>C25. No response splitting: whatever status, headers and body a handler gives to a
  \<^verbatim>\<open>HandshakeResponse\<close>, the server sends one HTTP response. It is a sequence of lines without CR
  or LF, the first of them the status line, an empty line, and the body; the first empty line a
  client finds is that one.\<close>

theorem handshake_response_is_one_response:
  assumes "HandshakeResponse_construct status_arg headers_arg body_arg = Inr r"
  shows "handshake_response_bytes r = concat (map text_line (response_lines r)) @ CRLF @ hr_body r
   \<and> list_all clean_line (response_lines r)
   \<and> websocket_http_find_header_end (handshake_response_bytes r) = Some (length (concat (map text_line (response_lines r))) - 2)"
proof -
  have c: "\<forall>l\<in>set (response_lines r). clean_line l" by (rule response_lines_clean [OF assms])
  obtain l ls where rl: "response_lines r = l # ls" by (simp add: response_lines_def)
  have "\<forall>l\<in>set (l # ls). l \<noteq> [] \<and> CR \<notin> set l" using c unfolding rl clean_line_def by blast
  from find_header_end_lines [OF this, of "hr_body r"]
  show ?thesis using c unfolding websocket_http_find_header_end_eq response_bytes_lines rl by (simp add: list_all_iff)
qed

theorem handshake_response_is_one_response_witness:
  "\<exists>r. HandshakeResponse_construct (Some 429) (Some [(Some [88], PhpString [49])]) (Some [13, 10]) = Inr r
     \<and> websocket_http_find_header_end (handshake_response_bytes r) = Some (length (concat (map text_line (response_lines r))) - 2)"
proof -
  have "HandshakeResponse_construct (Some 429) (Some [(Some [88], PhpString [49])]) (Some [13, 10])
    = Inr \<lparr>hr_status = 429, hr_headers = [([88], [49])], hr_body = [13, 10]\<rparr>"
    by code_simp
  then show ?thesis using handshake_response_is_one_response by blast
qed

subsection \<open>The subprotocols are distinct tokens\<close>

lemma normalize_subprotocols_iff:
  "normalize_subprotocols ps i acc = Inr r \<longleftrightarrow>
     (\<exists>ss. ps = map PhpString ss \<and> r = acc @ ss \<and> list_all websocket_http_validate_subprotocol_token ss
         \<and> distinct ss \<and> set ss \<inter> set acc = {})"
proof (induction ps i acc rule: normalize_subprotocols.induct)
  case (2 p ps i acc)
  show ?case
  proof (cases p)
    case (PhpString s)
    show ?thesis
    proof (cases "websocket_http_validate_subprotocol_token s \<and> s \<notin> set acc")
      case True
      then have "normalize_subprotocols (p # ps) i acc = Inr r \<longleftrightarrow> normalize_subprotocols ps (i + 1) (acc @ [s]) = Inr r"
        by (simp add: PhpString)
      also have "\<dots> \<longleftrightarrow> (\<exists>ss. ps = map PhpString ss \<and> r = (acc @ [s]) @ ss \<and> list_all websocket_http_validate_subprotocol_token ss
         \<and> distinct ss \<and> set ss \<inter> set (acc @ [s]) = {})"
        using "2.IH" [OF PhpString] True by simp
      also have "\<dots> \<longleftrightarrow> (\<exists>ss. p # ps = map PhpString ss \<and> r = acc @ ss \<and> list_all websocket_http_validate_subprotocol_token ss
         \<and> distinct ss \<and> set ss \<inter> set acc = {})"
        using True PhpString by (auto simp: Cons_eq_map_conv)
      finally show ?thesis .
    qed (auto simp: PhpString Cons_eq_map_conv)
  qed (auto simp: Cons_eq_map_conv)
qed auto

text \<open>C36. The arguments \<^verbatim>\<open>Server::subprotocols\<close> accepts are exactly the lists of distinct tokens, and
  it keeps them in their order.\<close>

theorem normalize_subprotocols_ok_iff:
  "normalize_subprotocols ps 0 [] = Inr r \<longleftrightarrow>
     ps = map PhpString r \<and> list_all websocket_http_validate_subprotocol_token r \<and> distinct r"
  by (auto simp: normalize_subprotocols_iff)

text \<open>C37. \<^verbatim>\<open>ServerOptions\<close> keeps what it accepts: the limits and timeouts the server reads back are the
  ones given, and one that is below its minimum is refused.\<close>

theorem server_options_roundtrip:
  "(\<exists>options. ServerOptions_construct (Some a1) (Some a2) (Some a3) (Some a4) (Some a5) (Some a6) (Some a7) = Inr options
     \<and> int (websocket_server_max_message_size options) = a1 \<and> int (websocket_server_max_queued_bytes options) = a2
     \<and> int (websocket_server_max_connections options) = a3
     \<and> websocket_server_handshake_timeout_usec options = word_of_int a4 * 1000
     \<and> websocket_server_idle_timeout_usec options = word_of_int a5 * 1000
     \<and> websocket_server_ping_interval_usec options = word_of_int a6 * 1000
     \<and> websocket_server_pong_timeout_usec options = word_of_int a7 * 1000)
   \<longleftrightarrow> 1 \<le> a1 \<and> 1 \<le> a2 \<and> 1 \<le> a3 \<and> 1 \<le> a4 \<and> 1 \<le> a5 \<and> 0 \<le> a6 \<and> 1 \<le> a7"
proof -
  have w: "0 \<le> a \<Longrightarrow> (word_of_nat (nat a) :: u64) = word_of_int a" for a by simp
  show ?thesis
    by (auto simp: ServerOptions_construct_def websocket_server_max_message_size_def websocket_server_max_queued_bytes_def
      websocket_server_max_connections_def websocket_server_handshake_timeout_usec_def websocket_server_idle_timeout_usec_def
      websocket_server_ping_interval_usec_def websocket_server_pong_timeout_usec_def
      websocket_server_positive_option_def websocket_server_nonnegative_option_def w)
qed

end
