(* ===== verification/Ws_Runtime.thy ===== *)
theory Ws_Runtime
  imports Ws_Api
begin

text \<open>
  The server object and its run (\<^verbatim>\<open>websocket_server_runtime.c\<close>, \<^verbatim>\<open>websocket_server.c\<close>): handlers,
  frames, the handshake, accepting, closing, and the loop around them.

  The server and the globals of the module are one record. Connections are objects on a heap,
  \<open>g_objects\<close>, and \<open>v_connections\<close> holds their handles, because PHP code may keep a connection
  and call it from any handler.

  PHP code is a tree of calls into the extension (\<open>php_code\<close>). A handler is a function of
  everything that has happened so far (\<open>g_log\<close>), so that any deterministic PHP program, with any
  state of its own, is one.
\<close>

subsection \<open>PHP code\<close>

text \<open>\<^verbatim>\<open>HandshakeException\<close> carries its response, \<open>None\<close> if a subclass has left that property unset.\<close>

datatype php_exception =
    ThrownError php_error
  | HandshakeException "handshake_response option"
  | UserException string

text \<open>
  What PHP code can do with the extension while a server runs: the methods and magic properties
  of a connection, keeping and dropping a reference to one, and \<^verbatim>\<open>Server::stop\<close>.
\<close>

datatype api_call =
    ApiSend nat bytes "message_type option"
  | ApiClose nat "int option" "bytes option"
  | ApiIsOpen nat
  | ApiRead nat bytes
  | ApiRetain nat
  | ApiRelease nat
  | ApiStop

datatype api_result =
    ApiDone
  | ApiThrew php_error
  | ApiBool bool
  | ApiProperty "property_value option"

text \<open>How a handler ends; \<open>ReturnedOther\<close> has the name of the type. \<open>CallFailed\<close> is \<^verbatim>\<open>FAILURE\<close> of
  \<^verbatim>\<open>call_user_function\<close>.\<close>

datatype php_outcome = ReturnedNull | ReturnedFalse | ReturnedOther string | Threw php_exception | CallFailed

datatype php_code = Finish php_outcome | Call api_call "api_result \<Rightarrow> php_code"

datatype server_event =
    OpenEvent nat
  | HandshakeEvent nat ws_request
  | MessageEvent nat bytes message_type
  | CloseEvent nat
  | ApiEvent api_call api_result

subsection \<open>The server object\<close>

record 'd websocket_server =
  v_options :: server_options
  v_subprotocols :: "bytes list option"
  v_on_open :: "(server_event list \<Rightarrow> nat option \<Rightarrow> php_code) option"
  v_on_handshake :: "(server_event list \<Rightarrow> ws_request \<Rightarrow> php_code) option"
  v_on_message :: "(server_event list \<Rightarrow> nat \<Rightarrow> bytes \<Rightarrow> message_type \<Rightarrow> php_code) option"
  v_on_close :: "(server_event list \<Rightarrow> nat \<Rightarrow> php_code) option"
  v_on_error :: "(server_event list \<Rightarrow> php_code) option"
  v_on_open_param_count :: nat
  v_on_open_cache_initialized :: bool
  v_host :: "bytes option"
  v_port :: int
  v_listening :: bool
  v_running :: bool
  v_listener_fd :: int
  v_reusable_connection :: "nat option"
  v_connections :: "nat list"
  v_connection_capacity :: nat
  g_next_connection_id :: u64
  g_running :: bool
  g_stopped :: bool
  g_exception :: "php_exception option"
  g_world :: "'d world"
  g_objects :: "nat \<Rightarrow> websocket_connection"
  g_next_object :: nat
  g_kept :: "nat \<Rightarrow> nat" \<comment> \<open>the references PHP code holds\<close>
  g_log :: "server_event list" \<comment> \<open>what has happened, last event first\<close>

text \<open>One address \<^verbatim>\<open>getaddrinfo\<close> returned, with the results of \<^verbatim>\<open>socket\<close>, \<^verbatim>\<open>bind\<close> and \<^verbatim>\<open>listen\<close> on it.\<close>

record listen_address =
  la_socket :: "errno + int"
  la_bind :: "errno option"
  la_listen :: "errno option"

text \<open>The surroundings: the driver's functions, PHP's library, \<^verbatim>\<open>strerror\<close> and \<^verbatim>\<open>getaddrinfo\<close>.\<close>

record 'd environment =
  e_driver :: "'d websocket_driver"
  e_lib :: php_lib
  e_strerror :: "errno \<Rightarrow> string"
  e_addresses :: "bytes \<Rightarrow> string \<Rightarrow> string + listen_address list"
  e_best_driver :: "'d option" \<comment> \<open>what \<^verbatim>\<open>websocket_select_best_driver\<close> returned, initialised\<close>

definition throw_error :: "php_error \<Rightarrow> 'd websocket_server \<Rightarrow> 'd websocket_server" where
  [ws_eval]: "throw_error e s = s\<lparr>g_exception := Some (ThrownError e)\<rparr>"

abbreviation conn :: "'d websocket_server \<Rightarrow> nat \<Rightarrow> websocket_connection" where
  "conn \<equiv> g_objects"

definition put_conn :: "nat \<Rightarrow> websocket_connection \<Rightarrow> 'd websocket_server \<Rightarrow> 'd websocket_server" where
  [ws_eval]: "put_conn h c s = s\<lparr>g_objects := (g_objects s)(h := c)\<rparr>"

definition update_conn ::
    "(websocket_connection \<Rightarrow> websocket_connection) \<Rightarrow> nat \<Rightarrow> 'd websocket_server \<Rightarrow> 'd websocket_server" where
  [ws_eval]: "update_conn f h s = put_conn h (f (conn s h)) s"

text \<open>An operation of a connection, on the object of a handle.\<close>

definition with_conn ::
    "(websocket_connection \<Rightarrow> 'd world \<Rightarrow> 'a \<times> websocket_connection \<times> 'd world)
      \<Rightarrow> nat \<Rightarrow> 'd websocket_server \<Rightarrow> 'a \<times> 'd websocket_server" where
  [ws_eval]: "with_conn f h s =
    (case f (conn s h) (g_world s) of (r, c, w) \<Rightarrow> (r, (put_conn h c s)\<lparr>g_world := w\<rparr>))"

definition with_world :: "('d world \<Rightarrow> 'a \<times> 'd world) \<Rightarrow> 'd websocket_server \<Rightarrow> 'a \<times> 'd websocket_server" where
  [ws_eval]: "with_world f s = (case f (g_world s) of (r, w) \<Rightarrow> (r, s\<lparr>g_world := w\<rparr>))"

abbreviation connection_close_socket :: "'d environment \<Rightarrow> nat \<Rightarrow> 'd websocket_server \<Rightarrow> 'd websocket_server" where
  "connection_close_socket E h s \<equiv>
    snd (with_conn (\<lambda>c w. ((), websocket_connection_close_socket (e_driver E) c w)) h s)"

subsection \<open>Running PHP code\<close>

text \<open>\<^verbatim>\<open>zval_ptr_dtor\<close> on a connection: the last reference frees the object, which closes its socket.\<close>

definition release_object :: "'d environment \<Rightarrow> nat \<Rightarrow> 'd websocket_server \<Rightarrow> 'd websocket_server" where
  [ws_eval]: "release_object E h s =
    (if c_refcount (conn s h) > 1 then update_conn (\<lambda>c. c\<lparr>c_refcount := c_refcount c - 1\<rparr>) h s
     else (update_conn (\<lambda>c. c\<lparr>c_open := False, c_fd := -1, c_write_queue := [], c_write_queue_offset := 0,
                            c_queued_bytes := 0, c_refcount := 0\<rparr>) h s)
            \<lparr>g_world := websocket_connection_free_object (e_driver E) (conn s h) (g_world s)\<rparr>)"

definition Server_stop :: "'d websocket_server \<Rightarrow> 'd websocket_server" where
  [ws_eval]: "Server_stop s = s\<lparr>v_running := False, g_stopped := True\<rparr>"

text \<open>A handle that is no live object cannot be in the hands of PHP code; such a call does nothing.\<close>

definition perform :: "'d environment \<Rightarrow> api_call \<Rightarrow> 'd websocket_server \<Rightarrow> api_result \<times> 'd websocket_server" where
  [ws_eval]: "perform E call s =
    (let live = (\<lambda>h. h < g_next_object s \<and> c_refcount (conn s h) > 0);
         done = (\<lambda>r. case r of Inl e \<Rightarrow> ApiThrew e | Inr (_ :: unit) \<Rightarrow> ApiDone) in
     case call of
       ApiSend h payload type \<Rightarrow>
         if live h then map_prod done id (with_conn (Connection_send (e_driver E) payload type) h s) else (ApiDone, s)
     | ApiClose h code reason \<Rightarrow>
         if live h then map_prod done id (with_conn (Connection_close (e_driver E) code reason) h s) else (ApiDone, s)
     | ApiIsOpen h \<Rightarrow> if live h then (ApiBool (Connection_isOpen (conn s h)), s) else (ApiDone, s)
     | ApiRead h name \<Rightarrow>
         if live h then map_prod ApiProperty id (with_conn (websocket_connection_read_property name) h s)
         else (ApiDone, s)
     | ApiRetain h \<Rightarrow>
         (ApiDone, if live h then (update_conn (\<lambda>c. c\<lparr>c_refcount := c_refcount c + 1\<rparr>) h s)
                                    \<lparr>g_kept := (g_kept s)(h := g_kept s h + 1)\<rparr> else s)
     | ApiRelease h \<Rightarrow>
         (ApiDone, if live h \<and> g_kept s h > 0
                   then release_object E h (s\<lparr>g_kept := (g_kept s)(h := g_kept s h - 1)\<rparr>) else s)
     | ApiStop \<Rightarrow> (ApiDone, Server_stop s))"

primrec run_code :: "'d environment \<Rightarrow> php_code \<Rightarrow> 'd websocket_server \<Rightarrow> php_outcome \<times> 'd websocket_server" where
  "run_code E (Finish out) = (\<lambda>s. (out, s))"
| "run_code E (Call a k) =
    (\<lambda>s. case perform E a s of (r, s) \<Rightarrow> run_code E (k r) (s\<lparr>g_log := ApiEvent a r # g_log s\<rparr>))"

definition call_user_function ::
    "'d environment \<Rightarrow> php_code \<Rightarrow> 'd websocket_server \<Rightarrow> php_outcome \<times> 'd websocket_server" where
  [ws_eval]: "call_user_function E code s =
    (case run_code E code s of
       (out, s) \<Rightarrow> (out, case out of Threw e \<Rightarrow> s\<lparr>g_exception := Some e\<rparr> | _ \<Rightarrow> s))"

text \<open>The same with a connection among the arguments: the call holds \<open>n\<close> references to it.\<close>

definition call_with_conn ::
    "'d environment \<Rightarrow> nat \<Rightarrow> nat \<Rightarrow> php_code \<Rightarrow> 'd websocket_server \<Rightarrow> php_outcome \<times> 'd websocket_server" where
  [ws_eval]: "call_with_conn E n h code s =
    (case call_user_function E code (update_conn (\<lambda>c. c\<lparr>c_refcount := c_refcount c + n\<rparr>) h s) of
       (out, s) \<Rightarrow> (out, update_conn (\<lambda>c. c\<lparr>c_refcount := c_refcount c - n\<rparr>) h s))"

definition log_event :: "server_event \<Rightarrow> 'd websocket_server \<Rightarrow> 'd websocket_server" where
  [ws_eval]: "log_event e s = s\<lparr>g_log := e # g_log s\<rparr>"

subsection \<open>The handlers\<close>

text \<open>\<^verbatim>\<open>websocket_server_call_handler\<close>, which is only used for \<^verbatim>\<open>on_close\<close>.\<close>

definition websocket_server_call_handler :: "'d environment \<Rightarrow> nat \<Rightarrow> 'd websocket_server \<Rightarrow> bool \<times> 'd websocket_server" where
  [ws_eval]: "websocket_server_call_handler E h s =
    (case v_on_close s of
       None \<Rightarrow> (True, s)
     | Some handler \<Rightarrow>
         (case call_with_conn E 1 h (handler (g_log s) h) (log_event (CloseEvent h) s) of
            (out, s) \<Rightarrow>
              if out = CallFailed then (False, throw_error (Error ''Failed to call WebSocket server handler'') s)
              else (g_exception s = None, s)))"

definition websocket_server_call_open_handler ::
    "'d environment \<Rightarrow> nat \<Rightarrow> bool \<Rightarrow> 'd websocket_server \<Rightarrow> (bool \<times> bool) \<times> 'd websocket_server" where
  [ws_eval]: "websocket_server_call_open_handler E h pass_connection s =
    (case v_on_open s of
       None \<Rightarrow> ((True, False), s)
     | Some handler \<Rightarrow>
         (case (if pass_connection then call_with_conn E 1 h (handler (g_log s) (Some h)) (log_event (OpenEvent h) s)
                else call_user_function E (handler (g_log s) None) (log_event (OpenEvent h) s)) of
            (out, s) \<Rightarrow>
              if \<not> v_on_open_cache_initialized s \<and> out = CallFailed then ((False, False), throw_error (Error ''Failed to call WebSocket server handler'') s)
              else ((g_exception s = None, out = ReturnedFalse), s)))"

definition websocket_server_call_message_handler ::
    "'d environment \<Rightarrow> nat \<Rightarrow> bytes \<Rightarrow> byte \<Rightarrow> 'd websocket_server \<Rightarrow> bool \<times> 'd websocket_server" where
  [ws_eval]: "websocket_server_call_message_handler E h payload opcode s =
    (case v_on_message s of
       None \<Rightarrow> (True, s)
     | Some handler \<Rightarrow>
         (case websocket_protocol_message_type_from_opcode opcode of
            None \<Rightarrow> (True, s)
          | Some type_case \<Rightarrow>
              (case call_with_conn E 2 h (handler (g_log s) h payload type_case)
                      (log_event (MessageEvent h payload type_case) s) of
                 (out, s) \<Rightarrow>
                   if out = CallFailed
                   then (False, throw_error (Error ''Failed to call WebSocket server message handler'') s)
                   else (g_exception s = None, s))))"

text \<open>The result is whether the exception was one of the handshake; then it is gone and the
  connection has been refused.\<close>

definition websocket_server_handle_handshake_exception ::
    "nat \<Rightarrow> 'd websocket_server \<Rightarrow> bool \<times> 'd websocket_server" where
  [ws_eval]: "websocket_server_handle_handshake_exception h s =
    (case g_exception s of
       Some (HandshakeException response) \<Rightarrow>
         (let s = s\<lparr>g_exception := None\<rparr>;
              s = snd (with_world (case response of
                         Some r \<Rightarrow> websocket_server_send_handshake_response (c_fd (conn s h)) r
                       | None \<Rightarrow> websocket_server_send_bytes (c_fd (conn s h)) websocket_forbidden_response 0) s)
          in (True, update_conn (\<lambda>c. c\<lparr>c_open := False\<rparr>) h s))
     | _ \<Rightarrow> (False, s))"

definition outcome_type_name :: "php_outcome \<Rightarrow> string" where
  [ws_eval]: "outcome_type_name out = (case out of ReturnedFalse \<Rightarrow> ''false'' | ReturnedOther t \<Rightarrow> t | _ \<Rightarrow> ''null'')"

text \<open>The result is the return value and \<^verbatim>\<open>*accepted\<close>.\<close>

definition websocket_server_call_handshake_handler ::
    "'d environment \<Rightarrow> nat \<Rightarrow> ws_request \<Rightarrow> 'd websocket_server \<Rightarrow> (bool \<times> bool) \<times> 'd websocket_server" where
  [ws_eval]: "websocket_server_call_handshake_handler E h request s =
    (case v_on_handshake s of
       None \<Rightarrow> ((True, True), s)
     | Some handler \<Rightarrow>
         (case call_user_function E (handler (g_log s) request) (log_event (HandshakeEvent h request) s) of
            (out, s) \<Rightarrow>
              if out = CallFailed then
                ((False, True), throw_error (Error ''Failed to call WebSocket server handshake handler'') s)
              else if g_exception s \<noteq> None then
                (case websocket_server_handle_handshake_exception h s of
                   (handled, s) \<Rightarrow> if handled then ((True, False), s) else ((False, True), s))
              else if out \<noteq> ReturnedNull then
                ((False, True), throw_error (TypeError
                   (''WebSocket handshake handler must return void, '' @ outcome_type_name out @ '' returned'')) s)
              else ((True, True), s)))"

subsection \<open>What an operation of a connection leaves alone\<close>

text \<open>
  The operations that PHP code, timeouts and replies use never touch the read buffer, the state of
  the upgrade or the input of the world, and only add to what was sent; they may close a connection but not open one; they keep
  the fragments unless they close; and they keep the invariant of the write queue.
\<close>

definition same_input :: "'d world \<Rightarrow> 'd world \<Rightarrow> bool" where
  "same_input w w' \<longleftrightarrow> w_recvs w' = w_recvs w \<and> w_accepts w' = w_accepts w \<and> w_fcntls w' = w_fcntls w
     \<and> w_clock w' = w_clock w \<and> (w_driver w' = None \<longleftrightarrow> w_driver w = None)
     \<and> (\<forall>fd. prefix (w_wire w fd) (w_wire w' fd))"

definition same_fragment :: "websocket_connection \<Rightarrow> websocket_connection \<Rightarrow> bool" where
  "same_fragment c c' \<longleftrightarrow> c_fragmented c' = c_fragmented c \<and> c_fragmented_payload c' = c_fragmented_payload c
     \<and> c_fragmented_opcode c' = c_fragmented_opcode c"

definition no_fragment :: "websocket_connection \<Rightarrow> bool" where
  "no_fragment c \<longleftrightarrow> \<not> c_fragmented c \<and> c_fragmented_payload c = None \<and> c_fragmented_opcode c = 0"

definition conn_step :: "websocket_connection \<Rightarrow> websocket_connection \<Rightarrow> bool" where
  "conn_step c c' \<longleftrightarrow>
     c_read_buffer c' = c_read_buffer c \<and> c_read_buffer_capacity c' = c_read_buffer_capacity c
   \<and> c_upgraded c' = c_upgraded c \<and> c_close_notified c' = c_close_notified c \<and> c_defer_close c' = c_defer_close c
   \<and> c_max_queued_bytes c' = c_max_queued_bytes c \<and> c_numeric_id c' = c_numeric_id c
   \<and> c_selected_subprotocol c' = c_selected_subprotocol c
   \<and> (c_open c' \<longrightarrow> c_open c \<and> c_fd c' = c_fd c \<and> same_fragment c c')
   \<and> (c_fd c' = c_fd c \<or> c_fd c' < 0)
   \<and> (same_fragment c c' \<or> no_fragment c')
   \<and> (queue_ok c \<longrightarrow> queue_ok c')"

lemma same_input_refl [simp]: "same_input w w" and conn_step_refl [simp]: "conn_step c c"
  by (simp_all add: same_input_def conn_step_def same_fragment_def)

lemma same_input_trans: "same_input w w' \<Longrightarrow> same_input w' w'' \<Longrightarrow> same_input w w''"
  unfolding same_input_def by (metis prefix_order.trans)

lemma same_fragment_trans:
  "same_fragment c c' \<Longrightarrow> same_fragment c' c'' \<Longrightarrow> same_fragment c c''"
  "no_fragment c' \<Longrightarrow> same_fragment c' c'' \<Longrightarrow> no_fragment c''"
  by (simp_all add: same_fragment_def no_fragment_def)

lemma conn_stepD:
  assumes "conn_step c c'"
  shows "c_read_buffer c' = c_read_buffer c" "c_read_buffer_capacity c' = c_read_buffer_capacity c"
    "c_upgraded c' = c_upgraded c" "c_close_notified c' = c_close_notified c" "c_defer_close c' = c_defer_close c"
    "c_max_queued_bytes c' = c_max_queued_bytes c" "c_numeric_id c' = c_numeric_id c"
    "c_selected_subprotocol c' = c_selected_subprotocol c"
    "c_open c' \<Longrightarrow> c_open c" "c_open c' \<Longrightarrow> c_fd c' = c_fd c" "c_open c' \<Longrightarrow> same_fragment c c'"
    "c_fd c' = c_fd c \<or> c_fd c' < 0" "same_fragment c c' \<or> no_fragment c'" "queue_ok c \<Longrightarrow> queue_ok c'"
  using assms unfolding conn_step_def by blast+

lemma conn_step_trans:
  assumes "conn_step c c'" "conn_step c' c''"
  shows "conn_step c c''"
proof -
  note a = conn_stepD [OF assms(1)] and b = conn_stepD [OF assms(2)]
  have "c_open c'' \<longrightarrow> c_open c \<and> c_fd c'' = c_fd c \<and> same_fragment c c''"
    using a(9-11) b(9-11) same_fragment_trans(1) by metis
  moreover have "c_fd c'' = c_fd c \<or> c_fd c'' < 0" using a(12) b(12) by metis
  moreover have "same_fragment c c'' \<or> no_fragment c''" using a(13) b(13) same_fragment_trans by blast
  ultimately show ?thesis unfolding conn_step_def using a(1-8,14) b(1-8,14) by metis
qed

lemma same_input_errno [simp]: "same_input w (w'\<lparr>w_errno := e\<rparr>) = same_input w w'"
  "same_input w (w'\<lparr>w_closed := cs\<rparr>) = same_input w w'"
  by (simp_all add: same_input_def)

lemma quiet_same_input: "quiet w w' \<Longrightarrow> same_input w w'"
  by (simp add: quiet_def same_input_def)

lemma sent_on_same_input: "sent_on fd bs w w' \<Longrightarrow> same_input w w'"
  by (simp add: sent_on_def same_input_def)

lemma conn_step_queue:
  assumes "same_but_queue c c'" "c_open c' \<Longrightarrow> c_open c" "queue_ok c \<Longrightarrow> queue_ok c'"
  shows "conn_step c c'"
  using assms same_but_queueD [OF assms(1)] unfolding same_but_queue_def
  by (auto simp: conn_step_def same_fragment_def)

lemma conn_step_same:
  "conn_step c (c\<lparr>c_open := False\<rparr>)" "conn_step c (c\<lparr>c_close_after_write := b\<rparr>)"
  "conn_step c (c\<lparr>c_awaiting_pong := b\<rparr>)" "conn_step c (c\<lparr>c_last_ping_usec := t\<rparr>)"
  "conn_step c (c\<lparr>c_id := x\<rparr>)" "conn_step c (c\<lparr>c_remote_address := x\<rparr>)" "conn_step c (c\<lparr>c_remote_addr := y\<rparr>)"
  "conn_step c (c\<lparr>c_refcount := n\<rparr>)"
  by (simp_all add: conn_step_def same_fragment_def)

lemma close_socket_step:
  assumes "websocket_connection_close_socket D c w = (c', w')"
  shows "conn_step c c' \<and> same_input w w'"
proof -
  obtain a w1 where q: "quiet w w1" "w' = w1\<lparr>w_closed := (if c_fd c \<ge> 0 then c_fd c # w_closed w else w_closed w)\<rparr>"
    "c' = c\<lparr>c_fd := (if c_fd c \<ge> 0 then -1 else c_fd c), c_remote_addr := a, c_open := False,
      c_write_queue := [], c_write_queue_offset := 0, c_queued_bytes := 0, c_write_watched := False,
      c_close_after_write := False, c_fragmented_payload := None, c_fragmented := False,
      c_fragmented_opcode := 0, c_accepted_at_usec := 0, c_last_activity_usec := 0, c_last_ping_usec := 0,
      c_awaiting_pong := False\<rparr>"
    by (rule close_socket [OF assms])
  have "same_input w w'" using quiet_same_input [OF q(1)] by (simp add: q(2))
  moreover have "conn_step c c'" unfolding conn_step_def by (simp add: q(3) no_fragment_def queue_ok_empty)
  ultimately show ?thesis by simp
qed

lemma queue_frame_step:
  assumes "websocket_connection_queue_frame D frame offset c w = (ok, c', w')"
  shows "same_but_queue c c' \<and> c_open c' = c_open c \<and> same_input w w'"
proof -
  define c2 where "c2 = (let c = websocket_connection_ensure_write_capacity c;
            c = (if length (c_write_queue c) = 0 then c\<lparr>c_write_queue_offset := offset\<rparr> else c)
        in c\<lparr>c_write_queue := c_write_queue c @ [frame], c_queued_bytes := c_queued_bytes c + (length frame - offset)\<rparr>)"
  have c2: "same_but_queue c c2" "c_open c2 = c_open c"
    unfolding c2_def Let_def websocket_connection_ensure_write_capacity_def
    by (cases "length (c_write_queue c) < c_write_queue_capacity c"; cases "c_write_queue c = []";
        (intro same_but_queueI | -); simp)+
  have "c' = c \<and> w' = w\<lparr>w_errno := ENOBUFS\<rparr> \<or> (\<exists>b. c' = c2\<lparr>c_write_watched := b\<rparr>) \<and> same_input w w'"
  proof (cases "length frame - offset > c_max_queued_bytes c \<or> c_queued_bytes c > c_max_queued_bytes c - (length frame - offset)")
    case True
    then show ?thesis using assms by (auto simp: websocket_connection_queue_frame_def)
  next
    case False
    note run = assms [unfolded websocket_connection_queue_frame_def Let_def if_not_P [OF False], folded c2_def [unfolded Let_def]]
    show ?thesis
    proof (cases "\<not> c_write_watched c2 \<and> w_driver w \<noteq> None")
      case False
      then have "c' = c2 \<and> w' = w" using run by (auto split: if_splits)
      then show ?thesis by (auto intro: exI [of _ "c_write_watched c2"])
    next
      case True
      then obtain d where d: "w_driver w = Some d" by blast
      obtain b w1 where call: "driver_call_watch (driver_watch_write D) (c_fd c2) d w = (b, w1)" by fastforce
      have "quiet w w1" using driver_call_quiet(2) [OF d, of "driver_watch_write D" "c_fd c2"] call by simp
      moreover have "w' = w1" "c' = c2 \<or> c' = c2\<lparr>c_write_watched := True\<rparr>"
        using run True d call by (auto split: if_splits)
      ultimately show ?thesis
        by (auto dest: quiet_same_input intro: exI [of _ "c_write_watched c2"] exI [of _ True])
    qed
  qed
  then show ?thesis
  proof (elim disjE conjE exE)
    fix b assume "c' = c2\<lparr>c_write_watched := b\<rparr>" "same_input w w'"
    moreover have "same_but_queue c (c2\<lparr>c_write_watched := b\<rparr>)" using c2(1)
      by (intro same_but_queueI) (auto simp: same_but_queue_def)
    ultimately show ?thesis using c2(2) by simp
  qed simp
qed

lemma send_frame_step:
  assumes "websocket_connection_send_frame D payload opcode c w = (ok, c', w')"
  shows "conn_step c c' \<and> same_input w w'"
proof -
  let ?frame = "server_frame payload opcode"
  have "same_but_queue c c' \<and> (c_open c' \<longrightarrow> c_open c) \<and> same_input w w'"
  proof (cases "\<not> c_open c \<or> c_close_after_write c \<or> \<not> c_upgraded c \<or> c_fd c < 0 \<or> length ?frame > c_max_queued_bytes c")
    case True
    then have "c' = c \<and> (w' = w \<or> w' = w\<lparr>w_errno := ENOBUFS\<rparr>)"
      using assms by (auto simp: websocket_connection_send_frame_def pack_server_frame split: if_splits)
    then show ?thesis by auto
  next
    case False
    then have c: "\<not> (\<not> c_open c \<or> c_close_after_write c \<or> \<not> c_upgraded c \<or> c_fd c < 0)"
      "\<not> length ?frame > c_max_queued_bytes c" by auto
    note run = assms [unfolded websocket_connection_send_frame_def if_not_P [OF c(1)] pack_server_frame sum.case if_not_P [OF c(2)]]
    show ?thesis
    proof (cases "length (c_write_queue c) > 0")
      case True
      obtain ok1 c1 w1 where q: "websocket_connection_queue_frame D ?frame 0 c w = (ok1, c1, w1)" by (metis prod_cases3)
      have "w' = w1" "c' = c1 \<or> c' = c1\<lparr>c_open := False\<rparr>" using run True q by (auto split: if_splits)
      then show ?thesis using queue_frame_step [OF q] same_but_queue_open [of c c1 False] by auto
    next
      case False
      obtain ok1 off n w1 where ws: "websocket_connection_write_some (c_fd c) ?frame 0 0 w = ((ok1, off, n), w1)"
        by (metis prod.collapse)
      have i: "same_input w w1" using write_some [OF ws] sent_on_same_input by auto
      note run2 = run [unfolded if_not_P [OF False] ws prod.case]
      show ?thesis
      proof (cases "ok1 \<and> off < length ?frame")
        case False
        then have "w' = w1" "c' = c \<or> c' = c\<lparr>c_open := False\<rparr>" using run2 by (auto split: if_splits)
        then show ?thesis using i same_but_queue_open [of c c False] by auto
      next
        case True
        obtain ok2 c2 w2 where q: "websocket_connection_queue_frame D ?frame off c w1 = (ok2, c2, w2)" by (metis prod_cases3)
        have "w' = w2" "c' = c2 \<or> c' = c2\<lparr>c_open := False\<rparr>" using run2 True q by (auto split: if_splits)
        then show ?thesis using queue_frame_step [OF q] same_but_queue_open [of c c2 False] same_input_trans [OF i] by auto
      qed
    qed
  qed
  then show ?thesis using conn_step_queue send_frame [OF assms] by blast
qed

lemma close_after_write_step:
  assumes "websocket_connection_close_after_write D c w = (c', w')"
  shows "conn_step c c' \<and> same_input w w'"
  using assms
  by (auto simp: websocket_connection_close_after_write_def conn_step_same dest: close_socket_step split: if_splits)

lemma send_close_frame_step:
  assumes "websocket_connection_send_close_frame D code reason c w = (ok, c', w')"
  shows "conn_step c c' \<and> same_input w w'"
  using assms
  by (auto simp: websocket_connection_send_close_frame_def dest: send_frame_step split: if_splits sum.splits)

lemma close_with_code_step:
  assumes "websocket_server_close_with_code D code reason c w = (ok, c', w')"
  shows "conn_step c c' \<and> same_input w w' \<and> ok"
proof -
  obtain ok1 c1 w1 where s: "websocket_connection_send_close_frame D code (case reason of Some r \<Rightarrow> r | None \<Rightarrow> []) c w = (ok1, c1, w1)"
    by (metis prod_cases3)
  have "conn_step c1 c' \<and> same_input w1 w' \<and> ok"
    using assms s close_after_write_step [of D c1 w1] close_socket_step [of D c1 w1]
    by (auto simp: websocket_server_close_with_code_def split: prod.splits if_splits)
  then show ?thesis using send_close_frame_step [OF s] conn_step_trans same_input_trans by blast
qed

lemma Connection_send_step:
  assumes "Connection_send D payload type c w = (r, c', w')"
  shows "conn_step c c' \<and> same_input w w'"
proof -
  consider "c' = c" "w' = w"
    | ok opcode where "websocket_connection_send_frame D payload opcode c w = (ok, c', w')"
    using assms unfolding Connection_send_def Let_def by (auto split: if_splits prod.splits)
  then show ?thesis by cases (auto dest: send_frame_step)
qed

lemma Connection_close_step:
  assumes "Connection_close D code reason c w = (r, c', w')"
  shows "conn_step c c' \<and> same_input w w'"
proof -
  consider "c' = c" "w' = w" | "c' = c\<lparr>c_open := False\<rparr>" "w' = w"
    | "websocket_connection_close_after_write D c w = (c', w')"
    | ok code' reason' c1 w1 where "websocket_connection_send_close_frame D code' reason' c w = (ok, c1, w1)"
        "websocket_connection_close_after_write D c1 w1 = (c', w')"
    using assms unfolding Connection_close_def Let_def
    by (auto split: if_splits prod.splits) (metis prod.collapse)+
  then show ?thesis
  proof cases
    case 4
    then show ?thesis using send_close_frame_step [OF 4(1)] close_after_write_step [OF 4(2)]
        conn_step_trans same_input_trans by blast
  qed (auto simp: conn_step_same dest: close_after_write_step)
qed

lemma read_property_step:
  assumes "websocket_connection_read_property name c w = (r, c', w')"
  shows "conn_step c c' \<and> same_input w w'"
proof -
  obtain a e where ca: "websocket_connection_cache_remote_address c w = (c\<lparr>c_remote_addr := a\<rparr>, w\<lparr>w_errno := e\<rparr>)"
    by (rule cache_remote_address)
  show ?thesis
    using assms ca conn_step_trans [OF conn_step_same(7) conn_step_same(6)]
    by (auto simp: websocket_connection_read_property_def websocket_connection_make_id_def Let_def
        websocket_connection_make_remote_address_def conn_step_same split: if_splits option.splits)
qed

subsection \<open>What PHP code leaves alone\<close>

text \<open>The part of the server PHP code cannot reach from a handler.\<close>

definition fixed :: "'d websocket_server \<Rightarrow> _" where
  "fixed s = ((v_options s, v_subprotocols s, v_on_open s, v_on_handshake s, v_on_message s, v_on_close s),
     (v_on_open_param_count s, v_listener_fd s, v_reusable_connection s, v_connections s, v_connection_capacity s),
     (g_next_connection_id s, g_running s, g_next_object s, v_host s, v_port s, v_listening s))"

definition is_api :: "server_event \<Rightarrow> bool" where
  "is_api e \<longleftrightarrow> (case e of ApiEvent _ _ \<Rightarrow> True | _ \<Rightarrow> False)"

definition stops_only :: "'d websocket_server \<Rightarrow> 'd websocket_server \<Rightarrow> bool" where
  "stops_only s s' \<longleftrightarrow> (v_running s' \<longrightarrow> v_running s) \<and> (g_stopped s \<longrightarrow> g_stopped s')"

definition stop_called :: "server_event list \<Rightarrow> bool" where
  "stop_called es \<longleftrightarrow> list_ex (\<lambda>e. case e of ApiEvent ApiStop _ \<Rightarrow> True | _ \<Rightarrow> False) es"

lemma stop_called_simps [simp]: "\<not> stop_called []" "stop_called (es @ es') \<longleftrightarrow> stop_called es \<or> stop_called es'"
  "stop_called (ApiEvent a r # es) \<longleftrightarrow> a = ApiStop \<or> stop_called es"
  by (auto simp: stop_called_def split: api_call.splits)

definition php_step :: "'d websocket_server \<Rightarrow> 'd websocket_server \<Rightarrow> bool" where
  "php_step s s' \<longleftrightarrow> fixed s' = fixed s \<and> stops_only s s' \<and> same_input (g_world s) (g_world s')
     \<and> (\<forall>h. conn_step (conn s h) (conn s' h))
     \<and> (\<exists>es. g_log s' = es @ g_log s \<and> list_all is_api es \<and> (stop_called es \<longrightarrow> g_stopped s'))"

lemma fixed_simps [simp]:
  "fixed (s\<lparr>g_world := x1\<rparr>) = fixed s" "fixed (s\<lparr>g_objects := x2\<rparr>) = fixed s" "fixed (s\<lparr>g_log := x3\<rparr>) = fixed s"
  "fixed (s\<lparr>g_exception := x4\<rparr>) = fixed s" "fixed (s\<lparr>g_kept := x5\<rparr>) = fixed s" "fixed (s\<lparr>v_running := x6\<rparr>) = fixed s"
  "fixed (s\<lparr>g_stopped := x7\<rparr>) = fixed s" "fixed (put_conn h c s) = fixed s" "fixed (update_conn f h s) = fixed s"
  "fixed (throw_error e s) = fixed s" "fixed (log_event ev s) = fixed s"
  by (simp_all add: fixed_def put_conn_def update_conn_def throw_error_def log_event_def)

lemma fixedD:
  assumes "fixed s' = fixed s"
  shows "v_options s' = v_options s" "v_subprotocols s' = v_subprotocols s" "v_on_open s' = v_on_open s"
    "v_on_handshake s' = v_on_handshake s" "v_on_message s' = v_on_message s" "v_on_close s' = v_on_close s"
    "v_on_open_param_count s' = v_on_open_param_count s" "v_listener_fd s' = v_listener_fd s"
    "v_reusable_connection s' = v_reusable_connection s" "v_connections s' = v_connections s"
    "v_connection_capacity s' = v_connection_capacity s" "g_next_object s' = g_next_object s"
    "g_running s' = g_running s" "g_next_connection_id s' = g_next_connection_id s"
  using assms by (simp_all add: fixed_def)

lemma php_step_refl [simp]: "php_step s s"
  by (simp add: php_step_def stops_only_def)

lemma php_step_trans:
  assumes "php_step s s'" "php_step s' s''"
  shows "php_step s s''"
proof -
  have stops: "g_stopped s' \<longrightarrow> g_stopped s''" using assms by (simp add: php_step_def stops_only_def)
  have "stops_only s s''" using assms by (auto simp: php_step_def stops_only_def)
  moreover have "same_input (g_world s) (g_world s'')" using assms same_input_trans unfolding php_step_def by blast
  moreover have "conn_step (conn s h) (conn s'' h)" for h using assms conn_step_trans unfolding php_step_def by blast
  moreover obtain es es' where "g_log s' = es @ g_log s" "list_all is_api es" "stop_called es \<longrightarrow> g_stopped s'"
      "g_log s'' = es' @ g_log s'" "list_all is_api es'" "stop_called es' \<longrightarrow> g_stopped s''"
    using assms unfolding php_step_def by blast
  then have "\<exists>es. g_log s'' = es @ g_log s \<and> list_all is_api es \<and> (stop_called es \<longrightarrow> g_stopped s'')"
    using stops by (intro exI [of _ "es' @ es"]) auto
  ultimately show ?thesis using assms by (simp add: php_step_def)
qed

text \<open>The steps an operation on one object, or on the world, makes.\<close>

lemma conn_put [simp]: "conn (put_conn h c s) = (conn s)(h := c)" "g_world (put_conn h c s) = g_world s"
  "g_log (put_conn h c s) = g_log s" "g_exception (put_conn h c s) = g_exception s"
  "v_running (put_conn h c s) = v_running s" "g_stopped (put_conn h c s) = g_stopped s" "g_kept (put_conn h c s) = g_kept s"
  by (simp_all add: put_conn_def)

lemma conn_update [simp]: "conn (update_conn f h s) = (conn s)(h := f (conn s h))" "g_world (update_conn f h s) = g_world s"
  "g_log (update_conn f h s) = g_log s" "g_exception (update_conn f h s) = g_exception s"
  "v_running (update_conn f h s) = v_running s" "g_stopped (update_conn f h s) = g_stopped s"
  "g_kept (update_conn f h s) = g_kept s"
  by (simp_all add: update_conn_def)

lemma conn_throw [simp]: "conn (throw_error e s) = conn s" "g_world (throw_error e s) = g_world s"
  "g_log (throw_error e s) = g_log s" "v_running (throw_error e s) = v_running s" "g_stopped (throw_error e s) = g_stopped s"
  "g_exception (throw_error e s) = Some (ThrownError e)"
  by (simp_all add: throw_error_def)

lemma conn_log [simp]: "conn (log_event e s) = conn s" "g_world (log_event e s) = g_world s"
  "g_log (log_event e s) = e # g_log s" "v_running (log_event e s) = v_running s" "g_stopped (log_event e s) = g_stopped s"
  "g_exception (log_event e s) = g_exception s"
  by (simp_all add: log_event_def)

lemma fixed_sub [simp]:
  "v_options (put_conn h c s) = v_options s" "v_options (update_conn f h s) = v_options s"
  "v_options (throw_error e s) = v_options s" "v_options (log_event ev s) = v_options s"
  "v_connections (put_conn h c s) = v_connections s" "v_connections (update_conn f h s) = v_connections s"
  "v_connections (throw_error e s) = v_connections s" "v_connections (log_event ev s) = v_connections s"
  by (simp_all add: put_conn_def update_conn_def throw_error_def log_event_def)

lemma php_step_put:
  "conn_step (conn s h) c \<Longrightarrow> same_input (g_world s) w \<Longrightarrow> php_step s ((put_conn h c s)\<lparr>g_world := w\<rparr>)"
  by (auto simp: php_step_def stops_only_def)

lemma php_step_update: "conn_step (conn s h) (f (conn s h)) \<Longrightarrow> php_step s (update_conn f h s)"
  by (auto simp: php_step_def stops_only_def)

lemma php_step_simple [simp]:
  "php_step s (s'\<lparr>g_kept := k\<rparr>) = php_step s s'" "php_step s (s'\<lparr>g_exception := x\<rparr>) = php_step s s'"
  "php_step s (throw_error e s') = php_step s s'"
  by (simp_all add: php_step_def stops_only_def)

lemma with_conn_step:
  assumes "with_conn f h s = (r, s')" "\<And>c w r c' w'. f c w = (r, c', w') \<Longrightarrow> conn_step c c' \<and> same_input w w'"
  shows "php_step s s'"
proof -
  obtain c w where "f (conn s h) (g_world s) = (r, c, w)" "s' = (put_conn h c s)\<lparr>g_world := w\<rparr>"
    using assms(1) by (auto simp: with_conn_def split: prod.splits)
  then show ?thesis using assms(2) php_step_put by blast
qed

lemma release_object_step: "php_step s (release_object E h s)"
proof (cases "c_refcount (conn s h) > 1")
  case True
  then show ?thesis by (simp add: release_object_def php_step_update conn_step_same)
next
  case False
  obtain c' w' where cs: "websocket_connection_close_socket (e_driver E) (conn s h) (g_world s) = (c', w')" by fastforce
  let ?c = "(conn s h)\<lparr>c_open := False, c_fd := -1, c_write_queue := [], c_write_queue_offset := 0,
                            c_queued_bytes := 0, c_refcount := 0\<rparr>"
  have "conn_step (conn s h) ?c" by (simp add: conn_step_def same_fragment_def queue_ok_empty)
  then show ?thesis
    using php_step_put [of s h ?c w'] close_socket_step [OF cs] False cs
    by (simp add: release_object_def websocket_connection_free_object_def update_conn_def)
qed

lemma perform_step: "perform E a s = (r, s') \<Longrightarrow> php_step s s'"
proof -
  assume p: "perform E a s = (r, s')"
  have wc: "php_step s (snd (with_conn f h s))"
    if "\<And>c w r c' w'. f c w = (r, c', w') \<Longrightarrow> conn_step c c' \<and> same_input w w'"
    for f :: "websocket_connection \<Rightarrow> 'a world \<Rightarrow> 'b \<times> websocket_connection \<times> 'a world" and h
    using with_conn_step [OF prod.collapse [symmetric] that] .
  have p2: "s' = snd (perform E a s)" using p by simp
  show ?thesis
  proof (cases a)
    case (ApiSend h payload type)
    then show ?thesis using wc [of "Connection_send (e_driver E) payload type" h, OF Connection_send_step]
      by (simp add: p2 perform_def)
  next
    case (ApiClose h code reason)
    then show ?thesis using wc [of "Connection_close (e_driver E) code reason" h, OF Connection_close_step]
      by (simp add: p2 perform_def)
  next
    case (ApiRead h name)
    have "php_step s (snd (with_conn (websocket_connection_read_property name) h s))"
      by (rule with_conn_step [OF prod.collapse [symmetric]]) (rule read_property_step)
    then show ?thesis using ApiRead by (simp add: p2 perform_def)
  next
    case (ApiRelease h)
    then show ?thesis using release_object_step [of "s\<lparr>g_kept := (g_kept s)(h := g_kept s h - 1)\<rparr>" E h]
      by (auto simp: p2 perform_def php_step_def stops_only_def)
  qed (auto simp: p2 perform_def php_step_update conn_step_same php_step_def stops_only_def Server_stop_def)
qed

lemma run_code_step: "run_code E code s = (out, s') \<Longrightarrow> php_step s s'"
proof (induction code arbitrary: s)
  case (Call a k)
  obtain r s1 where p: "perform E a s = (r, s1)" by fastforce
  let ?s = "s1\<lparr>g_log := ApiEvent a r # g_log s1\<rparr>"
  have "a = ApiStop \<longrightarrow> g_stopped s1" using p by (auto simp: perform_def Server_stop_def)
  then have "php_step s1 ?s" by (auto simp: php_step_def stops_only_def is_api_def intro: exI [of _ "[ApiEvent a r]"])
  moreover have "run_code E (k r) ?s = (out, s')" using Call.prems p by simp
  then have "php_step ?s s'" using Call.IH [of "k r"] by blast
  ultimately show ?case using perform_step [OF p] php_step_trans by blast
qed simp

lemma call_user_function_step: "call_user_function E code s = (out, s') \<Longrightarrow> php_step s s'"
  by (auto simp: call_user_function_def dest!: run_code_step split: prod.splits php_outcome.splits)

lemma call_with_conn_step:
  assumes "call_with_conn E n h code s = (out, s')"
  shows "php_step s s'"
proof -
  let ?s = "update_conn (\<lambda>c. c\<lparr>c_refcount := c_refcount c + n\<rparr>) h s"
  obtain s1 where c: "call_user_function E code ?s = (out, s1)"
    and s': "s' = update_conn (\<lambda>c. c\<lparr>c_refcount := c_refcount c - n\<rparr>) h s1"
    using assms by (auto simp: call_with_conn_def split: prod.splits)
  have "php_step s ?s" "php_step s1 s'" unfolding s' by (auto intro!: php_step_update simp: conn_step_same)
  then show ?thesis using call_user_function_step [OF c] php_step_trans by blast
qed

subsection \<open>Steps of the server\<close>

text \<open>
  What a piece of the server may do, up to a relation \<open>R\<close> on each connection and \<open>W\<close> on the
  world: the set-up stays, the server is only ever stopped, and the log only grows.
\<close>

definition server_step ::
    "(websocket_connection \<Rightarrow> websocket_connection \<Rightarrow> bool) \<Rightarrow> ('d world \<Rightarrow> 'd world \<Rightarrow> bool)
      \<Rightarrow> 'd websocket_server \<Rightarrow> 'd websocket_server \<Rightarrow> bool" where
  "server_step R W s s' \<longleftrightarrow> fixed s' = fixed s \<and> stops_only s s' \<and> W (g_world s) (g_world s')
     \<and> (\<forall>h. R (conn s h) (conn s' h)) \<and> (\<exists>es. g_log s' = es @ g_log s)"

locale stepping =
  fixes R :: "websocket_connection \<Rightarrow> websocket_connection \<Rightarrow> bool"
    and W :: "'d world \<Rightarrow> 'd world \<Rightarrow> bool"
  assumes R_refl: "R c c" and R_trans: "R c c' \<Longrightarrow> R c' c'' \<Longrightarrow> R c c''"
    and W_refl: "W w w" and W_trans: "W w w' \<Longrightarrow> W w' w'' \<Longrightarrow> W w w''"
begin

lemma refl: "server_step R W s s"
  by (simp add: server_step_def stops_only_def R_refl W_refl)

lemma trans: "server_step R W s s' \<Longrightarrow> server_step R W s' s'' \<Longrightarrow> server_step R W s s''"
proof -
  assume a: "server_step R W s s'" and b: "server_step R W s' s''"
  have "stops_only s s''" using a b by (auto simp: server_step_def stops_only_def)
  moreover have "W (g_world s) (g_world s'')" using a b W_trans unfolding server_step_def by blast
  moreover have "R (conn s h) (conn s'' h)" for h using a b R_trans unfolding server_step_def by blast
  moreover obtain es es' where "g_log s' = es @ g_log s" "g_log s'' = es' @ g_log s'"
    using a b unfolding server_step_def by blast
  then have "\<exists>es. g_log s'' = es @ g_log s" by simp
  ultimately show ?thesis using a b unfolding server_step_def by simp
qed

lemma put: "R (conn s h) c \<Longrightarrow> W (g_world s) w \<Longrightarrow> server_step R W s ((put_conn h c s)\<lparr>g_world := w\<rparr>)"
  by (auto simp: server_step_def stops_only_def R_refl)

lemma update: "R (conn s h) (f (conn s h)) \<Longrightarrow> server_step R W s (update_conn f h s)"
  by (auto simp: server_step_def stops_only_def R_refl W_refl)

lemma put_only: "R (conn s h) c \<Longrightarrow> server_step R W s (put_conn h c s)"
  by (auto simp: server_step_def stops_only_def R_refl W_refl)

lemma world: "W (g_world s) w \<Longrightarrow> server_step R W s (s\<lparr>g_world := w\<rparr>)"
  by (auto simp: server_step_def stops_only_def R_refl)

lemma log: "server_step R W s (log_event e s)"
  by (auto simp: server_step_def stops_only_def R_refl W_refl)

lemma error: "server_step R W s (throw_error e s') = server_step R W s s'"
  "server_step R W s (s'\<lparr>g_exception := x\<rparr>) = server_step R W s s'"
  by (auto simp: server_step_def stops_only_def)

end

text \<open>Three relations on a connection, each weaker than the one before: what PHP code does
  (\<^const>\<open>conn_step\<close>), what handling a frame does, and what anything does to a connection that has
  been accepted.\<close>

definition conn_frame :: "websocket_connection \<Rightarrow> websocket_connection \<Rightarrow> bool" where
  "conn_frame c c' \<longleftrightarrow>
     c_read_buffer c' = c_read_buffer c \<and> c_read_buffer_capacity c' = c_read_buffer_capacity c
   \<and> c_upgraded c' = c_upgraded c \<and> c_close_notified c' = c_close_notified c \<and> c_numeric_id c' = c_numeric_id c
   \<and> (c_open c' \<longrightarrow> c_open c \<and> c_fd c' = c_fd c) \<and> (c_fd c' = c_fd c \<or> c_fd c' < 0)"

definition conn_later :: "websocket_connection \<Rightarrow> websocket_connection \<Rightarrow> bool" where
  "conn_later c c' \<longleftrightarrow>
     (c_upgraded c \<longrightarrow> c_upgraded c') \<and> (c_close_notified c \<longrightarrow> c_close_notified c') \<and> c_numeric_id c' = c_numeric_id c
   \<and> (c_open c' \<longrightarrow> c_open c \<and> c_fd c' = c_fd c) \<and> (c_fd c' = c_fd c \<or> c_fd c' < 0)"

definition same_pending :: "'d world \<Rightarrow> 'd world \<Rightarrow> bool" where
  "same_pending w w' \<longleftrightarrow> w_accepts w' = w_accepts w \<and> (w_driver w' = None \<longleftrightarrow> w_driver w = None)"

lemma step_weaken:
  "conn_step c c' \<Longrightarrow> conn_frame c c'" "conn_frame c c' \<Longrightarrow> conn_later c c'"
  "same_input w w' \<Longrightarrow> same_pending w w'"
  by (auto simp: conn_step_def conn_frame_def conn_later_def same_input_def same_pending_def)

interpretation php: stepping conn_step same_input
  by unfold_locales (auto intro: conn_step_trans same_input_trans)

interpretation frm: stepping conn_frame same_input
  by unfold_locales (auto simp: conn_frame_def intro: same_input_trans)

interpretation buf: stepping conn_later same_input
  by unfold_locales (auto simp: conn_later_def intro: same_input_trans)

abbreviation frame_step :: "'d websocket_server \<Rightarrow> 'd websocket_server \<Rightarrow> bool" where "frame_step \<equiv> server_step conn_frame same_input"
abbreviation buffer_step :: "'d websocket_server \<Rightarrow> 'd websocket_server \<Rightarrow> bool" where "buffer_step \<equiv> server_step conn_later same_input"

lemma php_step_frame: "php_step s s' \<Longrightarrow> frame_step s s'"
  unfolding php_step_def server_step_def using step_weaken(1) by blast

lemma frame_step_buffer: "frame_step s s' \<Longrightarrow> buffer_step s s'"
  unfolding server_step_def using step_weaken(2) by blast

lemma server_stepD:
  assumes "server_step R W s s'"
  shows "fixed s' = fixed s" "stops_only s s'" "W (g_world s) (g_world s')" "R (conn s h) (conn s' h)"
  using assms by (simp_all add: server_step_def)

subsection \<open>Frames\<close>

definition server_close ::
    "'d environment \<Rightarrow> int \<Rightarrow> string \<Rightarrow> nat \<Rightarrow> 'd websocket_server \<Rightarrow> bool \<times> 'd websocket_server" where
  [ws_eval]: "server_close E code reason = with_conn (websocket_server_close_with_code (e_driver E) code (Some (lit reason)))"

definition websocket_server_handle_data_frame ::
    "'d environment \<Rightarrow> nat \<Rightarrow> websocket_server_frame \<Rightarrow> 'd websocket_server \<Rightarrow> bool \<times> 'd websocket_server" where
  [ws_eval]: "websocket_server_handle_data_frame E h frame s =
    (let max_message_size = websocket_server_max_message_size (v_options s);
         payload = (case sf_payload frame of Some p \<Rightarrow> p | None \<Rightarrow> []) in
     if sf_opcode frame = OPCODE_CONTINUATION then
       (if \<not> c_fragmented (conn s h) then server_close E CLOSE_PROTOCOL_ERROR ''protocol error'' h s
        else
          (case websocket_server_append_fragment payload max_message_size (conn s h) of
             (ok, c) \<Rightarrow>
               (let s = put_conn h c s in
                if \<not> ok then
                  server_close E CLOSE_MESSAGE_TOO_BIG ''message too big'' h (update_conn websocket_server_clear_fragment h s)
                else if \<not> sf_final frame then (True, s)
                else
                  (let message = (case c_fragmented_payload c of Some p \<Rightarrow> p | None \<Rightarrow> []) in
                   if c_fragmented_opcode c = OPCODE_TEXT \<and> \<not> websocket_protocol_is_valid_utf8 message then
                     server_close E CLOSE_INVALID_PAYLOAD ''invalid utf-8'' h (update_conn websocket_server_clear_fragment h s)
                   else
                     (case websocket_server_call_message_handler E h message (c_fragmented_opcode c) s of
                        (ok, s) \<Rightarrow> (ok, update_conn websocket_server_clear_fragment h s))))))
     else if c_fragmented (conn s h) then
       server_close E CLOSE_PROTOCOL_ERROR ''protocol error'' h (update_conn websocket_server_clear_fragment h s)
     else if sf_final frame then
       (if sf_opcode frame = OPCODE_TEXT \<and> \<not> websocket_protocol_is_valid_utf8 payload then
          server_close E CLOSE_INVALID_PAYLOAD ''invalid utf-8'' h s
        else websocket_server_call_message_handler E h payload (sf_opcode frame) s)
     else
       (True, update_conn (\<lambda>c. c\<lparr>c_fragmented := True, c_fragmented_opcode := sf_opcode frame,
                                c_fragmented_payload := sf_payload frame\<rparr>) h s))"

definition websocket_server_handle_frame ::
    "'d environment \<Rightarrow> nat \<Rightarrow> websocket_server_frame \<Rightarrow> 'd websocket_server \<Rightarrow> bool \<times> 'd websocket_server" where
  [ws_eval]: "websocket_server_handle_frame E h frame s =
    (let payload = (case sf_payload frame of Some p \<Rightarrow> p | None \<Rightarrow> []);
         opcode = sf_opcode frame;
         D = e_driver E in
     case (if opcode = OPCODE_TEXT \<or> opcode = OPCODE_BINARY \<or> opcode = OPCODE_CONTINUATION then
             websocket_server_handle_data_frame E h frame s
           else if opcode = OPCODE_PING then with_conn (websocket_connection_send_frame D payload OPCODE_PONG) h s
           else if opcode = OPCODE_PONG then
             (True, update_conn (\<lambda>c. c\<lparr>c_awaiting_pong := False, c_last_ping_usec := 0\<rparr>) h s)
           else if opcode = OPCODE_CLOSE then
             (case (if c_open (conn s h) \<and> c_upgraded (conn s h)
                    then with_conn (websocket_connection_send_frame D payload OPCODE_CLOSE) h s
                    else (True, s)) of
                (ok, s) \<Rightarrow>
                  (let s = update_conn websocket_server_clear_fragment h s in
                   if ok then
                     (True, snd (with_conn (\<lambda>c w. ((), websocket_connection_close_after_write D c w)) h s))
                   else (True, connection_close_socket E h s)))
           else server_close E CLOSE_PROTOCOL_ERROR ''protocol error'' h s) of
       (ok, s) \<Rightarrow> (ok \<and> g_exception s = None, s))"

text \<open>The three ways a frame can be refused: the code and reason of the close.\<close>

definition frame_refusal :: "websocket_server_frame_status \<Rightarrow> int \<times> string" where
  [ws_eval]: "frame_refusal status =
    (case status of
       FrameMessageTooBig \<Rightarrow> (CLOSE_MESSAGE_TOO_BIG, ''message too big'')
     | FrameInvalidPayload \<Rightarrow> (CLOSE_INVALID_PAYLOAD, ''invalid utf-8'')
     | _ \<Rightarrow> (CLOSE_PROTOCOL_ERROR, ''protocol error''))"

lemma with_conn_frame:
  assumes "with_conn f h s = (r, s')" "\<And>c w r c' w'. f c w = (r, c', w') \<Longrightarrow> conn_step c c' \<and> same_input w w'"
  shows "frame_step s s'"
  using with_conn_step [OF assms] by (rule php_step_frame)

lemma server_close_step:
  assumes "server_close E code reason h s = (ok, s')"
  shows "php_step s s' \<and> ok"
proof -
  obtain c w where c: "websocket_server_close_with_code (e_driver E) code (Some (lit reason)) (conn s h) (g_world s) = (ok, c, w)"
    using assms by (auto simp: server_close_def with_conn_def split: prod.splits)
  show ?thesis
    using with_conn_step [OF assms [unfolded server_close_def]] close_with_code_step [OF c] close_with_code_step by blast
qed

lemma clear_fragment_frame: "conn_frame c (websocket_server_clear_fragment c)"
  by (simp add: conn_frame_def websocket_server_clear_fragment_def)

lemma append_fragment_frame: "websocket_server_append_fragment p n c = (ok, c') \<Longrightarrow> conn_frame c c'"
  by (auto simp: websocket_server_append_fragment_def Let_def conn_frame_def split: if_splits option.splits)

lemma message_handler_step:
  assumes "websocket_server_call_message_handler E h payload opcode s = (ok, s')"
  shows "s' = s \<or> (\<exists>t s1. websocket_protocol_message_type_from_opcode opcode = Some t
     \<and> php_step (log_event (MessageEvent h payload t) s) s1 \<and> (s' = s1 \<or> (\<exists>e. s' = throw_error e s1)))"
  using assms by (auto simp: websocket_server_call_message_handler_def
      dest!: call_with_conn_step split: option.splits prod.splits if_splits)

lemma message_handler_frame:
  assumes "websocket_server_call_message_handler E h payload opcode s = (ok, s')"
  shows "frame_step s s'"
  using message_handler_step [OF assms] frm.trans [OF frm.log php_step_frame] frm.error(1) frm.refl by metis

lemma server_close_frame: "server_close E code reason h s = (ok, s') \<Longrightarrow> frame_step s s'"
  using server_close_step php_step_frame by blast

lemma clear_step: "frame_step s (update_conn websocket_server_clear_fragment h s)"
  by (rule frm.update) (rule clear_fragment_frame)

lemma frame_from:
  "server_close E code reason h s0 = (ok, s') \<Longrightarrow> frame_step s s0 \<Longrightarrow> frame_step s s'"
  "websocket_server_call_message_handler E h m opc s0 = (ok, s') \<Longrightarrow> frame_step s s0 \<Longrightarrow> frame_step s s'"
  "frame_step s s0 \<Longrightarrow> frame_step s (update_conn websocket_server_clear_fragment h s0)"
  using server_close_frame message_handler_frame clear_step frm.trans by blast+

lemma handle_data_frame_step:
  assumes "websocket_server_handle_data_frame E h frame s = (ok, s')"
  shows "frame_step s s'"
proof -
  let ?max = "websocket_server_max_message_size (v_options s)"
  let ?p = "case sf_payload frame of Some p \<Rightarrow> p | None \<Rightarrow> []"
  obtain ok1 c1 where a: "websocket_server_append_fragment ?p ?max (conn s h) = (ok1, c1)" by fastforce
  have s1: "frame_step s (put_conn h c1 s)" using append_fragment_frame [OF a] by (rule frm.put_only)
  have start: "frame_step s (update_conn (\<lambda>c. c\<lparr>c_fragmented := True, c_fragmented_opcode := sf_opcode frame,
      c_fragmented_payload := sf_payload frame\<rparr>) h s)"
    by (rule frm.update) (simp add: conn_frame_def)
  note run = assms [unfolded websocket_server_handle_data_frame_def Let_def a prod.case]
  show ?thesis
    using run start s1 frm.refl [of s]
    by (auto split: if_splits prod.splits intro: frame_from)
qed

end
