(* ===== verification/Ws_Reads.thy ===== *)
theory Ws_Reads
  imports Ws_Runtime
begin

text \<open>
  What the server does between two waits (\<^verbatim>\<open>websocket_server_runtime.c\<close>): the frames in a read
  buffer, the opening handshake, the reads of a connection.
\<close>

subsection \<open>Buffered frames\<close>

lemma handle_frame_step:
  assumes "websocket_server_handle_frame E h frame s = (ok, s')"
  shows "frame_step s s'"
proof -
  let ?p = "case sf_payload frame of Some p \<Rightarrow> p | None \<Rightarrow> []"
  let ?send = "\<lambda>opcode. with_conn (websocket_connection_send_frame (e_driver E) ?p opcode) h s"
  have send: "frame_step s s0" if "?send opcode = (r, s0)" for opcode r s0
    using with_conn_frame [OF that] send_frame_step by blast
  have pong: "frame_step s (update_conn (\<lambda>c. c\<lparr>c_awaiting_pong := False, c_last_ping_usec := 0\<rparr>) h s)"
    by (rule frm.update) (simp add: conn_frame_def)
  have after_write: "frame_step s (snd (with_conn (\<lambda>c w. ((), websocket_connection_close_after_write (e_driver E) c w)) h s0))"
    if "frame_step s s0" for s0
  proof -
    have "frame_step s0 (snd (with_conn (\<lambda>c w. ((), websocket_connection_close_after_write (e_driver E) c w)) h s0))"
      by (rule with_conn_frame [OF prod.collapse [symmetric]]) (auto dest: close_after_write_step)
    then show ?thesis using that frm.trans by blast
  qed
  have close: "frame_step s (connection_close_socket E h s0)" if "frame_step s s0" for s0
  proof -
    have "frame_step s0 (connection_close_socket E h s0)"
      by (rule with_conn_frame [OF prod.collapse [symmetric]]) (auto dest: close_socket_step split: prod.splits)
    then show ?thesis using that frm.trans by blast
  qed
  show ?thesis
    using assms frm.refl [of s] pong
    by (auto simp: websocket_server_handle_frame_def Let_def split: if_splits prod.splits
        intro!: after_write close intro: frame_from dest: handle_data_frame_step send)
qed

lemma parse_frame_consumed:
  assumes "websocket_server_parse_frame buf n = (FrameOk, f)"
  shows "0 < sf_bytes_consumed f" "sf_bytes_consumed f \<le> length buf"
  using assms by (auto simp: parse_frame_ok_iff_wire wire_start_def wire_pos_def wire_complete_def)

lemma discard_frame: "conn_later c (websocket_connection_discard_read_bytes n c)"
  by (simp add: websocket_connection_discard_read_bytes_def conn_later_def)

lemma length_discard: "length (c_read_buffer (websocket_connection_discard_read_bytes n c)) = length (c_read_buffer c) - n"
  by (simp add: websocket_connection_discard_read_bytes_def)

lemma frame_step_buffer_same: "frame_step s s' \<Longrightarrow> c_read_buffer (conn s' h) = c_read_buffer (conn s h)"
  by (simp add: server_step_def conn_frame_def)

function websocket_server_process_buffered_frames ::
    "'d environment \<Rightarrow> nat \<Rightarrow> 'd websocket_server \<Rightarrow> bool \<times> 'd websocket_server" where
  "websocket_server_process_buffered_frames E h s =
    (let c = conn s h in
     if c_open c \<and> \<not> c_close_after_write c \<and> c_upgraded c \<and> length (c_read_buffer c) > 0 then
       (case websocket_server_parse_frame (c_read_buffer c) (websocket_server_max_message_size (v_options s)) of
          (status, frame) \<Rightarrow>
            if status = FrameIncomplete then (True, s)
            else if status \<noteq> FrameOk then
              (case frame_refusal status of
                 (code, reason) \<Rightarrow>
                   (True, snd (server_close E code reason h (update_conn websocket_server_clear_fragment h s))))
            else
              (case websocket_server_handle_frame E h frame
                      (update_conn (websocket_connection_discard_read_bytes (sf_bytes_consumed frame)) h s) of
                 (ok, s') \<Rightarrow> if \<not> ok then (False, s') else websocket_server_process_buffered_frames E h s'))
     else (True, s))"
  by pat_completeness auto
termination
proof (relation "measure (\<lambda>(E, h, s). length (c_read_buffer (conn s h)))", goal_cases)
  case 1
  then show ?case by simp
next
  case (2 E h s c status frame ok s')
  let ?s = "update_conn (websocket_connection_discard_read_bytes (sf_bytes_consumed frame)) h s"
  have "websocket_server_parse_frame (c_read_buffer (conn s h)) (websocket_server_max_message_size (v_options s)) = (FrameOk, frame)"
    using 2 by auto
  note p = parse_frame_consumed [OF this]
  have "websocket_server_handle_frame E h frame ?s = (ok, s')" using 2 by simp
  from frame_step_buffer_same [OF handle_frame_step [OF this], of h]
  have "length (c_read_buffer (conn s' h)) = length (c_read_buffer (conn s h)) - sf_bytes_consumed frame"
    by (simp add: length_discard)
  then show ?case using p 2(2) by (auto simp: 2(1))
qed

declare websocket_server_process_buffered_frames.simps [simp del]

lemma buffer_from_frame: "buffer_step s s0 \<Longrightarrow> frame_step s0 s' \<Longrightarrow> buffer_step s s'"
  using frame_step_buffer buf.trans by blast

lemma process_buffered_step:
  "websocket_server_process_buffered_frames E h s = (ok, s') \<Longrightarrow> buffer_step s s'"
proof (induction E h s rule: websocket_server_process_buffered_frames.induct)
  case (1 E h s)
  let ?max = "websocket_server_max_message_size (v_options s)"
  obtain status frame where pf: "websocket_server_parse_frame (c_read_buffer (conn s h)) ?max = (status, frame)"
    by fastforce
  let ?s = "update_conn (websocket_connection_discard_read_bytes (sf_bytes_consumed frame)) h s"
  let ?clr = "update_conn websocket_server_clear_fragment h s"
  obtain ok1 s1 where hf: "websocket_server_handle_frame E h frame ?s = (ok1, s1)" by fastforce
  have d: "buffer_step s ?s" by (rule buf.update) (rule discard_frame)
  have s1: "buffer_step s s1" using d handle_frame_step [OF hf] by (rule buffer_from_frame)
  have c: "buffer_step s (snd (server_close E code reason h ?clr))" for code reason
    using frame_step_buffer [OF clear_step] frame_step_buffer [OF server_close_frame [OF prod.collapse [symmetric]]] buf.trans by blast
  note run = "1.prems" [unfolded websocket_server_process_buffered_frames.simps [of E h s] Let_def pf prod.case hf]
  show ?case
  proof (cases "c_open (conn s h) \<and> \<not> c_close_after_write (conn s h) \<and> c_upgraded (conn s h)
      \<and> length (c_read_buffer (conn s h)) > 0 \<and> status = FrameOk \<and> ok1")
    case True
    then show ?thesis using run "1.IH" [OF refl _ pf [symmetric] _ _ hf [symmetric]] s1 buf.trans by auto
  next
    case False
    then show ?thesis using run s1 c buf.refl by (auto split: if_splits prod.splits)
  qed
qed

subsection \<open>The opening handshake\<close>

definition WEBSOCKET_READ_CHUNK_SIZE :: nat where
  [ws_eval]: "WEBSOCKET_READ_CHUNK_SIZE = 4096"

definition websocket_server_notify_connection_closed ::
    "'d environment \<Rightarrow> nat \<Rightarrow> 'd websocket_server \<Rightarrow> bool \<times> 'd websocket_server" where
  [ws_eval]: "websocket_server_notify_connection_closed E h s =
    (if \<not> c_upgraded (conn s h) \<or> c_close_notified (conn s h) \<or> v_on_close s = None then (True, s)
     else websocket_server_call_handler E h (update_conn (\<lambda>c. c\<lparr>c_close_notified := True\<rparr>) h s))"

text \<open>The changes of the connection once the 101 response is out.\<close>

definition mark_upgraded :: "bytes option \<Rightarrow> nat \<Rightarrow> websocket_connection \<Rightarrow> websocket_connection" where
  [ws_eval]: "mark_upgraded selected_subprotocol bytes_consumed c =
    websocket_connection_discard_read_bytes bytes_consumed
      (c\<lparr>c_selected_subprotocol := selected_subprotocol, c_upgraded := True\<rparr>)"

definition websocket_server_finish_upgrade ::
    "'d environment \<Rightarrow> nat \<Rightarrow> bytes \<Rightarrow> bytes option \<Rightarrow> nat \<Rightarrow> 'd websocket_server
      \<Rightarrow> bool \<times> 'd websocket_server" where
  [ws_eval]: "websocket_server_finish_upgrade E h accept_key selected_subprotocol bytes_consumed s =
    (let needs_connection = (v_on_open s = None \<or> v_on_open_param_count s > 0);
         response = websocket_http_upgrade_response accept_key selected_subprotocol in
     case with_world (websocket_server_send_bytes (c_fd (conn s h)) response 0) s of
       (ok, s) \<Rightarrow>
         if \<not> ok then (True, update_conn (\<lambda>c. c\<lparr>c_open := False\<rparr>) h s)
         else
           (let s = update_conn (mark_upgraded selected_subprotocol bytes_consumed) h s in
            case (if needs_connection then
                    (case websocket_server_call_open_handler E h True
                            (update_conn (\<lambda>c. c\<lparr>c_defer_close := True\<rparr>) h s) of
                       (r, s) \<Rightarrow> (r, update_conn (\<lambda>c. c\<lparr>c_defer_close := False\<rparr>) h s))
                  else websocket_server_call_open_handler E h False s) of
              ((ok, close_requested), s) \<Rightarrow>
                if \<not> ok then (False, update_conn (\<lambda>c. c\<lparr>c_open := False\<rparr>) h s)
                else
                  (let s = (if close_requested then update_conn (\<lambda>c. c\<lparr>c_open := False\<rparr>) h s else s) in
                   if \<not> c_open (conn s h) then websocket_server_notify_connection_closed E h s
                   else websocket_server_process_buffered_frames E h s)))"

definition refuse_request :: "'d environment \<Rightarrow> nat \<Rightarrow> 'd websocket_server \<Rightarrow> 'd websocket_server" where
  [ws_eval]: "refuse_request E h s =
    update_conn (\<lambda>c. c\<lparr>c_open := False\<rparr>) h
      (snd (with_world (websocket_server_send_bytes (c_fd (conn s h)) websocket_bad_request_response 0) s))"

text \<open>The body of the loop of \<^verbatim>\<open>websocket_server_process_handshake\<close> once bytes have come in:
  \<open>None\<close> continues the loop, \<open>Some b\<close> returns \<open>b\<close>.\<close>

definition read_request ::
    "'d environment \<Rightarrow> nat \<Rightarrow> bytes \<Rightarrow> 'd websocket_server \<Rightarrow> bool option \<times> 'd websocket_server" where
  [ws_eval]: "read_request E h chunk s =
    (case with_world websocket_server_now_usec s of
       (now, s) \<Rightarrow>
         (case websocket_connection_ensure_read_capacity (length chunk) WEBSOCKET_HTTP_MAX_REQUEST_SIZE
                 ((conn s h)\<lparr>c_last_activity_usec := now\<rparr>) of
            (room, c) \<Rightarrow>
              if \<not> room then (Some True, refuse_request E h (put_conn h c s))
              else
                (let s = put_conn h (append_read_bytes chunk c) s in
                 case websocket_http_parse_upgrade (e_lib E) (c_read_buffer (conn s h)) (v_subprotocols s)
                        websocket_http_upgrade_init of
                   (UpgradeIncomplete, _) \<Rightarrow> (None, s)
                 | (UpgradeInvalid, _) \<Rightarrow> (Some True, refuse_request E h s)
                 | (UpgradeOk, parsed) \<Rightarrow>
                     (case websocket_server_call_handshake_handler E h (websocket_server_create_request parsed) s of
                        ((ok, accepted), s) \<Rightarrow>
                          if \<not> ok then (Some False, s)
                          else if \<not> accepted then (Some True, s)
                          else
                            (case websocket_server_finish_upgrade E h
                                    (case up_accept_key parsed of Some k \<Rightarrow> k | None \<Rightarrow> [])
                                    (up_selected_subprotocol parsed) (up_bytes_consumed parsed) s of
                               (ok, s) \<Rightarrow> (Some ok, s))))))"

lemma ensure_read_capacity_facts:
  assumes "websocket_connection_ensure_read_capacity n limit c = (ok, c')"
  shows "\<exists>k. c' = c\<lparr>c_read_buffer_capacity := k\<rparr>"
  using assms by (auto simp: websocket_connection_ensure_read_capacity_def Let_def split: if_splits
      intro: exI [of _ "c_read_buffer_capacity c"])

lemma read_request_continues:
  assumes "read_request E h chunk s = (None, s')"
  shows "c_fd (conn s' h) = c_fd (conn s h)" "w_recvs (g_world s') = w_recvs (g_world s)"
proof -
  obtain now s1 where n: "with_world websocket_server_now_usec s = (now, s1)" by fastforce
  have s1: "conn s1 = conn s" "w_recvs (g_world s1) = w_recvs (g_world s)"
    using n by (auto simp: with_world_def websocket_server_now_usec_def split: list.splits)
  obtain room c where r: "websocket_connection_ensure_read_capacity (length chunk) WEBSOCKET_HTTP_MAX_REQUEST_SIZE
      ((conn s1 h)\<lparr>c_last_activity_usec := now\<rparr>) = (room, c)" by fastforce
  have "c_fd c = c_fd (conn s1 h)" using ensure_read_capacity_facts [OF r] by auto
  moreover have "s' = put_conn h (append_read_bytes chunk c) s1"
    using assms by (auto simp: read_request_def n r Let_def
        split: if_splits prod.splits websocket_http_upgrade_result.splits)
  ultimately show "c_fd (conn s' h) = c_fd (conn s h)" "w_recvs (g_world s') = w_recvs (g_world s)"
    by (simp_all add: s1 append_read_bytes_def)
qed

lemma recv_shorter:
  assumes "sys_recv fd n w = (r, w')"
  shows "length (w_recvs w' fd) < length (w_recvs w fd) \<or> r = None \<and> w_errno w' = EAGAIN \<and> w_recvs w' = w_recvs w"
  using assms by (auto simp: sys_recv_def split: list.splits recv_result.splits)

function websocket_server_process_handshake ::
    "'d environment \<Rightarrow> nat \<Rightarrow> 'd websocket_server \<Rightarrow> bool \<times> 'd websocket_server" where
  "websocket_server_process_handshake E h s =
    (if c_open (conn s h) \<and> \<not> c_upgraded (conn s h) then
       (case with_world (sys_recv (c_fd (conn s h)) WEBSOCKET_READ_CHUNK_SIZE) s of
          (Some chunk, s1) \<Rightarrow>
            if chunk = [] then (True, update_conn (\<lambda>c. c\<lparr>c_open := False\<rparr>) h s1)
            else
              (case read_request E h chunk s1 of
                 (None, s2) \<Rightarrow> websocket_server_process_handshake E h s2
               | (Some result, s2) \<Rightarrow> (result, s2))
        | (None, s1) \<Rightarrow>
            if w_errno (g_world s1) = EINTR then websocket_server_process_handshake E h s1
            else if w_errno (g_world s1) = EAGAIN \<or> w_errno (g_world s1) = EWOULDBLOCK then (True, s1)
            else (True, update_conn (\<lambda>c. c\<lparr>c_open := False\<rparr>) h s1))
     else (True, s))"
  by pat_completeness auto
termination
proof (relation "measure (\<lambda>(E, h, s). length (w_recvs (g_world s) (c_fd (conn s h))))", goal_cases)
  case 1
  then show ?case by simp
next
  case (2 E h s r s1)
  then obtain w where "sys_recv (c_fd (conn s h)) WEBSOCKET_READ_CHUNK_SIZE (g_world s) = (None, w)" "s1 = s\<lparr>g_world := w\<rparr>"
    by (auto simp: with_world_def split: prod.splits)
  then show ?case using recv_shorter [of "c_fd (conn s h)" _ "g_world s"] 2(4) by fastforce
next
  case (3 E h s r s1 chunk r2 s2)
  then obtain w where w: "sys_recv (c_fd (conn s h)) WEBSOCKET_READ_CHUNK_SIZE (g_world s) = (Some chunk, w)" "s1 = s\<lparr>g_world := w\<rparr>"
    by (auto simp: with_world_def split: prod.splits)
  have "read_request E h chunk s1 = (None, s2)" using 3 by simp
  from read_request_continues [OF this] recv_shorter [OF w(1)]
  show ?case by (simp add: w(2))
qed

declare websocket_server_process_handshake.simps [simp del]

subsection \<open>Reading frames\<close>

text \<open>\<^verbatim>\<open>read_limit\<close>: a message with the header of its frame and one chunk more.\<close>

definition frame_read_limit :: "server_options \<Rightarrow> nat" where
  [ws_eval]: "frame_read_limit options =
    (let max_message_size = websocket_server_max_message_size options in
     if max_message_size > SIZE_MAX - WEBSOCKET_READ_CHUNK_SIZE - 14 then SIZE_MAX
     else max_message_size + WEBSOCKET_READ_CHUNK_SIZE + 14)"

text \<open>The body of the loop of \<^verbatim>\<open>websocket_server_process_frame_reads\<close> once bytes have come in.\<close>

definition read_frames ::
    "'d environment \<Rightarrow> nat \<Rightarrow> bytes \<Rightarrow> 'd websocket_server \<Rightarrow> bool option \<times> 'd websocket_server" where
  [ws_eval]: "read_frames E h chunk s =
    (case with_world websocket_server_now_usec s of
       (now, s) \<Rightarrow>
         (case websocket_connection_ensure_read_capacity (length chunk) (frame_read_limit (v_options s))
                 ((conn s h)\<lparr>c_last_activity_usec := now\<rparr>) of
            (room, c) \<Rightarrow>
              if \<not> room then
                (Some True, snd (server_close E CLOSE_MESSAGE_TOO_BIG ''message too big'' h (put_conn h c s)))
              else
                (case websocket_server_process_buffered_frames E h (put_conn h (append_read_bytes chunk c) s) of
                   (ok, s) \<Rightarrow> (if ok then None else Some False, s))))"

lemma now_usec_step: "with_world websocket_server_now_usec s = (now, s1) \<Longrightarrow>
    \<exists>w. s1 = s\<lparr>g_world := w\<rparr> \<and> w_recvs w = w_recvs (g_world s) \<and> same_pending (g_world s) w"
  by (rule exI [of _ "g_world s1"]) (auto simp: with_world_def websocket_server_now_usec_def same_pending_def split: list.splits)

lemma read_frames_continues:
  assumes "read_frames E h chunk s = (None, s')"
  shows "c_open (conn s' h) \<Longrightarrow> c_open (conn s h) \<and> c_fd (conn s' h) = c_fd (conn s h)"
    "w_recvs (g_world s') = w_recvs (g_world s)"
proof -
  obtain now s1 where n: "with_world websocket_server_now_usec s = (now, s1)" by fastforce
  obtain w where w: "s1 = s\<lparr>g_world := w\<rparr>" "w_recvs w = w_recvs (g_world s)" using now_usec_step [OF n] by blast
  obtain room c where r: "websocket_connection_ensure_read_capacity (length chunk) (frame_read_limit (v_options s1))
      ((conn s1 h)\<lparr>c_last_activity_usec := now\<rparr>) = (room, c)" by fastforce
  have c: "c_fd c = c_fd (conn s h)" "c_open c = c_open (conn s h)" using ensure_read_capacity_facts [OF r] by (auto simp: w(1))
  have "websocket_server_process_buffered_frames E h (put_conn h (append_read_bytes chunk c) s1) = (True, s')"
    using assms by (auto simp: read_frames_def n r split: if_splits prod.splits)
  note b = process_buffered_step [OF this]
  show "c_open (conn s' h) \<Longrightarrow> c_open (conn s h) \<and> c_fd (conn s' h) = c_fd (conn s h)"
    using server_stepD(4) [OF b, of h] c by (simp add: conn_later_def append_read_bytes_def)
  show "w_recvs (g_world s') = w_recvs (g_world s)"
    using server_stepD(3) [OF b] by (simp add: same_input_def w)
qed

function websocket_server_process_frame_reads ::
    "'d environment \<Rightarrow> nat \<Rightarrow> 'd websocket_server \<Rightarrow> bool \<times> 'd websocket_server" where
  "websocket_server_process_frame_reads E h s =
    (if c_open (conn s h) \<and> \<not> c_close_after_write (conn s h) \<and> c_upgraded (conn s h) then
       (case with_world (sys_recv (c_fd (conn s h)) WEBSOCKET_READ_CHUNK_SIZE) s of
          (Some chunk, s1) \<Rightarrow>
            if chunk = [] then (True, update_conn (\<lambda>c. c\<lparr>c_open := False\<rparr>) h s1)
            else
              (case read_frames E h chunk s1 of
                 (None, s2) \<Rightarrow> websocket_server_process_frame_reads E h s2
               | (Some result, s2) \<Rightarrow> (result, s2))
        | (None, s1) \<Rightarrow>
            if w_errno (g_world s1) = EINTR then websocket_server_process_frame_reads E h s1
            else if w_errno (g_world s1) = EAGAIN \<or> w_errno (g_world s1) = EWOULDBLOCK then
              websocket_server_process_buffered_frames E h s1
            else (True, update_conn (\<lambda>c. c\<lparr>c_open := False\<rparr>) h s1))
     else (True, s))"
  by pat_completeness auto
termination
proof (relation "measure (\<lambda>(E, h, s). if c_open (conn s h) then Suc (length (w_recvs (g_world s) (c_fd (conn s h)))) else 0)", goal_cases)
  case 1
  then show ?case by simp
next
  case (2 E h s r s1)
  then obtain w where "sys_recv (c_fd (conn s h)) WEBSOCKET_READ_CHUNK_SIZE (g_world s) = (None, w)" "s1 = s\<lparr>g_world := w\<rparr>"
    by (auto simp: with_world_def split: prod.splits)
  then show ?case using recv_shorter [of "c_fd (conn s h)" _ "g_world s"] 2(1,4) by fastforce
next
  case (3 E h s r s1 chunk r2 s2)
  then obtain w where w: "sys_recv (c_fd (conn s h)) WEBSOCKET_READ_CHUNK_SIZE (g_world s) = (Some chunk, w)" "s1 = s\<lparr>g_world := w\<rparr>"
    by (auto simp: with_world_def split: prod.splits)
  have "read_frames E h chunk s1 = (None, s2)" using 3 by simp
  from read_frames_continues [OF this] recv_shorter [OF w(1)] 3(1)
  show ?case by (simp add: w(2))
qed

declare websocket_server_process_frame_reads.simps [simp del]

end
