(* ===== verification/Ws_Accept.thy ===== *)
theory Ws_Accept
  imports Ws_Reads
begin

text \<open>
  How the server takes on a client (\<^verbatim>\<open>websocket_server_runtime.c\<close>): \<^verbatim>\<open>accept\<close>, the limit on
  connections, the new connection object, and the batch of one turn of the loop. The lemmas say
  what one \<^verbatim>\<open>accept\<close> can do (\<open>accept_outcome\<close>) and that a batch ends.
\<close>

subsection \<open>Accepting\<close>

definition WEBSOCKET_ACCEPT_BATCH_LIMIT :: nat where
  [ws_eval]: "WEBSOCKET_ACCEPT_BATCH_LIMIT = 1024"

text \<open>\<^verbatim>\<open>accept\<close> and \<^verbatim>\<open>fcntl\<close>; an \<^verbatim>\<open>accept\<close> after the last listed result would block, an \<^verbatim>\<open>fcntl\<close>
  succeeds.\<close>

definition sys_accept :: "'d world \<Rightarrow> (int \<times> sockaddr option) option \<times> 'd world" where
  [ws_eval]: "sys_accept w =
    (case w_accepts w of
       [] \<Rightarrow> (None, w\<lparr>w_errno := EAGAIN\<rparr>)
     | Accepted fd addr # rs \<Rightarrow> (Some (fd, addr), w\<lparr>w_accepts := rs\<rparr>)
     | AcceptFailed e # rs \<Rightarrow> (None, w\<lparr>w_accepts := rs, w_errno := e\<rparr>))"

definition sys_fcntl :: "'d world \<Rightarrow> bool \<times> 'd world" where
  [ws_eval]: "sys_fcntl w =
    (case w_fcntls w of
       [] \<Rightarrow> (True, w)
     | None # rs \<Rightarrow> (True, w\<lparr>w_fcntls := rs\<rparr>)
     | Some e # rs \<Rightarrow> (False, w\<lparr>w_fcntls := rs, w_errno := e\<rparr>))"

text \<open>\<^verbatim>\<open>F_GETFL\<close>, then \<^verbatim>\<open>F_SETFL\<close>.\<close>

definition websocket_server_set_nonblocking :: "'d world \<Rightarrow> bool \<times> 'd world" where
  [ws_eval]: "websocket_server_set_nonblocking w =
    (case sys_fcntl w of (ok, w) \<Rightarrow> if \<not> ok then (False, w) else sys_fcntl w)"

definition websocket_server_close_fd :: "int \<Rightarrow> 'd world \<Rightarrow> 'd world" where
  [ws_eval]: "websocket_server_close_fd fd w = (if fd \<ge> 0 then sys_close fd w else w)"

definition close_fd_of :: "int \<Rightarrow> 'd websocket_server \<Rightarrow> 'd websocket_server" where
  [ws_eval]: "close_fd_of fd s = s\<lparr>g_world := websocket_server_close_fd fd (g_world s)\<rparr>"

definition error_text :: "'d environment \<Rightarrow> 'd websocket_server \<Rightarrow> string" where
  [ws_eval]: "error_text E s = e_strerror E (w_errno (g_world s))"

definition websocket_server_create_connection_zval :: "'d websocket_server \<Rightarrow> nat \<times> 'd websocket_server" where
  [ws_eval]: "websocket_server_create_connection_zval s =
    (case v_reusable_connection s of
       Some h \<Rightarrow> (h, s\<lparr>v_reusable_connection := None\<rparr>)
     | None \<Rightarrow> (g_next_object s,
         (put_conn (g_next_object s) websocket_connection_create_object s)\<lparr>g_next_object := g_next_object s + 1\<rparr>))"

definition websocket_server_ensure_connection_capacity :: "'d websocket_server \<Rightarrow> bool \<times> 'd websocket_server" where
  [ws_eval]: "websocket_server_ensure_connection_capacity s =
    (if length (v_connections s) < v_connection_capacity s then (True, s)
     else (True, s\<lparr>v_connection_capacity := (if v_connection_capacity s = 0 then 8 else v_connection_capacity s * 2)\<rparr>))"

text \<open>The connection object of a new client, opened, with its times and its queue limit.\<close>

definition set_up_connection ::
    "'d environment \<Rightarrow> sockaddr option \<Rightarrow> int \<Rightarrow> nat \<Rightarrow> 'd websocket_server \<Rightarrow> 'd websocket_server" where
  [ws_eval]: "set_up_connection E remote_addr client_fd h s =
    (let s = snd (with_conn (\<lambda>c w. ((), websocket_connection_open (e_driver E) (g_next_connection_id s) remote_addr client_fd c w)) h s);
         s = s\<lparr>g_next_connection_id := g_next_connection_id s + 1\<rparr>
     in case with_world websocket_server_now_usec s of
          (now, s) \<Rightarrow>
            update_conn (\<lambda>c. c\<lparr>c_accepted_at_usec := now, c_last_activity_usec := now,
                               c_max_queued_bytes := websocket_server_max_queued_bytes (v_options s)\<rparr>) h s)"

text \<open>A connection that could not be taken on: its socket is closed and its object dropped.\<close>

definition drop_connection :: "'d environment \<Rightarrow> nat \<Rightarrow> 'd websocket_server \<Rightarrow> 'd websocket_server" where
  [ws_eval]: "drop_connection E h s = release_object E h (connection_close_socket E h s)"

definition websocket_server_watch_read :: "'d environment \<Rightarrow> int \<Rightarrow> 'd websocket_server \<Rightarrow> bool \<times> 'd websocket_server" where
  [ws_eval]: "websocket_server_watch_read E fd s =
    (case w_driver (g_world s) of
       None \<Rightarrow> (False, s)
     | Some d \<Rightarrow> with_world (driver_call_watch (driver_watch_read (e_driver E)) fd d) s)"

definition websocket_server_accept_connection :: "'d environment \<Rightarrow> 'd websocket_server \<Rightarrow> bool \<times> 'd websocket_server" where
  [ws_eval]: "websocket_server_accept_connection E s =
    (case with_world sys_accept s of
       (None, s) \<Rightarrow> (False, s)
     | (Some (client_fd, remote_addr), s) \<Rightarrow>
         (let s = s\<lparr>g_world := (g_world s)\<lparr>w_errno := NoErrno\<rparr>\<rparr> in
          if length (v_connections s) \<ge> websocket_server_max_connections (v_options s) then
            (True, close_fd_of client_fd
               (snd (with_world (websocket_server_send_bytes client_fd websocket_service_unavailable_response 0) s)))
          else
            (case with_world websocket_server_set_nonblocking s of
               (nonblocking, s) \<Rightarrow>
                 if \<not> nonblocking then
                   (let s = close_fd_of client_fd s
                    in (False, throw_error (Error
                          (''Cannot make accepted WebSocket connection non-blocking: '' @ error_text E s)) s))
                 else
                   (case websocket_server_create_connection_zval s of
                      (h, s) \<Rightarrow>
                        (case websocket_server_ensure_connection_capacity (set_up_connection E remote_addr client_fd h s) of
                           (room, s) \<Rightarrow>
                             if \<not> room then (False, drop_connection E h s)
                             else
                               (case websocket_server_watch_read E client_fd s of
                                  (watched, s) \<Rightarrow>
                                    if \<not> watched then
                                      (let s = drop_connection E h s
                                       in (False, throw_error (Error
                                             (''Cannot watch accepted WebSocket connection with ''
                                              @ driver_name (e_driver E) @ '' driver: '' @ error_text E s)) s))
                                    else (True, s\<lparr>v_connections := v_connections s @ [h]\<rparr>)))))))"

subsection \<open>What accepting does\<close>

lemma send_bytes:
  assumes "websocket_server_send_bytes fd buf sent w = (ok, w')" "sent \<le> length buf"
  shows "\<exists>k. sent + k \<le> length buf \<and> sent_on fd (take k (drop sent buf)) w w' \<and> (ok \<longleftrightarrow> sent + k = length buf)"
  using assms
proof (induction fd buf sent w rule: websocket_server_send_bytes.induct)
  case (1 fd buf sent w)
  show ?case
  proof (cases "sent < length buf")
    case False
    then have "ok" "w' = w" using 1(3) by (simp_all add: websocket_server_send_bytes.simps [of fd buf sent])
    then show ?thesis using 1(4) False by (intro exI [of _ 0]) simp
  next
    case True
    obtain r w1 where s: "sys_send fd (drop sent buf) w = (r, w1)" by fastforce
    note run = 1(3) [unfolded websocket_server_send_bytes.simps [of fd buf sent w] if_P [OF True] s prod.case]
    consider (none) "sent_on fd [] w w1" "\<not> r > 0"
      | (some) m where "r = int m" "0 < m" "sent + m \<le> length buf" "sent_on fd (take m (drop sent buf)) w w1"
    proof -
      consider (empty) "w_sends w fd = []" | (failed) e rs where "w_sends w fd = SendFailed e # rs"
        | (sent) k rs where "w_sends w fd = Sent k # rs"
        by (metis list.exhaust send_result.exhaust)
      then show thesis
      proof cases
        case empty
        then show thesis using s by (intro that(1)) (auto simp: sys_send_def)
      next
        case (failed e rs)
        then show thesis using s by (intro that(1)) (auto simp: sys_send_def sent_on_def intro: exI [of _ 1])
      next
        case (sent k rs)
        let ?m = "min k (length buf - sent)"
        have so: "sent_on fd (take ?m (drop sent buf)) w w1" "r = int ?m"
          using s sent by (auto simp: sys_send_def sent_on_def min_def intro: exI [of _ 1])
        show thesis
        proof (cases "k = 0")
          case True then show thesis using so by (intro that(1)) auto
        next
          case False then show thesis using so \<open>sent < length buf\<close> by (intro that(2) [of ?m]) auto
        qed
      qed
    qed
    then show ?thesis
    proof cases
      case none
      show ?thesis
      proof (cases "r < 0 \<and> w_errno w1 = EINTR")
        case True
        then have "websocket_server_send_bytes fd buf sent w1 = (ok, w')" using run none by simp
        from "1.IH"(2) [OF \<open>sent < length buf\<close> s [symmetric] none(2) True this "1.prems"(2)] obtain k
          where k: "sent + k \<le> length buf" "sent_on fd (take k (drop sent buf)) w1 w'" "ok \<longleftrightarrow> sent + k = length buf" by blast
        then show ?thesis using sent_on_trans [OF none(1)] by fastforce
      next
        case False
        then have "\<not> ok" "w' = w1" using run none(2) by (simp_all only: if_False if_not_P prod.inject) auto
        then show ?thesis using none(1) True by (intro exI [of _ 0]) simp
      qed
    next
      case (some m)
      then have pos: "r > 0" and rec: "websocket_server_send_bytes fd buf (sent + m) w1 = (ok, w')" using run by simp_all
      from "1.IH"(1) [OF True s [symmetric] pos] some(1,3) rec obtain k
        where k: "sent + m + k \<le> length buf" "sent_on fd (take k (drop (sent + m) buf)) w1 w'" "ok \<longleftrightarrow> sent + m + k = length buf"
        by auto
      have "take (m + k) (drop sent buf) = take m (drop sent buf) @ take k (drop (sent + m) buf)"
        by (simp only: take_add drop_drop add.commute [of m sent])
      then have "sent_on fd (take (m + k) (drop sent buf)) w w'" using sent_on_trans [OF some(4) k(2)] by simp
      then show ?thesis using k by (intro exI [of _ "m + k"]) (simp add: add.assoc)
    qed
  qed
qed

lemma send_bytes_input: "websocket_server_send_bytes fd buf 0 w = (ok, w') \<Longrightarrow> same_input w w'"
  using send_bytes [of fd buf 0 w ok w'] sent_on_same_input by auto

lemma with_world_step:
  assumes "with_world f s = (r, s')" "\<And>r w. f (g_world s) = (r, w) \<Longrightarrow> W (g_world s) w"
  shows "\<exists>w. s' = s\<lparr>g_world := w\<rparr> \<and> W (g_world s) w"
  using assms by (auto simp: with_world_def split: prod.splits)

lemma same_pending_refl [simp]: "same_pending w w" "same_pending w (w'\<lparr>w_errno := e\<rparr>) = same_pending w w'"
  "same_pending w (w'\<lparr>w_fcntls := fs\<rparr>) = same_pending w w'"
  by (simp_all add: same_pending_def)

lemma same_pending_trans: "same_pending w w' \<Longrightarrow> same_pending w' w'' \<Longrightarrow> same_pending w w''"
  by (simp add: same_pending_def)

lemma close_fd_pending: "same_pending w (websocket_server_close_fd fd w)"
  by (auto simp: websocket_server_close_fd_def sys_close_def same_pending_def split: prod.splits)

lemma set_nonblocking_pending: "websocket_server_set_nonblocking w = (ok, w') \<Longrightarrow> same_pending w w'"
  by (auto simp: websocket_server_set_nonblocking_def sys_fcntl_def same_pending_def
      split: list.splits option.splits prod.splits if_splits)

lemma connection_open_facts:
  assumes "websocket_connection_open D i a fd c w = (c', w')"
  shows "c_fd c' = fd" "c_open c'" "\<not> c_upgraded c'" "\<not> c_close_notified c'" "c_read_buffer c' = []" "\<not> c_fragmented c'"
    "c_write_queue c' = []" "c_queued_bytes c' = 0" "c_read_buffer_capacity c' = c_read_buffer_capacity c"
    "c_numeric_id c' = i" "c_refcount c' = c_refcount c" "\<not> c_close_after_write c'" "\<not> c_defer_close c'" "quiet w w'"
proof -
  define c0 where "c0 = c\<lparr>c_id := None, c_remote_address := None, c_selected_subprotocol := None, c_numeric_id := i,
      c_remote_addr := (case a of Some addr \<Rightarrow> if sa_len addr \<le> SIZEOF_SOCKADDR_STORAGE then Some addr else None
        | None \<Rightarrow> None), c_fd := fd, c_open := True, c_upgraded := False, c_close_notified := False,
      c_defer_close := False, c_read_buffer := []\<rparr>"
  obtain c1 w1 where q: "websocket_connection_clear_write_queue D c0 w = (c1, w1)" by fastforce
  note c1 = clear_write_queue [OF q]
  have c': "c' = c1\<lparr>c_max_queued_bytes := WEBSOCKET_DEFAULT_MAX_QUEUED_BYTES,
      c_fragmented_payload := None, c_fragmented := False, c_fragmented_opcode := 0, c_last_ping_usec := 0,
      c_awaiting_pong := False\<rparr>" "w' = w1"
    using assms q by (simp_all add: websocket_connection_open_def Let_def c0_def)
  show "c_fd c' = fd" "c_open c'" "\<not> c_upgraded c'" "\<not> c_close_notified c'" "c_read_buffer c' = []" "\<not> c_fragmented c'"
    "c_write_queue c' = []" "c_queued_bytes c' = 0" "c_read_buffer_capacity c' = c_read_buffer_capacity c"
    "c_numeric_id c' = i" "c_refcount c' = c_refcount c" "\<not> c_close_after_write c'" "\<not> c_defer_close c'"
    by (simp_all add: c'(1) c1(1) c0_def)
  show "quiet w w'" using c1(2) c'(2) by simp
qed

text \<open>An object nothing has happened to yet.\<close>

definition new_connection :: "websocket_connection \<Rightarrow> bool" where
  "new_connection c \<longleftrightarrow> \<not> c_upgraded c \<and> \<not> c_close_notified c \<and> c_read_buffer c = [] \<and> c_read_buffer_capacity c = 0
     \<and> \<not> c_fragmented c \<and> c_write_queue c = [] \<and> c_queued_bytes c = 0"

lemma create_connection_new:
  assumes "websocket_server_create_connection_zval s = (h, s')"
  shows "g_world s' = g_world s"
    "v_reusable_connection s = None \<Longrightarrow> h = g_next_object s
       \<and> s' = (put_conn h websocket_connection_create_object s)\<lparr>g_next_object := Suc h\<rparr>"
  using assms by (auto simp: websocket_server_create_connection_zval_def split: option.splits)

lemma set_up_connection:
  obtains c w where "set_up_connection E a fd h s = (put_conn h c s)\<lparr>g_next_connection_id := g_next_connection_id s + 1, g_world := w\<rparr>"
    "same_pending (g_world s) w" "c_open c" "c_fd c = fd"
    "conn s h = websocket_connection_create_object \<Longrightarrow> new_connection c \<and> c_refcount c = 1 \<and> \<not> c_close_after_write c"
    "c_max_queued_bytes c = websocket_server_max_queued_bytes (v_options s)"
proof -
  obtain c0 w0 where o: "websocket_connection_open (e_driver E) (g_next_connection_id s) a fd (conn s h) (g_world s) = (c0, w0)"
    by fastforce
  note of = connection_open_facts [OF o]
  obtain now w where n: "websocket_server_now_usec w0 = (now, w)" by fastforce
  have w: "same_pending w0 w" using n by (auto simp: websocket_server_now_usec_def same_pending_def split: list.splits)
  let ?c = "c0\<lparr>c_accepted_at_usec := now, c_last_activity_usec := now,
      c_max_queued_bytes := websocket_server_max_queued_bytes (v_options s)\<rparr>"
  have "set_up_connection E a fd h s = (put_conn h ?c s)\<lparr>g_next_connection_id := g_next_connection_id s + 1, g_world := w\<rparr>"
    by (simp add: set_up_connection_def Let_def with_conn_def with_world_def o n update_conn_def put_conn_def)
  moreover have "same_pending (g_world s) w" using w of(14) by (auto simp: same_pending_def quiet_def)
  ultimately show thesis using of
    by (intro that [of w ?c]) (simp_all add: new_connection_def websocket_connection_create_object_def)
qed

lemma watch_read_pending:
  assumes "websocket_server_watch_read E fd s = (ok, s')"
  shows "\<exists>w. s' = s\<lparr>g_world := w\<rparr> \<and> same_pending (g_world s) w"
proof (cases "w_driver (g_world s)")
  case None
  then show ?thesis using assms by (intro exI [of _ "g_world s"]) (simp add: websocket_server_watch_read_def)
next
  case (Some d)
  then show ?thesis using assms driver_call_quiet(2) [OF Some, of "driver_watch_read (e_driver E)" fd]
    by (auto simp: websocket_server_watch_read_def with_world_def same_pending_def quiet_def split: prod.splits)
qed

lemma close_socket_php_step: "php_step s (connection_close_socket E h s)"
  by (rule with_conn_step [OF prod.collapse [symmetric]]) (auto dest: close_socket_step)

lemma drop_connection_step: "php_step s (drop_connection E h s)"
  unfolding drop_connection_def using close_socket_php_step release_object_step php_step_trans by blast

lemma php_step_pending: "php_step s s' \<Longrightarrow> same_pending (g_world s) (g_world s')"
  by (simp add: php_step_def same_input_def same_pending_def)

lemma release_object:
  obtains c w where "release_object E h s = (put_conn h c s)\<lparr>g_world := w\<rparr>"
    "c_refcount (conn s h) > 1 \<longrightarrow> c = (conn s h)\<lparr>c_refcount := c_refcount (conn s h) - 1\<rparr>"
    "\<not> c_refcount (conn s h) > 1 \<longrightarrow> c = (conn s h)\<lparr>c_open := False, c_fd := -1, c_write_queue := [],
       c_write_queue_offset := 0, c_queued_bytes := 0, c_refcount := 0\<rparr>"
proof (cases "c_refcount (conn s h) > 1")
  case True
  then show thesis
    by (intro that [of "g_world s" "(conn s h)\<lparr>c_refcount := c_refcount (conn s h) - 1\<rparr>"])
       (simp_all add: release_object_def update_conn_def put_conn_def)
next
  case False
  then show thesis
    by (intro that [of "websocket_connection_free_object (e_driver E) (conn s h) (g_world s)"
        "(conn s h)\<lparr>c_open := False, c_fd := -1, c_write_queue := [],
           c_write_queue_offset := 0, c_queued_bytes := 0, c_refcount := 0\<rparr>"])
       (simp_all add: release_object_def update_conn_def put_conn_def)
qed

lemma drop_connection:
  obtains c w where "drop_connection E h s = (put_conn h c s)\<lparr>g_world := w\<rparr>" "\<not> c_open c" "c_fd c < 0"
    "new_connection (conn s h) \<Longrightarrow> new_connection c" "same_pending (g_world s) w"
proof -
  obtain c0 w0 where cs: "websocket_connection_close_socket (e_driver E) (conn s h) (g_world s) = (c0, w0)" by fastforce
  define s1 where "s1 = (put_conn h c0 s)\<lparr>g_world := w0\<rparr>"
  have s1: "connection_close_socket E h s = s1" by (simp add: with_conn_def cs s1_def)
  obtain c w where r: "release_object E h s1 = (put_conn h c s1)\<lparr>g_world := w\<rparr>"
    "c_refcount (conn s1 h) > 1 \<longrightarrow> c = (conn s1 h)\<lparr>c_refcount := c_refcount (conn s1 h) - 1\<rparr>"
    "\<not> c_refcount (conn s1 h) > 1 \<longrightarrow> c = (conn s1 h)\<lparr>c_open := False, c_fd := -1, c_write_queue := [],
       c_write_queue_offset := 0, c_queued_bytes := 0, c_refcount := 0\<rparr>"
    by (rule release_object)
  note f = close_socket_facts(1) [OF cs]
  have c1: "conn s1 h = c0" by (simp add: s1_def)
  have eq: "drop_connection E h s = (put_conn h c s)\<lparr>g_world := w\<rparr>"
    unfolding drop_connection_def s1 r(1) by (simp add: s1_def put_conn_def)
  have cc: "\<not> c_open c \<and> c_fd c < 0 \<and> c_upgraded c = c_upgraded c0 \<and> c_close_notified c = c_close_notified c0
     \<and> c_read_buffer c = c_read_buffer c0 \<and> c_read_buffer_capacity c = c_read_buffer_capacity c0 \<and> \<not> c_fragmented c
     \<and> c_write_queue c = [] \<and> c_queued_bytes c = 0"
  proof (cases "c_refcount (conn s1 h) > 1")
    case True
    then have "c = c0\<lparr>c_refcount := c_refcount c0 - 1\<rparr>" using r(2) unfolding c1 by blast
    then show ?thesis using f by simp
  next
    case False
    then have "c = c0\<lparr>c_open := False, c_fd := -1, c_write_queue := [],
       c_write_queue_offset := 0, c_queued_bytes := 0, c_refcount := 0\<rparr>" using r(3) unfolding c1 by blast
    then show ?thesis using f by simp
  qed
  then have "new_connection c" if "new_connection (conn s h)"
    using that f unfolding new_connection_def by simp
  moreover have "same_pending (g_world s) w"
    using php_step_pending [OF drop_connection_step [of s E h]] unfolding eq by simp
  ultimately show thesis using that [OF eq] cc by blast
qed

lemma accept_consumes:
  assumes "with_world sys_accept s = (r, s')"
  shows "\<exists>w. s' = s\<lparr>g_world := w\<rparr> \<and> (w_driver w = None \<longleftrightarrow> w_driver (g_world s) = None)
    \<and> (length (w_accepts w) < length (w_accepts (g_world s)) \<or> r = None \<and> w_errno w = EAGAIN \<and> w_accepts w = w_accepts (g_world s))"
  using assms by (auto simp: with_world_def sys_accept_def split: list.splits accept_result.splits)

text \<open>What one \<^verbatim>\<open>accept\<close> does to the server: nothing but its descriptors, or one new connection,
  which is in the list if it could be watched and closed if not.\<close>

definition added :: "bool \<Rightarrow> 'd websocket_server \<Rightarrow> 'd websocket_server \<Rightarrow> bool" where
  "added ok s s' \<longleftrightarrow> (\<exists>c w i k x. s' = s\<lparr>g_objects := (conn s)(g_next_object s := c), g_next_object := Suc (g_next_object s),
       g_next_connection_id := i, g_world := w, v_connection_capacity := k, g_exception := x,
       v_connections := (if ok then v_connections s @ [g_next_object s] else v_connections s)\<rparr>
     \<and> length (v_connections s) < websocket_server_max_connections (v_options s)
     \<and> new_connection c \<and> (if ok then c_open c \<and> x = g_exception s else \<not> c_open c \<and> c_fd c < 0 \<and> x \<noteq> None)
     \<and> k = (if length (v_connections s) < v_connection_capacity s then v_connection_capacity s
            else if v_connection_capacity s = 0 then 8 else 2 * v_connection_capacity s)
     \<and> (w_driver w = None \<longleftrightarrow> w_driver (g_world s) = None)
     \<and> length (w_accepts w) < length (w_accepts (g_world s)))"

definition accept_outcome :: "bool \<Rightarrow> 'd websocket_server \<Rightarrow> 'd websocket_server \<Rightarrow> bool" where
  "accept_outcome ok s s' \<longleftrightarrow>
     (\<exists>w x. s' = s\<lparr>g_world := w, g_exception := x\<rparr> \<and> (w_driver w = None \<longleftrightarrow> w_driver (g_world s) = None)
       \<and> (x \<noteq> g_exception s \<longrightarrow> \<not> ok \<and> x \<noteq> None)
       \<and> (length (w_accepts w) < length (w_accepts (g_world s)) \<or> \<not> ok \<and> w_errno w = EAGAIN))
   \<or> added ok s s'"

lemma accept_outcome_world:
  assumes "s' = s\<lparr>g_world := w, g_exception := x\<rparr>" "w_driver w = None \<longleftrightarrow> w_driver (g_world s) = None"
    "x \<noteq> g_exception s \<Longrightarrow> \<not> ok \<and> x \<noteq> None"
    "length (w_accepts w) < length (w_accepts (g_world s)) \<or> \<not> ok \<and> w_errno w = EAGAIN"
  shows "accept_outcome ok s s'"
  unfolding accept_outcome_def
  by (rule disjI1, rule exI [of _ w], rule exI [of _ x], intro conjI impI)
     (use assms in blast)+

lemma accept_connection_outcome:
  assumes "websocket_server_accept_connection E s = (ok, s')" "v_reusable_connection s = None"
  shows "accept_outcome ok s s'"
proof -
  obtain r s1 where a: "with_world sys_accept s = (r, s1)" by fastforce
  obtain w1 where s1: "s1 = s\<lparr>g_world := w1\<rparr>" and d1: "w_driver w1 = None \<longleftrightarrow> w_driver (g_world s) = None"
    and acc: "length (w_accepts w1) < length (w_accepts (g_world s))
      \<or> r = None \<and> w_errno w1 = EAGAIN \<and> w_accepts w1 = w_accepts (g_world s)"
    using accept_consumes [OF a] that by (elim exE conjE) (rule that)
  note run = assms(1) [unfolded websocket_server_accept_connection_def a prod.case]
  have world: "accept_outcome ok' s (s\<lparr>g_world := w, g_exception := x\<rparr>)"
    if "same_pending w1 w" "length (w_accepts w1) < length (w_accepts (g_world s))" "x = g_exception s \<or> \<not> ok' \<and> x \<noteq> None" for w x ok'
  proof -
    have "w_driver w = None \<longleftrightarrow> w_driver (g_world s) = None" "length (w_accepts w) < length (w_accepts (g_world s))"
      using that(1,2) d1 by (simp_all add: same_pending_def)
    then show ?thesis using that(3) by (intro accept_outcome_world [where w = w and x = x, OF refl]) blast+
  qed
  show ?thesis
  proof (cases r)
    case None
    then have ok: "\<not> ok" "s' = s1" using run by auto
    have "s' = s\<lparr>g_world := w1, g_exception := g_exception s\<rparr>" using ok(2) by (simp add: s1)
    then show ?thesis by (rule accept_outcome_world [OF _ d1]) (use acc ok(1) in blast)+
  next
    case (Some fa)
    obtain client_fd remote_addr where r: "r = Some (client_fd, remote_addr)" using Some by (cases fa) auto
    have short: "length (w_accepts w1) < length (w_accepts (g_world s))" using acc r by simp
    define w2 where "w2 = w1\<lparr>w_errno := NoErrno\<rparr>"
    define s2 where "s2 = s\<lparr>g_world := w2\<rparr>"
    have s2: "s1\<lparr>g_world := (g_world s1)\<lparr>w_errno := NoErrno\<rparr>\<rparr> = s2" by (simp add: s1 s2_def w2_def)
    have p2: "same_pending w1 w2" by (simp add: w2_def)
    note run2 = run [unfolded r option.case prod.case s2 Let_def]
    show ?thesis
    proof (cases "length (v_connections s2) \<ge> websocket_server_max_connections (v_options s2)")
      case True
      obtain ok3 w3 where sb: "websocket_server_send_bytes client_fd websocket_service_unavailable_response 0 w2 = (ok3, w3)" by fastforce
      have "same_pending w1 (websocket_server_close_fd client_fd w3)"
        using p2 send_bytes_input [OF sb] step_weaken(3) close_fd_pending same_pending_trans by blast
      moreover have "ok" "s' = s\<lparr>g_world := websocket_server_close_fd client_fd w3\<rparr>"
        using run2 True by (auto simp: with_world_def sb close_fd_of_def s2_def)
      ultimately show ?thesis using world [OF _ short, of _ "g_exception s" ok] by simp
    next
      case False
      obtain nb w3 where n: "websocket_server_set_nonblocking w2 = (nb, w3)" by fastforce
      have p3: "same_pending w1 w3" using p2 set_nonblocking_pending [OF n] same_pending_trans by blast
      define s3 where "s3 = s\<lparr>g_world := w3\<rparr>"
      have n3: "with_world websocket_server_set_nonblocking s2 = (nb, s3)" by (simp add: with_world_def s2_def n s3_def)
      note run3 = run2 [unfolded if_not_P [OF False] n3 prod.case]
      show ?thesis
      proof (cases nb)
        case False
        then obtain e where "\<not> ok" "s' = s\<lparr>g_world := websocket_server_close_fd client_fd w3, g_exception := Some e\<rparr>"
          using run3 by (auto simp: close_fd_of_def s3_def throw_error_def)
        then show ?thesis using world [of "websocket_server_close_fd client_fd w3" "Some e" ok] p3 close_fd_pending
            same_pending_trans short by blast
      next
        case True
        let ?h = "g_next_object s"
        obtain h s4 where z: "websocket_server_create_connection_zval s3 = (h, s4)" by fastforce
        have h: "h = ?h" "s4 = (put_conn ?h websocket_connection_create_object s3)\<lparr>g_next_object := Suc ?h\<rparr>"
          using create_connection_new(2) [OF z] assms(2) by (simp_all add: s3_def)
        have hc: "conn s4 h = websocket_connection_create_object" by (simp add: h)
        obtain c5 w5 where s5: "set_up_connection E remote_addr client_fd h s4 =
            (put_conn h c5 s4)\<lparr>g_next_connection_id := g_next_connection_id s4 + 1, g_world := w5\<rparr>"
          and p5: "same_pending (g_world s4) w5" and c5: "c_open c5" 
          and new: "conn s4 h = websocket_connection_create_object \<Longrightarrow> new_connection c5 \<and> c_refcount c5 = 1 \<and> \<not> c_close_after_write c5"
          by (rule set_up_connection [of E remote_addr client_fd h s4]) (rule that; assumption)
        have new: "new_connection c5" using new hc by blast
        define k where "k = (if length (v_connections s) < v_connection_capacity s then v_connection_capacity s
            else if v_connection_capacity s = 0 then 8 else 2 * v_connection_capacity s)"
        define B where "B = (\<lambda>c w x b. s\<lparr>g_objects := (conn s)(?h := c), g_next_object := Suc ?h,
           g_next_connection_id := g_next_connection_id s + 1, g_world := w, v_connection_capacity := k, g_exception := x,
           v_connections := (if b then v_connections s @ [?h] else v_connections s)\<rparr>)"
        have s6: "websocket_server_ensure_connection_capacity (set_up_connection E remote_addr client_fd h s4)
            = (True, B c5 w5 (g_exception s) False)"
          unfolding s5 by (simp add: websocket_server_ensure_connection_capacity_def h s3_def put_conn_def B_def k_def)
        have p: "same_pending w1 w5" using p3 p5 same_pending_trans by (auto simp: h s3_def)
        obtain ok7 s7 where w: "websocket_server_watch_read E client_fd (B c5 w5 (g_exception s) False) = (ok7, s7)" by fastforce
        obtain w7 where s7: "s7 = (B c5 w5 (g_exception s) False)\<lparr>g_world := w7\<rparr>" and p7: "same_pending w5 w7"
          using watch_read_pending [OF w] by (auto simp: B_def)
        have s7: "s7 = B c5 w7 (g_exception s) False" unfolding s7 by (simp add: B_def)
        have len: "length (v_connections s) < websocket_server_max_connections (v_options s)" using False by (simp add: s2_def)
        have fin: "added ok' s (B c w x ok')"
          if "same_pending w7 w" "new_connection c" "if ok' then c_open c \<and> x = g_exception s else \<not> c_open c \<and> c_fd c < 0 \<and> x \<noteq> None"
          for c w x ok'
        proof -
          have "same_pending w1 w" using p p7 that(1) same_pending_trans by blast
          then have "w_driver w = None \<longleftrightarrow> w_driver (g_world s) = None" "length (w_accepts w) < length (w_accepts (g_world s))"
            using d1 short by (simp_all add: same_pending_def)
          then show ?thesis unfolding added_def B_def k_def
            by (intro exI conjI) (rule refl len that(2,3) | assumption)+
        qed
        note run4 = run3 [unfolded z s6 prod.case not_True_eq_False if_False w]
        show ?thesis
        proof (cases ok7)
          case True
          then have "ok" "s' = B c5 w7 (g_exception s) True" using run4 \<open>nb\<close> by (auto simp: s7 B_def h)
          then show ?thesis unfolding accept_outcome_def using fin [of w7 c5 True "g_exception s"] new c5 by simp
        next
          case False
          obtain c8 w8 where d: "drop_connection E h s7 = (put_conn h c8 s7)\<lparr>g_world := w8\<rparr>" "\<not> c_open c8" "c_fd c8 < 0"
            "new_connection (conn s7 h) \<Longrightarrow> new_connection c8" "same_pending (g_world s7) w8"
            by (rule drop_connection [of E h s7]) (rule that; assumption)
          have n8: "new_connection c8" using d(4) new by (simp add: s7 B_def h)
          have "drop_connection E h s7 = B c8 w8 (g_exception s) False" unfolding d(1) by (simp add: s7 B_def h put_conn_def)
          then obtain e where "\<not> ok" "s' = B c8 w8 (Some e) False"
            using run4 \<open>nb\<close> False by (auto simp: throw_error_def B_def)
          then show ?thesis unfolding accept_outcome_def using fin [of w8 c8 False "Some e"] n8 d(2,3,5) by (simp add: s7 B_def)
        qed
      qed
    qed
  qed
qed

lemma accept_shorter:
  assumes "websocket_server_accept_connection E s = (ok, s')"
  shows "length (w_accepts (g_world s')) < length (w_accepts (g_world s)) \<or> \<not> ok \<and> w_errno (g_world s') = EAGAIN"
proof -
  obtain r s1 where a: "with_world sys_accept s = (r, s1)" by fastforce
  note run = assms [unfolded websocket_server_accept_connection_def a prod.case]
  show ?thesis
  proof (cases r)
    case None
    then show ?thesis using run accept_consumes [OF a] by auto
  next
    case (Some fa)
    obtain client_fd remote_addr where r: "r = Some (client_fd, remote_addr)" using Some by (cases fa) auto
    have short: "length (w_accepts (g_world s1)) < length (w_accepts (g_world s))"
      using accept_consumes [OF a] r by auto
    define s2 where "s2 = s1\<lparr>g_world := (g_world s1)\<lparr>w_errno := NoErrno\<rparr>\<rparr>"
    obtain ok3 w3 where sb: "websocket_server_send_bytes client_fd websocket_service_unavailable_response 0 (g_world s2) = (ok3, w3)"
      by fastforce
    obtain nb w4 where n: "websocket_server_set_nonblocking (g_world s2) = (nb, w4)" by fastforce
    define s3 where "s3 = s2\<lparr>g_world := w4\<rparr>"
    obtain h s4 where z: "websocket_server_create_connection_zval s3 = (h, s4)" by fastforce
    obtain room s5 where c: "websocket_server_ensure_connection_capacity (set_up_connection E remote_addr client_fd h s4) = (room, s5)"
      by fastforce
    obtain ok6 s6 where w: "websocket_server_watch_read E client_fd s5 = (ok6, s6)" by fastforce
    have w3: "g_world s3 = w4" by (simp add: s3_def)
    have e: "w_accepts (g_world s2) = w_accepts (g_world s1)" by (simp add: s2_def)
    moreover have "w_accepts w3 = w_accepts (g_world s2)" using send_bytes_input [OF sb] by (simp add: same_input_def)
    then have "w_accepts (websocket_server_close_fd client_fd w3) = w_accepts (g_world s1)"
      using close_fd_pending [of w3 client_fd] e by (simp add: same_pending_def)
    moreover have w4: "w_accepts w4 = w_accepts (g_world s1)"
      using set_nonblocking_pending [OF n] e by (simp add: same_pending_def)
    moreover have "w_accepts (websocket_server_close_fd client_fd w4) = w_accepts (g_world s1)"
      using close_fd_pending [of w4 client_fd] w4 by (simp add: same_pending_def)
    moreover have "w_accepts (g_world s4) = w_accepts (g_world s1)"
      using create_connection_new(1) [OF z] w4 by (simp add: s3_def)
    then have "w_accepts (g_world (set_up_connection E remote_addr client_fd h s4)) = w_accepts (g_world s1)"
      by (rule_tac set_up_connection [of E remote_addr client_fd h s4]) (simp add: same_pending_def)
    then have s5: "w_accepts (g_world s5) = w_accepts (g_world s1)"
      using c by (auto simp: websocket_server_ensure_connection_capacity_def split: if_splits)
    moreover have s6: "w_accepts (g_world s6) = w_accepts (g_world s1)"
      using watch_read_pending [OF w] s5 by (auto simp: same_pending_def)
    moreover have "w_accepts (g_world (drop_connection E h s5)) = w_accepts (g_world s1)"
        "w_accepts (g_world (drop_connection E h s6)) = w_accepts (g_world s1)"
      using php_step_pending [OF drop_connection_step [of s5 E h]] php_step_pending [OF drop_connection_step [of s6 E h]] s5 s6
      by (simp_all add: same_pending_def)
    ultimately have "w_accepts (g_world s') = w_accepts (g_world s1)"
      using run by (auto simp: r Let_def with_world_def sb n z c w w3 close_fd_of_def
          simp flip: s2_def s3_def split: if_splits)
    then show ?thesis using short by simp
  qed
qed

text \<open>At most \<^verbatim>\<open>WEBSOCKET_ACCEPT_BATCH_LIMIT\<close> connections between two waits.\<close>

function accept_loop :: "'d environment \<Rightarrow> nat \<Rightarrow> 'd websocket_server \<Rightarrow> bool \<times> 'd websocket_server" where
  "accept_loop E accepted s =
    (if v_running s \<and> \<not> g_stopped s \<and> accepted < WEBSOCKET_ACCEPT_BATCH_LIMIT then
       (case websocket_server_accept_connection E s of
          (ok, s') \<Rightarrow>
            if \<not> ok then
              (if g_exception s' \<noteq> None then (False, s')
               else if w_errno (g_world s') = EAGAIN \<or> w_errno (g_world s') = EWOULDBLOCK then (True, s')
               else if w_errno (g_world s') = EINTR then accept_loop E accepted s'
               else (g_exception s' = None, s'))
            else accept_loop E (accepted + 1) s')
     else (True, s))"
  by pat_completeness auto
termination
  by (relation "measure (\<lambda>(E, accepted, s). length (w_accepts (g_world s)))") (auto dest: accept_shorter [OF sym])

declare accept_loop.simps [simp del]

definition websocket_server_accept_pending :: "'d environment \<Rightarrow> 'd websocket_server \<Rightarrow> bool \<times> 'd websocket_server" where
  [ws_eval]: "websocket_server_accept_pending E s = accept_loop E 0 s"

end
