(* ===== verification/Ws_Loop.thy ===== *)
theory Ws_Loop
  imports Ws_Accept
begin

text \<open>
  The server loop (\<^verbatim>\<open>websocket_server_runtime.c\<close>): what is done for each connection between two
  waits, how connections are removed and everything is closed, the listener, and the run from
  \<^verbatim>\<open>Server::run\<close> to its return.
\<close>

subsection \<open>One connection\<close>

text \<open>
  What \<^verbatim>\<open>websocket_server_process_connection_fd\<close> and \<^verbatim>\<open>websocket_server_process_connections\<close> do
  alike for an open connection: timeouts, heartbeat, pending writes. \<open>None\<close> goes on to read,
  \<open>Some b\<close> is done with the connection, with \<open>b\<close> the verdict for the loop.
\<close>

definition service_connection ::
    "'d environment \<Rightarrow> u64 \<Rightarrow> nat \<Rightarrow> 'd websocket_server \<Rightarrow> bool option \<times> 'd websocket_server" where
  [ws_eval]: "service_connection E now_usec h s =
    (let D = e_driver E in
     if websocket_server_connection_expired (v_options s) now_usec (conn s h) then
       (Some True, snd (with_conn (\<lambda>c w. ((), websocket_server_close_expired_connection D c w)) h s))
     else
       (case with_conn (websocket_server_process_heartbeat D (v_options s) now_usec) h s of
          (ok, s) \<Rightarrow>
            if \<not> ok then (Some False, s)
            else
              (case (if websocket_connection_has_pending_writes (conn s h)
                     then with_conn (websocket_connection_flush D) h s else (True, s)) of
                 (flushed, s) \<Rightarrow>
                   if \<not> flushed then (Some True, s)
                   else if \<not> c_open (conn s h) \<or> c_close_after_write (conn s h) then (Some True, s)
                   else (None, s))))"

definition websocket_server_process_connection_fd ::
    "'d environment \<Rightarrow> int \<Rightarrow> 'd websocket_server \<Rightarrow> bool \<times> 'd websocket_server" where
  [ws_eval]: "websocket_server_process_connection_fd E fd s =
    (case with_world websocket_server_now_usec s of
       (now_usec, s) \<Rightarrow>
         (case index_where (\<lambda>h. c_fd (conn s h) = fd) (v_connections s) of
            None \<Rightarrow> (True, s)
          | Some i \<Rightarrow>
              (let h = v_connections s ! i in
               if \<not> c_open (conn s h) then (True, s)
               else
                 (case service_connection E now_usec h s of
                    (Some result, s) \<Rightarrow> (result, s)
                  | (None, s) \<Rightarrow>
                      if \<not> c_upgraded (conn s h) then websocket_server_process_handshake E h s
                      else websocket_server_process_frame_reads E h s))))"

text \<open>The loop over the connections. No operation in it changes the list of connections.\<close>

fun process_each :: "'d environment \<Rightarrow> u64 \<Rightarrow> nat list \<Rightarrow> 'd websocket_server \<Rightarrow> bool \<times> 'd websocket_server" where
  "process_each E now_usec [] s = (True, s)"
| "process_each E now_usec (h # hs) s =
    (if \<not> c_open (conn s h) then process_each E now_usec hs s
     else
       (case service_connection E now_usec h s of
          (Some result, s) \<Rightarrow> if result then process_each E now_usec hs s else (False, s)
        | (None, s) \<Rightarrow>
            (case (if \<not> c_upgraded (conn s h) then websocket_server_process_handshake E h s else (True, s)) of
               (ok, s) \<Rightarrow>
                 if \<not> ok then (False, s)
                 else
                   (case (if c_upgraded (conn s h) \<and> length (c_read_buffer (conn s h)) > 0
                          then websocket_server_process_buffered_frames E h s else (True, s)) of
                      (ok, s) \<Rightarrow> if \<not> ok then (False, s) else process_each E now_usec hs s))))"

definition websocket_server_process_connections ::
    "'d environment \<Rightarrow> 'd websocket_server \<Rightarrow> bool \<times> 'd websocket_server" where
  [ws_eval]: "websocket_server_process_connections E s =
    (case with_world websocket_server_now_usec s of
       (now_usec, s) \<Rightarrow> process_each E now_usec (v_connections s) s)"

subsection \<open>Removing connections\<close>

definition websocket_server_unwatch :: "'d environment \<Rightarrow> int \<Rightarrow> 'd websocket_server \<Rightarrow> 'd websocket_server" where
  [ws_eval]: "websocket_server_unwatch E fd s =
    (case w_driver (g_world s) of
       None \<Rightarrow> s
     | Some d \<Rightarrow> s\<lparr>g_world := driver_call_unwatch (driver_unwatch (e_driver E)) fd d (g_world s)\<rparr>)"

definition websocket_server_close_connection_at ::
    "'d environment \<Rightarrow> nat \<Rightarrow> bool \<Rightarrow> 'd websocket_server \<Rightarrow> bool \<times> 'd websocket_server" where
  [ws_eval]: "websocket_server_close_connection_at E index notify s =
    (let h = v_connections s ! index;
         s = s\<lparr>v_connections := remove_at index (v_connections s)\<rparr>;
         s = update_conn (\<lambda>c. c\<lparr>c_open := False\<rparr>) h s;
         s = (if c_fd (conn s h) \<ge> 0 then websocket_server_unwatch E (c_fd (conn s h)) s else s) in
     case (if notify then websocket_server_notify_connection_closed E h s else (True, s)) of
       (ok, s) \<Rightarrow> (ok, drop_connection E h s))"

lemma php_step_connections: "php_step s s' \<Longrightarrow> v_connections s' = v_connections s"
  unfolding php_step_def using fixedD(10) by blast

lemma notify_cases:
  assumes "websocket_server_notify_connection_closed E h s = (ok, s')"
  shows "s' = s \<and> ok \<and> (\<not> c_upgraded (conn s h) \<or> c_close_notified (conn s h) \<or> v_on_close s = None)
    \<or> c_upgraded (conn s h) \<and> \<not> c_close_notified (conn s h) \<and> v_on_close s \<noteq> None
      \<and> php_step (log_event (CloseEvent h) (update_conn (\<lambda>c. c\<lparr>c_close_notified := True\<rparr>) h s)) s'"
proof -
  have f: "v_on_close (update_conn f h s) = v_on_close s" for f by (simp add: update_conn_def put_conn_def)
  show ?thesis
    using assms by (auto simp: websocket_server_notify_connection_closed_def websocket_server_call_handler_def f
      dest!: call_with_conn_step split: if_splits option.splits prod.splits)
qed

lemma notify_connections:
  "websocket_server_notify_connection_closed E h s = (ok, s') \<Longrightarrow> v_connections s' = v_connections s"
  using notify_cases [of E h s ok s'] by (auto dest: php_step_connections)

lemma close_connection_at_list:
  assumes "websocket_server_close_connection_at E i notify s = (ok, s')"
  shows "v_connections s' = remove_at i (v_connections s)" "\<not> notify \<Longrightarrow> ok"
  using assms
  by (auto simp: websocket_server_close_connection_at_def Let_def websocket_server_unwatch_def php_step_connections [OF drop_connection_step]
      dest!: notify_connections split: prod.splits if_splits option.splits)

function purge_from :: "'d environment \<Rightarrow> nat \<Rightarrow> 'd websocket_server \<Rightarrow> bool \<times> 'd websocket_server" where
  "purge_from E i s =
    (if i < length (v_connections s) then
       (if \<not> c_open (conn s (v_connections s ! i)) then
          (case websocket_server_close_connection_at E i True s of
             (ok, s') \<Rightarrow> if \<not> ok then (False, s') else purge_from E i s')
        else purge_from E (i + 1) s)
     else (True, s))"
  by pat_completeness auto
termination
  by (relation "measure (\<lambda>(E, i, s). length (v_connections s) - i)")
     (auto dest!: close_connection_at_list(1) [OF sym] simp: length_remove_at)

declare purge_from.simps [simp del]

definition websocket_server_purge_closed_connections ::
    "'d environment \<Rightarrow> 'd websocket_server \<Rightarrow> bool \<times> 'd websocket_server" where
  [ws_eval]: "websocket_server_purge_closed_connections E s = purge_from E 0 s"

function websocket_server_close_all_connections ::
    "'d environment \<Rightarrow> bool \<Rightarrow> 'd websocket_server \<Rightarrow> bool \<times> 'd websocket_server" where
  "websocket_server_close_all_connections E notify s =
    (if length (v_connections s) > 0 then
       (case websocket_server_close_connection_at E (length (v_connections s) - 1) notify s of
          (ok, s') \<Rightarrow> if \<not> ok then (False, s') else websocket_server_close_all_connections E notify s')
     else (True, s))"
  by pat_completeness auto
termination
  by (relation "measure (\<lambda>(E, notify, s). length (v_connections s))")
     (auto dest!: close_connection_at_list(1) [OF sym] simp: length_remove_at)

declare websocket_server_close_all_connections.simps [simp del]

definition websocket_server_runtime_close :: "'d environment \<Rightarrow> bool \<Rightarrow> 'd websocket_server \<Rightarrow> 'd websocket_server" where
  [ws_eval]: "websocket_server_runtime_close E notify s =
    (let s = (if v_listener_fd s \<ge> 0
              then (close_fd_of (v_listener_fd s) (websocket_server_unwatch E (v_listener_fd s) s))\<lparr>v_listener_fd := -1\<rparr>
              else s) in
     case websocket_server_close_all_connections E notify s of
       (ok, s) \<Rightarrow> if \<not> ok then snd (websocket_server_close_all_connections E False s) else s)"

definition websocket_server_runtime_free :: "'d environment \<Rightarrow> 'd websocket_server \<Rightarrow> 'd websocket_server" where
  [ws_eval]: "websocket_server_runtime_free E s =
    (let s = websocket_server_runtime_close E False s;
         s = (case v_reusable_connection s of
                Some h \<Rightarrow> (release_object E h s)\<lparr>v_reusable_connection := None\<rparr> | None \<Rightarrow> s)
     in s\<lparr>v_connections := [], v_connection_capacity := 0\<rparr>)"

subsection \<open>The listener\<close>

text \<open>The loop over the addresses. The result is the descriptor, -1 if there is none, and \<^verbatim>\<open>last_errno\<close>.\<close>

fun listen_on :: "listen_address list \<Rightarrow> errno \<Rightarrow> 'd world \<Rightarrow> (int \<times> errno) \<times> 'd world" where
  "listen_on [] last_errno w = ((-1, last_errno), w)"
| "listen_on (a # as) last_errno w =
    (case la_socket a of
       Inl e \<Rightarrow> listen_on as e (w\<lparr>w_errno := e\<rparr>)
     | Inr fd \<Rightarrow>
         (case websocket_server_set_nonblocking w of
            (ok, w) \<Rightarrow>
              if \<not> ok then listen_on as (w_errno w) (websocket_server_close_fd fd w)
              else
                (case la_bind a of
                   Some e \<Rightarrow> listen_on as e (websocket_server_close_fd fd (w\<lparr>w_errno := e\<rparr>))
                 | None \<Rightarrow>
                     (case la_listen a of
                        Some e \<Rightarrow> listen_on as e (websocket_server_close_fd fd (w\<lparr>w_errno := e\<rparr>))
                      | None \<Rightarrow> ((fd, last_errno), w)))))"

definition text_of :: "bytes \<Rightarrow> string" where
  [ws_eval]: "text_of bs = map (\<lambda>b. char_of (unat b)) bs"

definition websocket_server_create_listener :: "'d environment \<Rightarrow> 'd websocket_server \<Rightarrow> int \<times> 'd websocket_server" where
  [ws_eval]: "websocket_server_create_listener E s =
    (let host = (case v_host s of Some b \<Rightarrow> b | None \<Rightarrow> []); port = decimal_int (v_port s) in
     case e_addresses E host port of
       Inl message \<Rightarrow>
         (-1, throw_error (Error (''Cannot resolve WebSocket listen address '' @ text_of host @ '':'' @ port
                                  @ '': '' @ message)) s)
     | Inr addresses \<Rightarrow>
         (case with_world (listen_on addresses NoErrno) s of
            ((fd, last_errno), s) \<Rightarrow>
              (fd, if fd < 0 then
                     throw_error (Error (''Cannot listen on '' @ text_of host @ '':'' @ port @ '': ''
                       @ e_strerror E (if last_errno \<noteq> NoErrno then last_errno else w_errno (g_world s)))) s
                   else s)))"

subsection \<open>The loop\<close>

definition WEBSOCKET_LOOP_TIMEOUT_USEC :: int where
  [ws_eval]: "WEBSOCKET_LOOP_TIMEOUT_USEC = 100000"

text \<open>One turn of the loop; the result is whether to go on.\<close>

definition loop_turn :: "'d environment \<Rightarrow> 'd websocket_server \<Rightarrow> bool \<times> 'd websocket_server" where
  [ws_eval]: "loop_turn E s =
    (case w_driver (g_world s) of
       None \<Rightarrow> (False, s)
     | Some d \<Rightarrow>
         (case driver_wait (e_driver E) WEBSOCKET_LOOP_TIMEOUT_USEC (d, w_errno (g_world s)) of
            ((ready, stored), d, e) \<Rightarrow>
              (let s = s\<lparr>g_world := (g_world s)\<lparr>w_driver := Some d, w_errno := e\<rparr>\<rparr>;
                   ready_fd = (case stored of Some fd \<Rightarrow> fd | None \<Rightarrow> -1) in
               if ready < 0 then
                 (if e = EINTR then (True, s)
                  else (False, throw_error (Error (''WebSocket server loop failed: '' @ error_text E s)) s))
               else
                 (case (if ready > 0 \<and> ready_fd = v_listener_fd s then websocket_server_accept_pending E s
                        else if ready > 0 \<and> ready_fd \<ge> 0 then websocket_server_process_connection_fd E ready_fd s
                        else (True, s)) of
                    (ok, s) \<Rightarrow>
                      if \<not> ok then (False, s)
                      else
                        (case websocket_server_process_connections E s of
                           (ok, s) \<Rightarrow>
                             if \<not> ok then (False, s) else websocket_server_purge_closed_connections E s)))))"

text \<open>The loop runs until it is stopped, perhaps for ever: \<open>None\<close> is a run that never ends.\<close>

partial_function (option) server_loop :: "'d environment \<Rightarrow> 'd websocket_server \<Rightarrow> 'd websocket_server option" where
  "server_loop E s =
    (if v_running s \<and> \<not> g_stopped s then
       (case loop_turn E s of (continue, s) \<Rightarrow> if continue then server_loop E s else Some s)
     else Some s)"

declare server_loop.simps [code]

definition websocket_server_runtime_run :: "'d environment \<Rightarrow> 'd websocket_server \<Rightarrow> (bool \<times> 'd websocket_server) option" where
  [ws_eval]: "websocket_server_runtime_run E s =
    (case websocket_server_create_listener E s of
       (fd, s) \<Rightarrow>
         (let s = s\<lparr>v_listener_fd := fd\<rparr> in
          if fd < 0 then Some (False, s)
          else
            (case websocket_server_watch_read E fd s of
               (ok, s) \<Rightarrow>
                 if \<not> ok then
                   (let s = throw_error (Error (''Cannot watch WebSocket listener with '' @ driver_name (e_driver E)
                                                @ '' driver: '' @ error_text E s)) s
                    in Some (False, websocket_server_runtime_close E False s))
                 else
                   (case server_loop E s of
                      None \<Rightarrow> None
                    | Some s \<Rightarrow>
                        (let s = websocket_server_runtime_close E (g_exception s = None) s
                         in Some (g_exception s = None, s))))))"

definition Server_run :: "'d environment \<Rightarrow> 'd websocket_server \<Rightarrow> 'd websocket_server option" where
  [ws_eval]: "Server_run E s =
    (if g_running s then Some (throw_error (Error ''The WebSocket server is already running'') s)
     else if \<not> v_listening s then Some (throw_error (Error ''Cannot run WebSocket server before listen()'') s)
     else
       (let s = (if w_driver (g_world s) = None
                 then s\<lparr>g_world := (g_world s)\<lparr>w_driver := e_best_driver E\<rparr>\<rparr> else s) in
        if w_driver (g_world s) = None then Some (throw_error (Error ''No suitable I/O driver available'') s)
        else
          map_option (\<lambda>(_, s). s\<lparr>v_running := False, g_running := False\<rparr>)
            (websocket_server_runtime_run E (s\<lparr>g_running := True, g_stopped := False, v_running := True\<rparr>))))"

end
