(* ===== verification/Ws_Module.thy ===== *)
theory Ws_Module
  imports Ws_Loop
begin

text \<open>
  The methods of \<^verbatim>\<open>Server\<close> that set it up (\<^verbatim>\<open>websocket_server.c\<close>), the life of the module and the
  choice of a driver (\<^verbatim>\<open>websocket.c\<close>).
\<close>

subsection \<open>The server object\<close>

definition websocket_server_create_object :: "'d websocket_server \<Rightarrow> 'd websocket_server" where
  [ws_eval]: "websocket_server_create_object s =
    s\<lparr>v_options := OptionsUndef, v_subprotocols := None, v_on_open := None, v_on_handshake := None,
      v_on_message := None, v_on_close := None, v_on_error := None, v_on_open_param_count := 1,
      v_on_open_cache_initialized := False, v_host := None, v_port := 0, v_listening := False,
      v_running := False, v_listener_fd := -1, v_reusable_connection := None, v_connections := [],
      v_connection_capacity := 0\<rparr>"

definition websocket_server_free_object :: "'d environment \<Rightarrow> 'd websocket_server \<Rightarrow> 'd websocket_server" where
  [ws_eval]: "websocket_server_free_object E s =
    (websocket_server_runtime_free E
       (s\<lparr>v_options := OptionsUndef, v_subprotocols := None, v_on_open := None, v_on_handshake := None,
          v_on_message := None, v_on_close := None, v_on_error := None\<rparr>))\<lparr>v_host := None\<rparr>"

text \<open>The argument is not given, an array or a \<^verbatim>\<open>ServerOptions\<close>, or of some other type.\<close>

definition Server_construct ::
    "(server_options + string) option \<Rightarrow> 'd websocket_server \<Rightarrow> (php_error + unit) \<times> 'd websocket_server" where
  [ws_eval]: "Server_construct arg s =
    (case arg of
       Some (Inr t) \<Rightarrow>
         (Inl (ArgumentTypeError 1 (''must be of type array|WebSocket'' @ [CHR 0x5C] @ ''ServerOptions, '' @ t @ '' given'')), s)
     | Some (Inl options) \<Rightarrow> (Inr (), s\<lparr>v_options := options, v_subprotocols := Some []\<rparr>)
     | None \<Rightarrow> (Inr (), s\<lparr>v_options := OptionsArray Map.empty, v_subprotocols := Some []\<rparr>))"

definition Server_subprotocols ::
    "php_value list \<Rightarrow> 'd websocket_server \<Rightarrow> (php_error + unit) \<times> 'd websocket_server" where
  [ws_eval]: "Server_subprotocols protocols s =
    (if v_running s then
       (Inl (Error ''Cannot change WebSocket subprotocols while the server is running''), s)
     else
       (case normalize_subprotocols protocols 0 [] of
          Inl e \<Rightarrow> (Inl e, s)
        | Inr normalized \<Rightarrow> (Inr (), s\<lparr>v_subprotocols := Some normalized\<rparr>)))"

definition Server_listen :: "bytes \<Rightarrow> int \<Rightarrow> 'd websocket_server \<Rightarrow> (php_error + unit) \<times> 'd websocket_server" where
  [ws_eval]: "Server_listen host port s =
    (if port < 1 \<or> port > 65535 then (Inl (ArgumentValueError 2 ''must be between 1 and 65535''), s)
     else if length (c_string host) \<noteq> length host then
       (Inl (ArgumentValueError 1 ''must not contain null bytes''), s)
     else (Inr (), s\<lparr>v_host := Some host, v_port := port, v_listening := True\<rparr>))"

text \<open>\<open>num_args\<close> and \<open>variadic\<close> describe the closure. A closure always has a method definition, so
  that the call cache is set.\<close>

definition Server_onOpen ::
    "(server_event list \<Rightarrow> nat option \<Rightarrow> php_code) \<Rightarrow> nat \<Rightarrow> bool \<Rightarrow> 'd websocket_server \<Rightarrow> 'd websocket_server" where
  [ws_eval]: "Server_onOpen handler num_args variadic s =
    s\<lparr>v_on_open := Some handler,
      v_on_open_param_count := (if num_args = 0 \<and> \<not> variadic then 0 else 1),
      v_on_open_cache_initialized := True\<rparr>"

definition Server_onHandshake ::
    "(server_event list \<Rightarrow> ws_request \<Rightarrow> php_code) \<Rightarrow> 'd websocket_server \<Rightarrow> 'd websocket_server" where
  [ws_eval]: "Server_onHandshake handler s = s\<lparr>v_on_handshake := Some handler\<rparr>"

definition Server_onMessage ::
    "(server_event list \<Rightarrow> nat \<Rightarrow> bytes \<Rightarrow> message_type \<Rightarrow> php_code) \<Rightarrow> 'd websocket_server \<Rightarrow> 'd websocket_server" where
  [ws_eval]: "Server_onMessage handler s = s\<lparr>v_on_message := Some handler\<rparr>"

definition Server_onClose ::
    "(server_event list \<Rightarrow> nat \<Rightarrow> php_code) \<Rightarrow> 'd websocket_server \<Rightarrow> 'd websocket_server" where
  [ws_eval]: "Server_onClose handler s = s\<lparr>v_on_close := Some handler\<rparr>"

definition Server_onError ::
    "(server_event list \<Rightarrow> php_code) \<Rightarrow> 'd websocket_server \<Rightarrow> 'd websocket_server" where
  [ws_eval]: "Server_onError handler s = s\<lparr>v_on_error := Some handler\<rparr>"

subsection \<open>The choice of a driver\<close>

datatype driver_kind = Epoll | Kqueue | Poll | Select

text \<open>The build: which of \<^verbatim>\<open>HAVE_WEBSOCKET_EPOLL\<close>, \<^verbatim>\<open>HAVE_WEBSOCKET_KQUEUE\<close> and
  \<^verbatim>\<open>HAVE_WEBSOCKET_POLL\<close> are defined.\<close>

record build =
  have_epoll :: bool
  have_kqueue :: bool
  have_poll :: bool

text \<open>\<open>init\<close> gives the initialised driver of a kind, or \<open>None\<close> if its \<^verbatim>\<open>init\<close> fails.\<close>

definition websocket_select_best_driver :: "build \<Rightarrow> (driver_kind \<Rightarrow> 'd option) \<Rightarrow> 'd option" where
  [ws_eval]: "websocket_select_best_driver b init =
    (case (if have_epoll b then init Epoll else None) of
       Some d \<Rightarrow> Some d
     | None \<Rightarrow>
         (case (if have_kqueue b then init Kqueue else None) of
            Some d \<Rightarrow> Some d
          | None \<Rightarrow>
              (case (if have_poll b then init Poll else None) of
                 Some d \<Rightarrow> Some d
               | None \<Rightarrow> init Select)))"

definition websocket_best_driver_name :: "build \<Rightarrow> string" where
  [ws_eval]: "websocket_best_driver_name b =
    (if have_epoll b then ''epoll'' else if have_kqueue b then ''kqueue''
     else if have_poll b then ''poll'' else ''select'')"

definition Server_getDriver :: "'d environment \<Rightarrow> build \<Rightarrow> 'd websocket_server \<Rightarrow> string" where
  [ws_eval]: "Server_getDriver E b s =
    (if w_driver (g_world s) \<noteq> None then driver_name (e_driver E) else websocket_best_driver_name b)"

subsection \<open>The life of the module\<close>

definition RINIT :: "'d websocket_server \<Rightarrow> 'd websocket_server" where
  [ws_eval]: "RINIT s =
    s\<lparr>g_world := (g_world s)\<lparr>w_driver := None\<rparr>, g_next_connection_id := 1, g_running := False, g_stopped := False\<rparr>"

definition RSHUTDOWN :: "'d environment \<Rightarrow> 'd websocket_server \<Rightarrow> 'd websocket_server" where
  [ws_eval]: "RSHUTDOWN E s =
    (case w_driver (g_world s) of
       None \<Rightarrow> s
     | Some d \<Rightarrow>
         (case driver_shutdown (e_driver E) (d, w_errno (g_world s)) of
            (_, e) \<Rightarrow> s\<lparr>g_world := (g_world s)\<lparr>w_driver := None, w_errno := e\<rparr>\<rparr>))"

end
