(* ===== verification/Ws_Session.thy ===== *)
theory Ws_Session
  imports Ws_Module
begin

text \<open>
  The server as a state machine. Whatever the server does between two waits is a sequence of
  moves: calm ones, which log no event of a session, and the ones that shake hands, upgrade,
  deliver a message, report a close, take on a connection or drop one from the list. The guards
  of the moves are the conditions the code has checked when it gets there.

  The operations of the server are shown to be sequences of moves, and the invariants to hold
  after every move; together they give what a PHP program can rely on.
\<close>

subsection \<open>Sessions\<close>

text \<open>What the events of connection \<open>h\<close> say of it. \<open>opens\<close> is whether the server has an \<^verbatim>\<open>onOpen\<close>
  handler; without one the upgrade leaves no event.\<close>

datatype phase = Connecting | Shaken | Live | Closed

fun phase_step :: "bool \<Rightarrow> nat \<Rightarrow> server_event \<Rightarrow> phase \<Rightarrow> phase option" where
  "phase_step opens h (HandshakeEvent h' _) p =
    (if h' \<noteq> h then Some p else if p = Connecting then Some Shaken else None)"
| "phase_step opens h (OpenEvent h') p =
    (if h' \<noteq> h then Some p else if p = Connecting \<or> p = Shaken then Some Live else None)"
| "phase_step opens h (MessageEvent h' _ _) p =
    (if h' \<noteq> h then Some p else if p = Live \<or> \<not> opens \<and> p \<noteq> Closed then Some Live else None)"
| "phase_step opens h (CloseEvent h') p =
    (if h' \<noteq> h then Some p else if p = Live \<or> \<not> opens \<and> p \<noteq> Closed then Some Closed else None)"
| "phase_step opens h (ApiEvent _ _) p = Some p"

text \<open>The log has the last event first. \<open>None\<close>: the events are out of order.\<close>

primrec session_phase :: "bool \<Rightarrow> nat \<Rightarrow> server_event list \<Rightarrow> phase option" where
  "session_phase opens h [] = Some Connecting"
| "session_phase opens h (e # es) = Option.bind (session_phase opens h es) (phase_step opens h e)"

definition message_ok :: "server_options \<Rightarrow> bytes \<Rightarrow> message_type \<Rightarrow> bool" where
  "message_ok options payload t \<longleftrightarrow> length payload \<le> websocket_server_max_message_size options
     \<and> (t = Text \<and> utf8_text payload \<or> t = Binary)"

fun event_ok :: "server_options \<Rightarrow> server_event \<Rightarrow> bool" where
  "event_ok options (MessageEvent _ payload t) = message_ok options payload t"
| "event_ok options _ = True"

subsection \<open>Calm moves\<close>

definition read_bound :: "server_options \<Rightarrow> nat" where
  "read_bound options = max WEBSOCKET_HTTP_MAX_REQUEST_SIZE (frame_read_limit options)"

definition buffer_ok :: "nat \<Rightarrow> websocket_connection \<Rightarrow> bool" where
  "buffer_ok n c \<longleftrightarrow> length (c_read_buffer c) \<le> c_read_buffer_capacity c \<and> c_read_buffer_capacity c \<le> n"

definition fragment_ok :: "websocket_connection \<Rightarrow> bool" where
  "fragment_ok c \<longleftrightarrow> (c_fragmented c \<longrightarrow> c_fragmented_opcode c = OPCODE_TEXT \<or> c_fragmented_opcode c = OPCODE_BINARY)"

definition conn_calm :: "nat \<Rightarrow> websocket_connection \<Rightarrow> websocket_connection \<Rightarrow> bool" where
  "conn_calm n c c' \<longleftrightarrow> c_upgraded c' = c_upgraded c \<and> c_close_notified c' = c_close_notified c
     \<and> (c_open c' \<longrightarrow> c_open c) \<and> (c_fd c' = c_fd c \<or> c_fd c' < 0)
     \<and> (buffer_ok n c \<longrightarrow> buffer_ok n c') \<and> (fragment_ok c \<longrightarrow> fragment_ok c') \<and> (queue_ok c \<longrightarrow> queue_ok c')"

definition same_driver :: "'d world \<Rightarrow> 'd world \<Rightarrow> bool" where
  "same_driver w w' \<longleftrightarrow> (w_driver w' = None \<longleftrightarrow> w_driver w = None)"

definition calm :: "'d websocket_server \<Rightarrow> 'd websocket_server \<Rightarrow> bool" where
  "calm s s' \<longleftrightarrow> fixed s' = fixed s \<and> stops_only s s' \<and> same_driver (g_world s) (g_world s')
     \<and> (\<forall>h. conn_calm (read_bound (v_options s)) (conn s h) (conn s' h))
     \<and> (\<exists>es. g_log s' = es @ g_log s \<and> list_all is_api es \<and> (stop_called es \<longrightarrow> g_stopped s'))
     \<and> (g_exception s \<noteq> None \<longrightarrow> g_exception s' \<noteq> None)"

lemma conn_calm_refl [simp]: "conn_calm n c c"
  by (simp add: conn_calm_def)

lemma conn_calm_trans: "conn_calm n c c' \<Longrightarrow> conn_calm n c' c'' \<Longrightarrow> conn_calm n c c''"
  unfolding conn_calm_def by metis

lemma conn_step_calm: "conn_step c c' \<Longrightarrow> conn_calm n c c'"
  unfolding conn_step_def conn_calm_def buffer_ok_def fragment_ok_def same_fragment_def no_fragment_def by metis

lemma calm_refl [simp]: "calm s s"
  by (simp add: calm_def stops_only_def same_driver_def)

lemma calm_trans:
  assumes "calm s s'" "calm s' s''"
  shows "calm s s''"
proof -
  have o: "v_options s' = v_options s" using assms(1) fixedD(1) unfolding calm_def by blast
  have stops: "g_stopped s' \<longrightarrow> g_stopped s''" using assms by (simp add: calm_def stops_only_def)
  have "stops_only s s''" using assms by (auto simp: calm_def stops_only_def)
  moreover have "same_driver (g_world s) (g_world s'')" using assms by (simp add: calm_def same_driver_def)
  moreover have "conn_calm (read_bound (v_options s)) (conn s h) (conn s'' h)" for h
    using assms conn_calm_trans o unfolding calm_def by metis
  moreover obtain es es' where "g_log s' = es @ g_log s" "list_all is_api es" "stop_called es \<longrightarrow> g_stopped s'"
      "g_log s'' = es' @ g_log s'" "list_all is_api es'" "stop_called es' \<longrightarrow> g_stopped s''"
    using assms unfolding calm_def by blast
  then have "\<exists>es. g_log s'' = es @ g_log s \<and> list_all is_api es \<and> (stop_called es \<longrightarrow> g_stopped s'')"
    using stops by (intro exI [of _ "es' @ es"]) auto
  moreover have "g_exception s \<noteq> None \<longrightarrow> g_exception s'' \<noteq> None" "fixed s'' = fixed s"
    using assms by (simp_all add: calm_def)
  ultimately show ?thesis unfolding calm_def by blast
qed

lemma php_step_calm:
  assumes "php_step s s'" "g_exception s \<noteq> None \<longrightarrow> g_exception s' \<noteq> None"
  shows "calm s s'"
proof -
  have "conn_calm n (conn s h) (conn s' h)" for n h using assms(1) conn_step_calm unfolding php_step_def by blast
  moreover have "same_driver (g_world s) (g_world s')" using assms(1) by (simp add: php_step_def same_input_def same_driver_def)
  ultimately show ?thesis using assms unfolding php_step_def calm_def by blast
qed

lemma calm_conn:
  assumes "conn_calm (read_bound (v_options s)) (conn s h) c"
  shows "calm s (put_conn h c s)"
  using assms by (auto simp: calm_def stops_only_def same_driver_def)

lemma calm_update: "(\<And>c. conn_calm (read_bound (v_options s)) c (f c)) \<Longrightarrow> calm s (update_conn f h s)"
  unfolding update_conn_def by (rule calm_conn)

lemma calm_world: "same_driver (g_world s) w \<Longrightarrow> calm s (s\<lparr>g_world := w\<rparr>)"
  by (simp add: calm_def stops_only_def)

lemma calm_throw: "calm s s' \<Longrightarrow> calm s (throw_error e s')"
  by (simp add: calm_def stops_only_def)

lemma calm_close: "calm s (update_conn (\<lambda>c. c\<lparr>c_open := False\<rparr>) h s)"
  by (rule calm_update) (simp add: conn_calm_def buffer_ok_def fragment_ok_def)

subsection \<open>Moves\<close>

definition announce :: "nat \<Rightarrow> 'd websocket_server \<Rightarrow> 'd websocket_server" where
  "announce h s = (if v_on_open s = None then s else log_event (OpenEvent h) s)"

definition upgrade_move :: "nat \<Rightarrow> 'd websocket_server \<Rightarrow> 'd websocket_server \<Rightarrow> bool" where
  "upgrade_move h s s' \<longleftrightarrow> (\<exists>w p n b. same_driver (g_world s) w
     \<and> s' = announce h (update_conn (\<lambda>c. (mark_upgraded p n c)\<lparr>c_defer_close := b\<rparr>) h (s\<lparr>g_world := w\<rparr>)))"

inductive session_move :: "'d websocket_server \<Rightarrow> 'd websocket_server \<Rightarrow> bool" where
  Calm: "calm s s' \<Longrightarrow> session_move s s'"
| Upgrade: "\<lbrakk>g_exception s = None; h < g_next_object s; c_open (conn s h); \<not> c_upgraded (conn s h); v_on_handshake s = None;
     upgrade_move h s s'\<rbrakk>
    \<Longrightarrow> session_move s s'"
| Rejected: "\<lbrakk>g_exception s = None; h < g_next_object s; c_open (conn s h); \<not> c_upgraded (conn s h);
     php_step (log_event (HandshakeEvent h request) s) s1; same_driver (g_world s1) w;
     s' = (update_conn (\<lambda>c. c\<lparr>c_open := False\<rparr>) h s1)\<lparr>g_world := w, g_exception := x\<rparr>\<rbrakk> \<Longrightarrow> session_move s s'"
| Failed: "\<lbrakk>g_exception s = None; h < g_next_object s; c_open (conn s h); \<not> c_upgraded (conn s h);
     php_step (log_event (HandshakeEvent h request) s) s'; g_exception s' \<noteq> None\<rbrakk> \<Longrightarrow> session_move s s'"
| Passed: "\<lbrakk>g_exception s = None; h < g_next_object s; c_open (conn s h); \<not> c_upgraded (conn s h);
     php_step (log_event (HandshakeEvent h request) s) s1; upgrade_move h s1 s'\<rbrakk> \<Longrightarrow> session_move s s'"
| Message: "\<lbrakk>g_exception s = None; h < g_next_object s; c_open (conn s h); c_upgraded (conn s h);
     message_ok (v_options s) payload t\<rbrakk> \<Longrightarrow> session_move s (log_event (MessageEvent h payload t) s)"
| Close: "\<lbrakk>g_exception s = None; h < g_next_object s; \<not> c_open (conn s h); c_upgraded (conn s h); \<not> c_close_notified (conn s h)\<rbrakk>
    \<Longrightarrow> session_move s (log_event (CloseEvent h) (update_conn (\<lambda>c. c\<lparr>c_close_notified := True\<rparr>) h s))"

inductive move :: "'d websocket_server \<Rightarrow> 'd websocket_server \<Rightarrow> bool" where
  Session: "session_move s s' \<Longrightarrow> move s s'"
| Accept: "\<lbrakk>g_exception s = None; added ok s s'\<rbrakk> \<Longrightarrow> move s s'"
| Remove: "\<lbrakk>i < length (v_connections s);
     s' = update_conn (\<lambda>c. c\<lparr>c_open := False\<rparr>) (v_connections s ! i) (s\<lparr>v_connections := remove_at i (v_connections s)\<rparr>)\<rbrakk>
    \<Longrightarrow> move s s'"
| Listener: "move s (s\<lparr>v_listener_fd := fd\<rparr>)"

abbreviation session_moves :: "'d websocket_server \<Rightarrow> 'd websocket_server \<Rightarrow> bool" where
  "session_moves \<equiv> session_move\<^sup>*\<^sup>*"

abbreviation moves :: "'d websocket_server \<Rightarrow> 'd websocket_server \<Rightarrow> bool" where
  "moves \<equiv> move\<^sup>*\<^sup>*"

subsection \<open>The invariant\<close>

definition conn_phase_ok :: "bool \<Rightarrow> bool \<Rightarrow> websocket_connection \<Rightarrow> phase option \<Rightarrow> bool" where
  "conn_phase_ok opens thrown c p \<longleftrightarrow>
     (if c_close_notified c then c_upgraded c \<and> \<not> c_open c \<and> p = Some Closed
      else if c_upgraded c then p = Some Live \<or> \<not> opens \<and> (p = Some Connecting \<or> p = Some Shaken)
      else p = Some Connecting \<or> p = Some Shaken \<and> (\<not> c_open c \<or> thrown))"

definition list_inv :: "'d websocket_server \<Rightarrow> bool" where
  "list_inv s \<longleftrightarrow> distinct (v_connections s) \<and> (\<forall>h\<in>set (v_connections s). h < g_next_object s)
     \<and> length (v_connections s) \<le> v_connection_capacity s
     \<and> length (v_connections s) \<le> websocket_server_max_connections (v_options s)
     \<and> v_reusable_connection s = None \<and> (\<forall>h. c_open (conn s h) \<longrightarrow> h \<in> set (v_connections s))"

definition conns_inv :: "'d websocket_server \<Rightarrow> bool" where
  "conns_inv s \<longleftrightarrow> (\<forall>h. buffer_ok (read_bound (v_options s)) (conn s h) \<and> fragment_ok (conn s h) \<and> queue_ok (conn s h))"

abbreviation server_phase :: "'d websocket_server \<Rightarrow> nat \<Rightarrow> phase option" where
  "server_phase s h \<equiv> session_phase (v_on_open s \<noteq> None) h (g_log s)"

definition phase_inv :: "'d websocket_server \<Rightarrow> bool" where
  "phase_inv s \<longleftrightarrow>
     (\<forall>h. conn_phase_ok (v_on_open s \<noteq> None) (g_exception s \<noteq> None) (conn s h) (server_phase s h))
   \<and> (\<forall>h\<ge>g_next_object s. server_phase s h = Some Connecting)"

definition log_inv :: "'d websocket_server \<Rightarrow> bool" where
  "log_inv s \<longleftrightarrow> list_all (event_ok (v_options s)) (g_log s)"

definition server_inv :: "'d websocket_server \<Rightarrow> bool" where
  "server_inv s \<longleftrightarrow> list_inv s \<and> conns_inv s \<and> phase_inv s \<and> log_inv s"

lemma session_phase_api: "list_all is_api es \<Longrightarrow> session_phase opens h (es @ l) = session_phase opens h l"
proof (induction es)
  case (Cons e es)
  then obtain a r where "e = ApiEvent a r" by (auto simp: is_api_def split: server_event.splits)
  then show ?case using Cons by (cases "session_phase opens h l") auto
qed simp

lemma other_session:
  assumes "h' \<noteq> h"
  shows "session_phase opens h' (OpenEvent h # l) = session_phase opens h' l"
    "session_phase opens h' (HandshakeEvent h r # l) = session_phase opens h' l"
    "session_phase opens h' (MessageEvent h p t # l) = session_phase opens h' l"
    "session_phase opens h' (CloseEvent h # l) = session_phase opens h' l"
  using assms by (cases "session_phase opens h' l"; auto)+

lemma event_ok_api: "list_all is_api es \<Longrightarrow> list_all (event_ok options) es"
proof (induction es)
  case (Cons e es)
  then show ?case by (cases e) (simp_all add: is_api_def)
qed simp

lemma phase_ok_mono:
  assumes "conn_phase_ok opens e c p" "c_close_notified c' = c_close_notified c" "c_upgraded c' = c_upgraded c"
    "c_open c' \<longrightarrow> c_open c" "e \<longrightarrow> e'"
  shows "conn_phase_ok opens e' c' p"
  using assms unfolding conn_phase_ok_def by (auto split: if_splits)

lemma calmD:
  assumes "calm s s'"
  shows "fixed s' = fixed s" "same_driver (g_world s) (g_world s')"
    "conn_calm (read_bound (v_options s)) (conn s h) (conn s' h)"
    "session_phase opens h (g_log s') = session_phase opens h (g_log s)"
    "list_all (event_ok options) (g_log s') = list_all (event_ok options) (g_log s)"
    "g_exception s \<noteq> None \<longrightarrow> g_exception s' \<noteq> None"
proof -
  obtain es where es: "g_log s' = es @ g_log s" "list_all is_api es" using assms unfolding calm_def by blast
  show "session_phase opens h (g_log s') = session_phase opens h (g_log s)" by (simp add: es session_phase_api)
  show "list_all (event_ok options) (g_log s') = list_all (event_ok options) (g_log s)"
    using event_ok_api [OF es(2)] by (simp add: es)
qed (use assms in \<open>unfold calm_def, blast+\<close>)

lemma calm_inv:
  assumes "calm s s'"
  shows "list_inv s \<Longrightarrow> list_inv s'" "conns_inv s \<Longrightarrow> conns_inv s'" "phase_inv s \<Longrightarrow> phase_inv s'" "log_inv s \<Longrightarrow> log_inv s'"
proof -
  note f = fixedD [OF calmD(1) [OF assms]]
  have c: "conn_calm (read_bound (v_options s)) (conn s h) (conn s' h)" for h by (rule calmD(3) [OF assms])
  show "list_inv s'" if "list_inv s"
    using that c unfolding list_inv_def f conn_calm_def by blast
  show "conns_inv s'" if "conns_inv s"
    using that c unfolding conns_inv_def f conn_calm_def by blast
  show "log_inv s'" if "log_inv s"
    using that unfolding log_inv_def f calmD(5) [OF assms] .
  show "phase_inv s'" if "phase_inv s"
  proof -
    have "conn_phase_ok (v_on_open s \<noteq> None) (g_exception s' \<noteq> None) (conn s' h) (server_phase s h)" for h
    proof (rule phase_ok_mono)
      show "conn_phase_ok (v_on_open s \<noteq> None) (g_exception s \<noteq> None) (conn s h) (server_phase s h)"
        using that unfolding phase_inv_def by blast
    qed (use c [of h] calmD(6) [OF assms] in \<open>unfold conn_calm_def, blast+\<close>)
    then show ?thesis using that unfolding phase_inv_def f calmD(4) [OF assms] by blast
  qed
qed

lemma calm_server_inv: "calm s s' \<Longrightarrow> server_inv s \<Longrightarrow> server_inv s'"
  unfolding server_inv_def using calm_inv by blast

lemma list_inv_step:
  assumes "list_inv s" "fixed s' = fixed s" "\<And>h. c_open (conn s' h) \<Longrightarrow> c_open (conn s h)"
  shows "list_inv s'"
  using assms(1,3) unfolding list_inv_def fixedD [OF assms(2)] by blast

lemma conns_inv_step:
  assumes "conns_inv s" "fixed s' = fixed s"
    "\<And>h. conn s' h = conn s h \<or> (c_read_buffer_capacity (conn s' h) = c_read_buffer_capacity (conn s h)
       \<and> length (c_read_buffer (conn s' h)) \<le> length (c_read_buffer (conn s h)) \<and> same_fragment (conn s h) (conn s' h)
       \<and> (queue_ok (conn s h) \<longrightarrow> queue_ok (conn s' h)))"
  shows "conns_inv s'"
  unfolding conns_inv_def fixedD [OF assms(2)]
proof
  fix h
  show "buffer_ok (read_bound (v_options s)) (conn s' h) \<and> fragment_ok (conn s' h) \<and> queue_ok (conn s' h)"
    using assms(1) assms(3) [of h]
    by (auto simp: conns_inv_def buffer_ok_def fragment_ok_def same_fragment_def intro: order_trans)
qed

lemma phase_inv_step:
  assumes "phase_inv s" "h < g_next_object s" "fixed s' = fixed s"
    "\<And>h'. h' \<noteq> h \<Longrightarrow> server_phase s h' = session_phase (v_on_open s \<noteq> None) h' (g_log s')"
    "\<And>h'. h' \<noteq> h \<Longrightarrow> c_close_notified (conn s' h') = c_close_notified (conn s h') \<and>
       c_upgraded (conn s' h') = c_upgraded (conn s h') \<and> (c_open (conn s' h') \<longrightarrow> c_open (conn s h'))"
    "g_exception s \<noteq> None \<longrightarrow> g_exception s' \<noteq> None"
    "conn_phase_ok (v_on_open s \<noteq> None) (g_exception s' \<noteq> None) (conn s' h) (session_phase (v_on_open s \<noteq> None) h (g_log s'))"
  shows "phase_inv s'"
proof -
  have "conn_phase_ok (v_on_open s \<noteq> None) (g_exception s' \<noteq> None) (conn s' h') (session_phase (v_on_open s \<noteq> None) h' (g_log s'))" for h'
  proof (cases "h' = h")
    case False
    have "conn_phase_ok (v_on_open s \<noteq> None) (g_exception s \<noteq> None) (conn s h') (server_phase s h')"
      using assms(1) unfolding phase_inv_def by blast
    then show ?thesis using assms(4-6) False by (auto intro: phase_ok_mono)
  qed (use assms(7) in simp)
  moreover have "session_phase (v_on_open s \<noteq> None) h' (g_log s') = Some Connecting" if "g_next_object s \<le> h'" for h'
    using assms(1,2) assms(4) [of h'] that unfolding phase_inv_def by (metis not_less)
  ultimately show ?thesis unfolding phase_inv_def fixedD [OF assms(3)] by blast
qed

lemma not_upgraded_phase:
  assumes "phase_inv s" "\<not> c_upgraded (conn s h)"
  shows "\<not> c_close_notified (conn s h)"
    "server_phase s h = Some Connecting \<or> server_phase s h = Some Shaken"
    "c_open (conn s h) \<Longrightarrow> g_exception s = None \<Longrightarrow> server_phase s h = Some Connecting"
proof -
  have "conn_phase_ok (v_on_open s \<noteq> None) (g_exception s \<noteq> None) (conn s h) (server_phase s h)"
    using assms(1) unfolding phase_inv_def by blast
  then show "\<not> c_close_notified (conn s h)"
    "server_phase s h = Some Connecting \<or> server_phase s h = Some Shaken"
    "c_open (conn s h) \<Longrightarrow> g_exception s = None \<Longrightarrow> server_phase s h = Some Connecting"
    using assms(2) by (auto simp: conn_phase_ok_def split: if_splits)
qed

lemma upgrade_moveD:
  assumes "upgrade_move h s s'"
  obtains c where "conn s' = (conn s)(h := c)" "fixed s' = fixed s" "g_exception s' = g_exception s"
    "g_log s' = (if v_on_open s = None then g_log s else OpenEvent h # g_log s)"
    "c_upgraded c" "c_close_notified c = c_close_notified (conn s h)" "c_open c = c_open (conn s h)" "c_fd c = c_fd (conn s h)"
    "c_read_buffer_capacity c = c_read_buffer_capacity (conn s h)"
    "length (c_read_buffer c) \<le> length (c_read_buffer (conn s h))" "same_fragment (conn s h) c"
    "queue_ok (conn s h) \<longrightarrow> queue_ok c" "same_driver (g_world s) (g_world s')" "g_stopped s' = g_stopped s" "v_running s' = v_running s"
proof -
  obtain w p n b where w: "same_driver (g_world s) w"
    and s': "s' = announce h (update_conn (\<lambda>c. (mark_upgraded p n c)\<lparr>c_defer_close := b\<rparr>) h (s\<lparr>g_world := w\<rparr>))"
    using assms unfolding upgrade_move_def by blast
  let ?c = "(mark_upgraded p n (conn s h))\<lparr>c_defer_close := b\<rparr>"
  have q: "queue_ok (conn s h) \<longrightarrow> queue_ok ?c"
    by (auto simp: mark_upgraded_def websocket_connection_discard_read_bytes_def queue_ok_def pending_def split: list.splits)
  have a: "v_on_open (update_conn f h t) = v_on_open t" for f t by (simp add: update_conn_def put_conn_def)
  show thesis
    by (rule that [of ?c]) (use w q in \<open>simp_all add: s' announce_def a same_fragment_def mark_upgraded_def websocket_connection_discard_read_bytes_def\<close>)
qed

text \<open>An upgrade of a connection that is connecting or shaken; \<open>s\<close> is the state before the handshake.\<close>

lemma upgrade_inv:
  assumes "upgrade_move h s1 s'" "list_inv s1" "conns_inv s1" "log_inv s1" "fixed s1 = fixed s"
    "phase_inv s" "h < g_next_object s" "\<not> c_upgraded (conn s h)" "g_exception s \<noteq> None \<longrightarrow> g_exception s1 \<noteq> None"
    "server_phase s1 h = Some Connecting \<or> server_phase s1 h = Some Shaken"
    "\<And>h'. h' \<noteq> h \<Longrightarrow> server_phase s1 h' = server_phase s h'"
    "\<And>h'. c_close_notified (conn s1 h') = c_close_notified (conn s h') \<and>
       c_upgraded (conn s1 h') = c_upgraded (conn s h') \<and> (c_open (conn s1 h') \<longrightarrow> c_open (conn s h'))"
  shows "server_inv s'"
proof -
  obtain c where u: "conn s' = (conn s1)(h := c)" "fixed s' = fixed s1" "g_exception s' = g_exception s1"
    "g_log s' = (if v_on_open s1 = None then g_log s1 else OpenEvent h # g_log s1)"
    "c_upgraded c" "c_close_notified c = c_close_notified (conn s1 h)" "c_open c = c_open (conn s1 h)" "c_fd c = c_fd (conn s1 h)"
    "c_read_buffer_capacity c = c_read_buffer_capacity (conn s1 h)"
    "length (c_read_buffer c) \<le> length (c_read_buffer (conn s1 h))" "same_fragment (conn s1 h) c"
    "queue_ok (conn s1 h) \<longrightarrow> queue_ok c"
    by (rule upgrade_moveD [OF assms(1)])
  have f: "fixed s' = fixed s" using u(2) assms(5) by simp
  have o: "v_on_open s1 = v_on_open s" by (rule fixedD(3) [OF assms(5)])
  have n: "\<not> c_close_notified (conn s h)" by (rule not_upgraded_phase(1) [OF assms(6,8)])
  have "list_inv s'" by (rule list_inv_step [OF assms(2) u(2)]) (auto simp: u(1,7) split: if_splits)
  moreover have "conns_inv s'" by (rule conns_inv_step [OF assms(3) u(2)]) (use u(9-12) in \<open>simp add: u(1)\<close>)
  moreover have "phase_inv s'"
  proof (rule phase_inv_step [OF assms(6,7) f])
    show "conn_phase_ok (v_on_open s \<noteq> None) (g_exception s' \<noteq> None) (conn s' h) (session_phase (v_on_open s \<noteq> None) h (g_log s'))"
      using assms(10) assms(12) [of h] n by (auto simp: u(1,4,5,6) o conn_phase_ok_def)
    show "server_phase s h' = session_phase (v_on_open s \<noteq> None) h' (g_log s')" if "h' \<noteq> h" for h'
      using that assms(11) [OF that] by (cases "v_on_open s") (simp_all add: u(4) o other_session del: session_phase.simps)
  qed (use u assms(9,12) in simp_all)
  moreover have "log_inv s'" using assms(4) unfolding log_inv_def fixedD [OF u(2)] by (simp add: u(4))
  ultimately show ?thesis by (simp add: server_inv_def)
qed

text \<open>The handshake handler has run: the session is shaken, and nothing else has changed that the
  invariant speaks of.\<close>

lemma shaken:
  assumes "server_inv s" "g_exception s = None" "h < g_next_object s" "c_open (conn s h)" "\<not> c_upgraded (conn s h)"
    "php_step (log_event (HandshakeEvent h request) s) s1"
  shows "list_inv s1" "conns_inv s1" "log_inv s1" "fixed s1 = fixed s"
    "server_phase s1 h = Some Shaken" "h' \<noteq> h \<Longrightarrow> server_phase s1 h' = server_phase s h'"
    "conn_calm (read_bound (v_options s)) (conn s h') (conn s1 h')" "same_driver (g_world s) (g_world s1)"
proof -
  let ?s = "log_event (HandshakeEvent h request) s"
  have c: "calm ?s s1" using php_step_calm [OF assms(6)] assms(2) by simp
  have inv: "list_inv s" "conns_inv s" "phase_inv s" "log_inv s" using assms(1) by (simp_all add: server_inv_def)
  have "list_inv ?s" using inv(1) by (rule list_inv_step) simp_all
  moreover have "conns_inv ?s" using inv(2) by (rule conns_inv_step) simp_all
  moreover have "log_inv ?s" using inv(4) by (simp add: log_inv_def)
  ultimately show "list_inv s1" "conns_inv s1" "log_inv s1" using calm_inv [OF c] by blast+
  show f: "fixed s1 = fixed s" using calmD(1) [OF c] by simp
  have o: "v_on_open ?s = v_on_open s" by (simp add: log_event_def)
  note p = calmD(4) [OF c] fixedD(3) [OF f]
  have "server_phase s h = Some Connecting" using not_upgraded_phase(3) [OF inv(3) assms(5,4,2)] .
  then show "server_phase s1 h = Some Shaken" by (simp add: p)
  show "server_phase s1 h' = server_phase s h'" if "h' \<noteq> h"
    using that by (simp add: p other_session del: session_phase.simps)
  show "conn_calm (read_bound (v_options s)) (conn s h') (conn s1 h')" using calmD(3) [OF c, of h'] by simp
  show "same_driver (g_world s) (g_world s1)" using calmD(2) [OF c] by simp
qed

lemma shaken_inv:
  assumes "server_inv s" "g_exception s = None" "h < g_next_object s" "c_open (conn s h)" "\<not> c_upgraded (conn s h)"
    "php_step (log_event (HandshakeEvent h request) s) s1" "fixed s' = fixed s1" "g_log s' = g_log s1"
    "conn s' = (conn s1)(h := c)" "c = conn s1 h \<and> g_exception s' \<noteq> None \<or> c = (conn s1 h)\<lparr>c_open := False\<rparr>"
  shows "server_inv s'"
proof -
  note sh = shaken [OF assms(1-6)]
  have q: "c_open c \<longrightarrow> c_open (conn s1 h)" "c_upgraded c = c_upgraded (conn s1 h)" "c_close_notified c = c_close_notified (conn s1 h)"
    using assms(10) by auto
  have "phase_inv s" using assms(1) by (simp add: server_inv_def)
  have f: "fixed s' = fixed s" using assms(7) sh(4) by simp
  have o: "v_on_open s1 = v_on_open s" by (rule fixedD(3) [OF sh(4)])
  have cc: "conn_calm (read_bound (v_options s)) (conn s h') (conn s1 h')" for h' by (rule sh(7))
  have "list_inv s'" by (rule list_inv_step [OF sh(1) assms(7)]) (use q in \<open>auto simp: assms(9) split: if_splits\<close>)
  moreover have "conns_inv s'"
    by (rule conns_inv_step [OF sh(2) assms(7)]) (use assms(10) in \<open>auto simp: assms(9) same_fragment_def\<close>)
  moreover have "log_inv s'" using sh(3) unfolding log_inv_def fixedD [OF assms(7)] by (simp add: assms(8))
  moreover have "phase_inv s'"
  proof (rule phase_inv_step [OF \<open>phase_inv s\<close> assms(3) f])
    fix h' assume n: "h' \<noteq> h"
    show "server_phase s h' = session_phase (v_on_open s \<noteq> None) h' (g_log s')"
      using sh(6) [OF n] by (simp add: assms(8) o)
    show "c_close_notified (conn s' h') = c_close_notified (conn s h') \<and>
       c_upgraded (conn s' h') = c_upgraded (conn s h') \<and> (c_open (conn s' h') \<longrightarrow> c_open (conn s h'))"
      using cc [of h'] n by (simp add: assms(9) conn_calm_def)
  next
    have "\<not> c_upgraded c" "\<not> c_close_notified c"
      using cc [of h] assms(5) not_upgraded_phase(1) [OF \<open>phase_inv s\<close> assms(5)] q by (simp_all add: conn_calm_def)
    then show "conn_phase_ok (v_on_open s \<noteq> None) (g_exception s' \<noteq> None) (conn s' h) (session_phase (v_on_open s \<noteq> None) h (g_log s'))"
      using sh(5) assms(10) by (auto simp: assms(8,9) o conn_phase_ok_def)
  qed (use assms(2) in simp)
  ultimately show ?thesis by (simp add: server_inv_def)
qed

lemma added_inv:
  assumes "added ok s s'" "server_inv s" "g_exception s = None"
  shows "server_inv s'"
proof -
  let ?n = "g_next_object s"
  obtain c w i k x where s': "s' = s\<lparr>g_objects := (conn s)(?n := c), g_next_object := Suc ?n,
       g_next_connection_id := i, g_world := w, v_connection_capacity := k, g_exception := x,
       v_connections := (if ok then v_connections s @ [?n] else v_connections s)\<rparr>"
    and l: "length (v_connections s) < websocket_server_max_connections (v_options s)"
    and c: "new_connection c" "if ok then c_open c \<and> x = g_exception s else \<not> c_open c \<and> c_fd c < 0 \<and> x \<noteq> None"
    and k: "k = (if length (v_connections s) < v_connection_capacity s then v_connection_capacity s
            else if v_connection_capacity s = 0 then 8 else 2 * v_connection_capacity s)"
    using assms(1) unfolding added_def by blast
  have inv: "list_inv s" "conns_inv s" "phase_inv s" "log_inv s" using assms(2) by (simp_all add: server_inv_def)
  have k': "length (v_connections s) \<le> v_connection_capacity s" using inv(1) by (simp add: list_inv_def)
  have cap: "length (v_connections s) < k" using k k' by (auto split: if_splits)
  have o: "conn s' h = (if h = ?n then c else conn s h)" for h by (simp add: s')
  have "list_inv s'"
  proof -
    have "\<forall>h\<in>set (v_connections s). h < ?n" "distinct (v_connections s)" using inv(1) by (simp_all add: list_inv_def)
    then have "distinct (v_connections s')" "\<forall>h\<in>set (v_connections s'). h < Suc ?n" by (auto simp: s')
    moreover have "length (v_connections s') \<le> k" "length (v_connections s') \<le> websocket_server_max_connections (v_options s)"
      using cap l by (simp_all add: s')
    moreover have "c_open (conn s' h) \<longrightarrow> h \<in> set (v_connections s')" for h
      using inv(1) c(2) by (auto simp: s' list_inv_def split: if_splits)
    ultimately show ?thesis using inv(1) by (simp add: list_inv_def s')
  qed
  moreover have "conns_inv s'"
    using inv(2) c(1) by (simp add: conns_inv_def s' new_connection_def buffer_ok_def fragment_ok_def queue_ok_empty)
  moreover have "phase_inv s'"
  proof -
    have p: "server_phase s' h = server_phase s h" for h by (simp add: s')
    have "conn_phase_ok (v_on_open s \<noteq> None) (x \<noteq> None) (conn s' h) (server_phase s h)" for h
    proof (cases "h = ?n")
      case True
      then have "server_phase s h = Some Connecting" using inv(3) by (simp add: phase_inv_def)
      then show ?thesis using c(1) True by (simp add: o conn_phase_ok_def new_connection_def)
    next
      case False
      have "conn_phase_ok (v_on_open s \<noteq> None) (g_exception s \<noteq> None) (conn s h) (server_phase s h)"
        using inv(3) unfolding phase_inv_def by blast
      then show ?thesis using False assms(3) by (auto simp: o intro: phase_ok_mono)
    qed
    moreover have "server_phase s h = Some Connecting" if "Suc ?n \<le> h" for h using inv(3) that by (simp add: phase_inv_def)
    ultimately show ?thesis by (simp add: phase_inv_def p) (simp add: s')
  qed
  moreover have "log_inv s'" using inv(4) by (simp add: log_inv_def s')
  ultimately show ?thesis by (simp add: server_inv_def)
qed

lemma remove_inv:
  assumes "server_inv s" "i < length (v_connections s)"
    "s' = update_conn (\<lambda>c. c\<lparr>c_open := False\<rparr>) (v_connections s ! i) (s\<lparr>v_connections := remove_at i (v_connections s)\<rparr>)"
  shows "server_inv s'"
proof -
  let ?h = "v_connections s ! i"
  have inv: "list_inv s" "conns_inv s" "phase_inv s" "log_inv s" using assms(1) by (simp_all add: server_inv_def)
  have s': "s' = s\<lparr>v_connections := remove_at i (v_connections s), g_objects := (conn s)(?h := (conn s ?h)\<lparr>c_open := False\<rparr>)\<rparr>"
    by (simp add: assms(3) update_conn_def put_conn_def)
  have r: "v_connections s' = take i (v_connections s) @ drop (Suc i) (v_connections s)" by (simp add: s' remove_at_eq assms(2))
  have v: "v_connections s = take i (v_connections s) @ ?h # drop (Suc i) (v_connections s)" using assms(2) by (rule id_take_nth_drop)
  have "list_inv s'"
  proof -
    have "distinct (v_connections s')" using inv(1) v r unfolding list_inv_def by (metis distinct_append distinct.simps(2) disjoint_insert(1) list.set(2))
    moreover have "set (v_connections s) = insert ?h (set (v_connections s'))" using v r by (metis Un_insert_right list.set(2) set_append)
    moreover have "length (v_connections s') < length (v_connections s)" using r assms(2) by simp
    ultimately show ?thesis using inv(1) by (auto simp: list_inv_def s')
  qed
  moreover have "conns_inv s'" using inv(2) by (simp add: conns_inv_def s' buffer_ok_def fragment_ok_def)
  moreover have "phase_inv s'"
    using inv(3) by (auto simp: phase_inv_def s' intro: phase_ok_mono)
  moreover have "log_inv s'" using inv(4) by (simp add: log_inv_def s')
  ultimately show ?thesis by (simp add: server_inv_def)
qed

lemma message_phase:
  assumes "server_inv s" "h < g_next_object s" "c_open (conn s h)" "c_upgraded (conn s h)" "message_ok (v_options s) payload t"
  shows "server_inv (log_event (MessageEvent h payload t) s)"
proof -
  let ?s = "log_event (MessageEvent h payload t) s"
  have inv: "list_inv s" "conns_inv s" "phase_inv s" "log_inv s" using assms(1) by (simp_all add: server_inv_def)
  have c: "conn_phase_ok (v_on_open s \<noteq> None) (g_exception s \<noteq> None) (conn s h) (server_phase s h)"
    using inv(3) unfolding phase_inv_def by blast
  have "list_inv ?s" using inv(1) by (rule list_inv_step) simp_all
  moreover have "conns_inv ?s" using inv(2) by (rule conns_inv_step) simp_all
  moreover have "log_inv ?s" using inv(4) assms(5) by (simp add: log_inv_def)
  moreover have "phase_inv ?s"
    using inv(3) assms(2)
  proof (rule phase_inv_step)
    show "conn_phase_ok (v_on_open s \<noteq> None) (g_exception ?s \<noteq> None) (conn ?s h) (session_phase (v_on_open s \<noteq> None) h (g_log ?s))"
      using c assms(3,4) by (auto simp: conn_phase_ok_def split: if_splits)
  qed (simp_all add: other_session del: session_phase.simps)
  ultimately show ?thesis by (simp add: server_inv_def)
qed

lemma close_phase:
  assumes "server_inv s" "h < g_next_object s" "\<not> c_open (conn s h)" "c_upgraded (conn s h)" "\<not> c_close_notified (conn s h)"
  shows "server_inv (log_event (CloseEvent h) (update_conn (\<lambda>c. c\<lparr>c_close_notified := True\<rparr>) h s))" (is "server_inv ?s")
proof -
  have inv: "list_inv s" "conns_inv s" "phase_inv s" "log_inv s" using assms(1) by (simp_all add: server_inv_def)
  have c: "conn_phase_ok (v_on_open s \<noteq> None) (g_exception s \<noteq> None) (conn s h) (server_phase s h)"
    using inv(3) unfolding phase_inv_def by blast
  have "list_inv ?s" using inv(1) by (rule list_inv_step) (simp_all split: if_splits)
  moreover have "conns_inv ?s" using inv(2) by (rule conns_inv_step) (simp_all add: same_fragment_def)
  moreover have "log_inv ?s" using inv(4) by (simp add: log_inv_def fixed_sub)
  moreover have "phase_inv ?s"
    using inv(3) assms(2)
  proof (rule phase_inv_step)
    show "conn_phase_ok (v_on_open s \<noteq> None) (g_exception ?s \<noteq> None) (conn ?s h) (session_phase (v_on_open s \<noteq> None) h (g_log ?s))"
      using c assms(3-5) by (auto simp: conn_phase_ok_def)
  qed (simp_all add: other_session del: session_phase.simps)
  ultimately show ?thesis by (simp add: server_inv_def)
qed

lemma session_move_inv: "session_move s s' \<Longrightarrow> server_inv s \<Longrightarrow> server_inv s'"
proof (induction rule: session_move.induct)
  case (Calm s s')
  then show ?case by (blast intro: calm_server_inv)
next
  case (Upgrade s h s')
  then have inv: "list_inv s" "conns_inv s" "phase_inv s" "log_inv s" by (simp_all add: server_inv_def)
  show ?case using Upgrade(6) inv(1,2,4) refl inv(3) Upgrade(2,4)
    by (rule upgrade_inv) (use not_upgraded_phase [OF inv(3) Upgrade(4)] in simp_all)
next
  case (Rejected s h request s1 w s' x)
  show ?case
    by (rule shaken_inv [OF Rejected(8,1-5), of _ "(conn s1 h)\<lparr>c_open := False\<rparr>"]) (simp_all add: Rejected(7) update_conn_def put_conn_def)
next
  case (Failed s h request s')
  show ?case by (rule shaken_inv [OF Failed(7,1-5), of _ "conn s' h"]) (use Failed(6) in simp_all)
next
  case (Passed s h request s1 s')
  have ph: "phase_inv s" using Passed(7) by (simp add: server_inv_def)
  note sh = shaken [OF Passed(7,1-5)]
  show ?case using Passed(6) sh(1-4) ph Passed(2,4)
  proof (rule upgrade_inv)
    show "c_close_notified (conn s1 h') = c_close_notified (conn s h') \<and>
       c_upgraded (conn s1 h') = c_upgraded (conn s h') \<and> (c_open (conn s1 h') \<longrightarrow> c_open (conn s h'))" for h'
      using sh(7) [of h'] by (simp add: conn_calm_def)
  qed (use Passed(1) sh(5,6) in simp_all)
next
  case (Message s h payload t)
  then show ?case by (blast intro: message_phase)
next
  case (Close s h)
  then show ?case by (blast intro: close_phase)
qed

lemma move_inv: "move s s' \<Longrightarrow> server_inv s \<Longrightarrow> server_inv s'"
proof (induction rule: move.induct)
  case (Session s s') then show ?case by (blast intro: session_move_inv)
next
  case (Accept s ok s') then show ?case by (blast intro: added_inv)
next
  case (Remove i s s') then show ?case by (blast intro: remove_inv)
next
  case (Listener s fd)
  then show ?case by (simp add: server_inv_def list_inv_def conns_inv_def phase_inv_def log_inv_def)
qed

lemma moves_inv: "moves s s' \<Longrightarrow> server_inv s \<Longrightarrow> server_inv s'"
  by (induction rule: rtranclp_induct) (auto intro: move_inv)

lemma session_moves_inv: "session_moves s s' \<Longrightarrow> server_inv s \<Longrightarrow> server_inv s'"
  by (induction rule: rtranclp_induct) (auto intro: session_move_inv)

lemma session_moves: "session_moves s s' \<Longrightarrow> moves s s'"
  by (induction rule: rtranclp_induct) (auto intro: Session rtranclp.rtrancl_into_rtrancl)

end
