(* ===== verification/Ws_Moves.thy ===== *)
theory Ws_Moves
  imports Ws_Session
begin

text \<open>
  What a move keeps: the set-up and the invariant of the server; and the handling of frames, of
  requests and of the upgrade as sequences of moves.
\<close>

subsection \<open>What the moves of a session leave alone\<close>

definition keeps :: "'d websocket_server \<Rightarrow> 'd websocket_server \<Rightarrow> bool" where
  "keeps s s' \<longleftrightarrow> fixed s' = fixed s \<and> stops_only s s' \<and> same_driver (g_world s) (g_world s')
     \<and> (\<forall>h. (c_open (conn s' h) \<longrightarrow> c_open (conn s h)) \<and> (c_fd (conn s' h) = c_fd (conn s h) \<or> c_fd (conn s' h) < 0))
     \<and> (\<exists>es. g_log s' = es @ g_log s \<and> (stop_called es \<longrightarrow> g_stopped s'))"

lemma keeps_refl [simp]: "keeps s s"
  by (simp add: keeps_def stops_only_def same_driver_def)

lemma keeps_trans:
  assumes "keeps s s'" "keeps s' s''"
  shows "keeps s s''"
proof -
  have stops: "g_stopped s' \<longrightarrow> g_stopped s''" using assms by (simp add: keeps_def stops_only_def)
  have "stops_only s s''" using assms by (auto simp: keeps_def stops_only_def)
  moreover have "same_driver (g_world s) (g_world s'')" "fixed s'' = fixed s" using assms by (simp_all add: keeps_def same_driver_def)
  moreover have "(c_open (conn s'' h) \<longrightarrow> c_open (conn s h)) \<and> (c_fd (conn s'' h) = c_fd (conn s h) \<or> c_fd (conn s'' h) < 0)" for h
    using assms unfolding keeps_def by metis
  moreover obtain es es' where "g_log s' = es @ g_log s" "stop_called es \<longrightarrow> g_stopped s'"
      "g_log s'' = es' @ g_log s'" "stop_called es' \<longrightarrow> g_stopped s''"
    using assms unfolding keeps_def by blast
  then have "\<exists>es. g_log s'' = es @ g_log s \<and> (stop_called es \<longrightarrow> g_stopped s'')"
    using stops by (intro exI [of _ "es' @ es"]) auto
  ultimately show ?thesis unfolding keeps_def by blast
qed

lemma calm_keeps: "calm s s' \<Longrightarrow> keeps s s'"
  unfolding calm_def keeps_def conn_calm_def by blast

lemma log_event_keeps: "\<not> is_api e \<Longrightarrow> keeps s (log_event e s)"
  by (cases e) (auto simp: keeps_def stops_only_def same_driver_def stop_called_def is_api_def)

lemma php_step_keeps: "php_step (log_event e s) s' \<Longrightarrow> \<not> is_api e \<Longrightarrow> keeps s s'"
proof -
  assume a: "php_step (log_event e s) s'" "\<not> is_api e"
  have "keeps (log_event e s) s'" using a(1) unfolding php_step_def keeps_def conn_step_def same_input_def same_driver_def by blast
  then show ?thesis using log_event_keeps [OF a(2)] keeps_trans by blast
qed

lemma upgrade_move_keeps:
  assumes "upgrade_move h s s'"
  shows "keeps s s'"
proof -
  obtain c where u: "conn s' = (conn s)(h := c)" "fixed s' = fixed s"
    "g_log s' = (if v_on_open s = None then g_log s else OpenEvent h # g_log s)"
    "c_open c = c_open (conn s h)" "c_fd c = c_fd (conn s h)" "same_driver (g_world s) (g_world s')"
    "g_stopped s' = g_stopped s" "v_running s' = v_running s"
    by (rule upgrade_moveD [OF assms])
  have "\<exists>es. g_log s' = es @ g_log s \<and> (stop_called es \<longrightarrow> g_stopped s')"
    by (cases "v_on_open s") (auto simp: u(3) stop_called_def)
  then show ?thesis by (auto simp: keeps_def u stops_only_def)
qed

lemma session_move_keeps: "session_move s s' \<Longrightarrow> keeps s s'"
proof (induction rule: session_move.induct)
  case (Calm s s') then show ?case by (rule calm_keeps)
next
  case (Upgrade s h s') then show ?case by (blast intro: upgrade_move_keeps)
next
  case (Rejected s h request s1 w s' x)
  have "keeps s s1" using php_step_keeps [OF Rejected(5)] by (simp add: is_api_def)
  moreover have "keeps s1 s'" using Rejected(6) by (auto simp: Rejected(7) keeps_def stops_only_def)
  ultimately show ?case by (rule keeps_trans)
next
  case (Failed s h request s') then show ?case by (auto intro: php_step_keeps simp: is_api_def)
next
  case (Passed s h request s1 s')
  have "keeps s s1" using php_step_keeps [OF Passed(5)] by (simp add: is_api_def)
  then show ?case using upgrade_move_keeps [OF Passed(6)] keeps_trans by blast
next
  case (Message s h payload t) then show ?case by (intro log_event_keeps) (simp add: is_api_def)
next
  case (Close s h)
  have "keeps s (update_conn (\<lambda>c. c\<lparr>c_close_notified := True\<rparr>) h s)"
    by (auto simp: keeps_def stops_only_def same_driver_def)
  then show ?case using log_event_keeps keeps_trans by (metis is_api_def server_event.simps(29))
qed

lemma session_moves_keeps: "session_moves s s' \<Longrightarrow> keeps s s'"
  by (induction rule: rtranclp_induct) (auto intro: session_move_keeps keeps_trans)

subsection \<open>The operations as moves\<close>

text \<open>An operation that returns \<open>ok\<close>: moves of sessions, and no exception if it returned true.\<close>

abbreviation served :: "bool \<Rightarrow> 'd websocket_server \<Rightarrow> 'd websocket_server \<Rightarrow> bool" where
  "served ok s s' \<equiv> session_moves s s' \<and> (ok \<longrightarrow> g_exception s' = None)"

lemma calm_moves: "calm s s' \<Longrightarrow> session_moves s s'"
  by (blast intro: session_move.Calm)

lemma calm_first: "calm s s1 \<Longrightarrow> session_moves s1 s' \<Longrightarrow> session_moves s s'"
  by (blast intro: session_move.Calm converse_rtranclp_into_rtranclp)

lemma calm_last: "session_moves s s1 \<Longrightarrow> calm s1 s' \<Longrightarrow> session_moves s s'"
  by (blast intro: session_move.Calm rtranclp.rtrancl_into_rtrancl)

lemma with_conn_exception: "with_conn f h s = (r, s') \<Longrightarrow> g_exception s' = g_exception s"
  by (auto simp: with_conn_def split: prod.splits)

lemma with_conn_calm:
  assumes "with_conn f h s = (r, s')" "\<And>c w r c' w'. f c w = (r, c', w') \<Longrightarrow> conn_step c c' \<and> same_input w w'"
  shows "calm s s'" "g_exception s' = g_exception s"
  using php_step_calm [OF with_conn_step [OF assms]] with_conn_exception [OF assms(1)] by simp_all

lemma server_close_calm:
  assumes "server_close E code reason h s = (ok, s')"
  shows "calm s s'" "g_exception s' = g_exception s" "ok"
  using with_conn_calm [OF assms [unfolded server_close_def]] close_with_code_step server_close_step [OF assms] by blast+

lemma close_socket_calm: "calm s (connection_close_socket E h s)" "g_exception (connection_close_socket E h s) = g_exception s"
proof -
  show x: "g_exception (connection_close_socket E h s) = g_exception s"
    by (rule with_conn_exception [OF prod.collapse [symmetric]])
  show "calm s (connection_close_socket E h s)"
    by (rule php_step_calm [OF close_socket_php_step]) (simp add: x)
qed

lemma clear_calm: "calm s (update_conn websocket_server_clear_fragment h s)"
  by (rule calm_update) (simp add: conn_calm_def websocket_server_clear_fragment_def buffer_ok_def fragment_ok_def)

lemma from_opcode: "opcode = OPCODE_TEXT \<Longrightarrow> websocket_protocol_message_type_from_opcode opcode = Some Text"
  "opcode = OPCODE_BINARY \<Longrightarrow> websocket_protocol_message_type_from_opcode opcode = Some Binary"
  by (simp_all add: websocket_protocol_message_type_from_opcode_def)

lemma message_handler_served:
  assumes "websocket_server_call_message_handler E h payload opcode s = (ok, s')" "g_exception s = None"
    "h < g_next_object s" "c_open (conn s h)" "c_upgraded (conn s h)"
    "opcode = OPCODE_TEXT \<and> websocket_protocol_is_valid_utf8 payload \<or> opcode = OPCODE_BINARY"
    "length payload \<le> websocket_server_max_message_size (v_options s)"
  shows "served ok s s'"
proof -
  have "ok \<longrightarrow> g_exception s' = None"
    using assms(1,2) by (auto simp: websocket_server_call_message_handler_def split: option.splits prod.splits if_splits)
  moreover have "session_moves s s'"
  proof -
    consider "s' = s" | t s1 where "websocket_protocol_message_type_from_opcode opcode = Some t"
        "php_step (log_event (MessageEvent h payload t) s) s1" "s' = s1 \<or> (\<exists>e. s' = throw_error e s1)"
      using message_handler_step [OF assms(1)] by blast
    then show ?thesis
    proof cases
      case (2 t s1)
      then have "php_step (log_event (MessageEvent h payload t) s) s'" by auto
      then have c: "calm (log_event (MessageEvent h payload t) s) s'" using assms(2) by (intro php_step_calm) simp_all
      have "t = Text \<and> utf8_text payload \<or> t = Binary"
        using assms(6)
      proof
        assume "opcode = OPCODE_TEXT \<and> websocket_protocol_is_valid_utf8 payload"
        then show ?thesis using from_opcode(1) [of opcode] 2(1) valid_utf8_text [of payload] by simp
      next
        assume "opcode = OPCODE_BINARY"
        then show ?thesis using from_opcode(2) [of opcode] 2(1) by simp
      qed
      then have "message_ok (v_options s) payload t" using assms(7) by (simp add: message_ok_def)
      then have "session_move s (log_event (MessageEvent h payload t) s)"
        using assms(2-5) by (intro session_move.Message)
      then show ?thesis using c calm_last [of s] r_into_rtranclp [of session_move s] by blast
    qed simp
  qed
  ultimately show ?thesis by simp
qed

text \<open>The frames the parser lets through.\<close>

definition frame_ok :: "server_options \<Rightarrow> websocket_server_frame \<Rightarrow> bool" where
  "frame_ok options frame \<longleftrightarrow>
     (sf_opcode frame = OPCODE_TEXT \<or> sf_opcode frame = OPCODE_BINARY \<or> sf_opcode frame = OPCODE_CONTINUATION
       \<longrightarrow> length (case sf_payload frame of Some p \<Rightarrow> p | None \<Rightarrow> []) \<le> websocket_server_max_message_size options)"

lemma append_fragment_facts:
  assumes "websocket_server_append_fragment p n c = (ok, c')"
  shows "c_open c' = c_open c" "c_upgraded c' = c_upgraded c" "c_fragmented c' = c_fragmented c"
    "c_fragmented_opcode c' = c_fragmented_opcode c" "conn_calm m c c'"
    "ok \<Longrightarrow> length (case c_fragmented_payload c' of Some p \<Rightarrow> p | None \<Rightarrow> []) \<le> n"
  using assms by (auto simp: websocket_server_append_fragment_def Let_def conn_calm_def buffer_ok_def fragment_ok_def
      split: if_splits option.splits)

lemma handle_data_frame_served:
  assumes "websocket_server_handle_data_frame E h frame s = (ok, s')" "server_inv s" "g_exception s = None"
    "h < g_next_object s" "c_open (conn s h)" "c_upgraded (conn s h)" "frame_ok (v_options s) frame"
    "sf_opcode frame = OPCODE_TEXT \<or> sf_opcode frame = OPCODE_BINARY \<or> sf_opcode frame = OPCODE_CONTINUATION"
  shows "served ok s s'"
proof -
  let ?max = "websocket_server_max_message_size (v_options s)"
  let ?p = "case sf_payload frame of Some p \<Rightarrow> p | None \<Rightarrow> []"
  let ?clear = "update_conn websocket_server_clear_fragment h"
  have close: "served ok' s s2" if "server_close E code reason h s1 = (ok', s2)" "calm s s1" "g_exception s1 = None" for ok' s1 s2 code reason
    using server_close_calm [OF that(1)] that(2,3) calm_moves calm_trans by metis
  have p: "length ?p \<le> ?max" using assms(7,8) by (simp add: frame_ok_def)
  show ?thesis
  proof (cases "sf_opcode frame = OPCODE_CONTINUATION")
    case True
    note run = assms(1) [unfolded websocket_server_handle_data_frame_def Let_def if_P [OF True]]
    show ?thesis
    proof (cases "c_fragmented (conn s h)")
      case False
      then show ?thesis using run close [of _ _ s] assms(3) by simp
    next
      case fragmented: True
      obtain ok1 c1 where a: "websocket_server_append_fragment ?p ?max (conn s h) = (ok1, c1)" by fastforce
      let ?s1 = "put_conn h c1 s"
      note f = append_fragment_facts [OF a]
      have s1: "calm s ?s1" using f(5) by (rule calm_conn)
      have s1c: "calm s (?clear ?s1)" using s1 clear_calm calm_trans by blast
      have e1: "g_exception ?s1 = None" "g_exception (?clear ?s1) = None" using assms(3) by simp_all
      note run2 = run [unfolded not_not a prod.case]
      show ?thesis
      proof (cases "ok1 \<and> sf_final frame \<and>
          \<not> (c_fragmented_opcode c1 = OPCODE_TEXT \<and> \<not> websocket_protocol_is_valid_utf8 (case c_fragmented_payload c1 of Some p \<Rightarrow> p | None \<Rightarrow> []))")
        case False
        then show ?thesis
          using run2 fragmented close [OF _ s1c e1(2)] calm_moves [OF s1] e1(1) by (auto split: if_splits)
      next
        case True
        let ?m = "case c_fragmented_payload c1 of Some p \<Rightarrow> p | None \<Rightarrow> []"
        obtain ok2 s2 where m: "websocket_server_call_message_handler E h ?m (c_fragmented_opcode c1) ?s1 = (ok2, s2)" by fastforce
        have "fragment_ok (conn s h)" using assms(2) by (simp add: server_inv_def conns_inv_def)
        then have "c_fragmented_opcode c1 = OPCODE_TEXT \<or> c_fragmented_opcode c1 = OPCODE_BINARY"
          using fragmented f(4) by (simp add: fragment_ok_def)
        then have "served ok2 ?s1 s2"
          using True f(1,2,6) assms(3-6) by (intro message_handler_served [OF m]) (auto simp: put_conn_def)
        moreover have "ok = ok2" "s' = ?clear s2" using run2 fragmented True m by (auto split: if_splits)
        ultimately show ?thesis using calm_first [OF s1] calm_last [OF _ clear_calm] by auto
      qed
    qed
  next
    case False
    note run = assms(1) [unfolded websocket_server_handle_data_frame_def Let_def if_not_P [OF False]]
    have opc: "sf_opcode frame = OPCODE_TEXT \<or> sf_opcode frame = OPCODE_BINARY" using assms(8) False by blast
    have st: "calm s (update_conn (\<lambda>c. c\<lparr>c_fragmented := True, c_fragmented_opcode := sf_opcode frame,
        c_fragmented_payload := sf_payload frame\<rparr>) h s)"
      using opc by (intro calm_update) (simp add: conn_calm_def buffer_ok_def fragment_ok_def)
    show ?thesis
    proof (cases "\<not> c_fragmented (conn s h) \<and> sf_final frame \<and> \<not> (sf_opcode frame = OPCODE_TEXT \<and> \<not> websocket_protocol_is_valid_utf8 ?p)")
      case True
      then have "websocket_server_call_message_handler E h ?p (sf_opcode frame) s = (ok, s')" using run by auto
      then show ?thesis using True assms(3-6) p opc by (intro message_handler_served) auto
    next
      case False
      then show ?thesis
        using run close [OF _ clear_calm] close [OF _ calm_refl] calm_moves [OF st] assms(3) by (auto split: if_splits)
    qed
  qed
qed

lemma handle_frame_served:
  assumes "websocket_server_handle_frame E h frame s = (ok, s')" "server_inv s" "g_exception s = None"
    "h < g_next_object s" "c_open (conn s h)" "c_upgraded (conn s h)" "frame_ok (v_options s) frame"
  shows "served ok s s'"
proof -
  let ?p = "case sf_payload frame of Some p \<Rightarrow> p | None \<Rightarrow> []"
  let ?data = "sf_opcode frame = OPCODE_TEXT \<or> sf_opcode frame = OPCODE_BINARY \<or> sf_opcode frame = OPCODE_CONTINUATION"
  let ?clear = "update_conn websocket_server_clear_fragment h"
  have send: "calm s s0" if "with_conn (websocket_connection_send_frame (e_driver E) ?p opcode) h s = (r, s0)" for opcode r s0
    using with_conn_calm(1) [OF that] send_frame_step by blast
  have pong: "calm s (update_conn (\<lambda>c. c\<lparr>c_awaiting_pong := False, c_last_ping_usec := 0\<rparr>) h s)"
    by (rule calm_update) (simp add: conn_calm_def buffer_ok_def fragment_ok_def)
  have after_write: "calm s (snd (with_conn (\<lambda>c w. ((), websocket_connection_close_after_write (e_driver E) c w)) h s0))"
    if "calm s s0" for s0
  proof -
    have "calm s0 (snd (with_conn (\<lambda>c w. ((), websocket_connection_close_after_write (e_driver E) c w)) h s0))"
      by (rule with_conn_calm(1) [OF prod.collapse [symmetric]]) (auto dest: close_after_write_step)
    then show ?thesis using that calm_trans by blast
  qed
  have close: "calm s (connection_close_socket E h s0)" if "calm s s0" for s0
    using that close_socket_calm(1) calm_trans by blast
  have clear: "calm s (?clear s0)" if "calm s s0" for s0 using that clear_calm calm_trans by blast
  have fin: "ok \<longrightarrow> g_exception s' = None"
    using assms(1) unfolding websocket_server_handle_frame_def Let_def by (auto split: prod.splits)
  have "session_moves s s'"
  proof (cases ?data)
    case True
    obtain ok1 where d: "websocket_server_handle_data_frame E h frame s = (ok1, s')"
      using assms(1) True unfolding websocket_server_handle_frame_def Let_def by (auto split: prod.splits)
    show ?thesis using handle_data_frame_served [OF d assms(2-7) True] by blast
  next
    case False
    have "calm s s'"
      using assms(1) False pong unfolding websocket_server_handle_frame_def Let_def
      by (auto split: if_splits prod.splits intro!: after_write close clear dest: send server_close_calm(1))
    then show ?thesis by (rule calm_moves)
  qed
  then show ?thesis using fin by blast
qed

lemma parsed_frame_ok:
  assumes "websocket_server_parse_frame buf (websocket_server_max_message_size options) = (FrameOk, frame)"
  shows "frame_ok options frame"
proof -
  have "client_frame_ok (buf ! 0) (wire_payload buf) (websocket_server_max_message_size options)"
    and f: "frame = \<lparr>sf_opcode = buf ! 0 AND 0x0f, sf_final = bit (buf ! 0) 7,
          sf_bytes_consumed = wire_start buf + wire_length buf, sf_payload = Some (wire_payload buf)\<rparr>"
    using assms by (simp_all add: parse_frame_ok_iff_wire server_verdict_ok_iff)
  then show ?thesis by (auto simp: frame_ok_def client_frame_ok_def f)
qed

lemma discard_calm: "calm s (update_conn (websocket_connection_discard_read_bytes n) h s)"
  by (rule calm_update)
     (auto simp: websocket_connection_discard_read_bytes_def conn_calm_def buffer_ok_def fragment_ok_def queue_ok_def split: list.splits)

lemma keeps_next: "keeps s s' \<Longrightarrow> g_next_object s' = g_next_object s" "keeps s s' \<Longrightarrow> v_options s' = v_options s"
  "keeps s s' \<Longrightarrow> v_connections s' = v_connections s" "keeps s s' \<Longrightarrow> v_on_open s' = v_on_open s"
  "keeps s s' \<Longrightarrow> v_on_handshake s' = v_on_handshake s"
  unfolding keeps_def by (blast dest: fixedD)+

lemma process_buffered_served:
  assumes "websocket_server_process_buffered_frames E h s = (ok, s')" "server_inv s" "g_exception s = None" "h < g_next_object s"
  shows "served ok s s'"
  using assms
proof (induction E h s rule: websocket_server_process_buffered_frames.induct)
  case (1 E h s)
  let ?max = "websocket_server_max_message_size (v_options s)"
  obtain status frame where pf: "websocket_server_parse_frame (c_read_buffer (conn s h)) ?max = (status, frame)"
    by fastforce
  let ?t = "update_conn (websocket_connection_discard_read_bytes (sf_bytes_consumed frame)) h s"
  let ?clr = "update_conn websocket_server_clear_fragment h s"
  obtain ok1 s1 where hf: "websocket_server_handle_frame E h frame ?t = (ok1, s1)" by fastforce
  note run = "1.prems"(1) [unfolded websocket_server_process_buffered_frames.simps [of E h s] Let_def pf prod.case hf]
  have refuse: "served True s (snd (server_close E code reason h ?clr))" for code reason
  proof -
    obtain r s2 where c: "server_close E code reason h ?clr = (r, s2)" by fastforce
    then show ?thesis using server_close_calm(1,2) [OF c] calm_trans [OF clear_calm] calm_moves "1.prems"(3) by (metis conn_update(4) snd_conv)
  qed
  show ?case
  proof (cases "c_open (conn s h) \<and> \<not> c_close_after_write (conn s h) \<and> c_upgraded (conn s h)
      \<and> length (c_read_buffer (conn s h)) > 0 \<and> status = FrameOk")
    case False
    then show ?thesis using run refuse "1.prems"(3) by (auto split: if_splits prod.splits)
  next
    case True
    have t: "calm s ?t" "c_open (conn ?t h)" "c_upgraded (conn ?t h)" "g_exception ?t = None" "v_options ?t = v_options s" "g_next_object ?t = g_next_object s"
      using True "1.prems"(3) by (simp_all add: discard_calm) (simp_all add: websocket_connection_discard_read_bytes_def update_conn_def put_conn_def)
    have "frame_ok (v_options ?t) frame" using parsed_frame_ok True pf t(5) by simp
    then have "served ok1 ?t s1"
      using calm_server_inv [OF t(1) "1.prems"(2)] t "1.prems"(4) by (intro handle_frame_served [OF hf]) simp_all
    then have s1: "served ok1 s s1" using calm_first [OF t(1)] by blast
    show ?thesis
    proof (cases ok1)
      case False
      then show ?thesis using run True s1 by simp
    next
      case True
      then have e: "websocket_server_process_buffered_frames E h s1 = (ok, s')"
        using run \<open>c_open (conn s h) \<and> _\<close> by simp
      have "served ok s1 s'"
        using "1.IH" [OF refl _ pf [symmetric] _ _ hf [symmetric]] \<open>c_open (conn s h) \<and> _\<close> True e s1
          session_moves_inv [of s s1] "1.prems"(2,4) keeps_next(1) [OF session_moves_keeps, of s s1] by simp
      then show ?thesis using s1 by (meson rtranclp_trans)
    qed
  qed
qed

lemma notify_served:
  assumes "websocket_server_notify_connection_closed E h s = (ok, s')" "g_exception s = None" "h < g_next_object s" "\<not> c_open (conn s h)"
  shows "served ok s s'"
proof -
  have x: "ok \<longrightarrow> g_exception s' = None"
    using assms(1,2) by (auto simp: websocket_server_notify_connection_closed_def websocket_server_call_handler_def
        split: if_splits option.splits prod.splits)
  let ?t = "log_event (CloseEvent h) (update_conn (\<lambda>c. c\<lparr>c_close_notified := True\<rparr>) h s)"
  consider "s' = s" | "c_upgraded (conn s h)" "\<not> c_close_notified (conn s h)" "php_step ?t s'"
    using notify_cases [OF assms(1)] by blast
  then have "session_moves s s'"
  proof cases
    case 2
    have "session_move s ?t" using assms(2-4) 2(1,2) by (rule session_move.Close)
    moreover have "calm ?t s'" using 2(3) assms(2) by (intro php_step_calm) simp_all
    ultimately show ?thesis using calm_last [OF r_into_rtranclp] by blast
  qed simp
  then show ?thesis using x by simp
qed

lemma open_handler_cases:
  assumes "websocket_server_call_open_handler E h pass s = ((ok, close_requested), s')"
  shows "if v_on_open s = None then ok \<and> s' = s else php_step (log_event (OpenEvent h) s) s'"
    "g_exception s = None \<Longrightarrow> ok \<Longrightarrow> g_exception s' = None"
  using assms by (auto simp: websocket_server_call_open_handler_def dest!: call_with_conn_step call_user_function_step
      split: if_splits option.splits prod.splits)

lemma calm_defer: "calm s (update_conn (\<lambda>c. c\<lparr>c_defer_close := b\<rparr>) h s)"
  by (rule calm_update) (auto simp: conn_calm_def buffer_ok_def fragment_ok_def queue_ok_def split: list.splits)

lemma upgrade_moveI:
  assumes "same_driver (g_world s) w" "t = update_conn (\<lambda>c. (mark_upgraded p n c)\<lparr>c_defer_close := b\<rparr>) h (s\<lparr>g_world := w\<rparr>)"
  shows "upgrade_move h s (announce h t)"
  unfolding upgrade_move_def
  by (rule exI [of _ w], rule exI [of _ p], rule exI [of _ n], rule exI [of _ b]) (simp only: assms simp_thms)

lemma finish_upgrade_cases:
  assumes "websocket_server_finish_upgrade E h key p n s = (ok, s')" "g_exception s = None"
  shows "(\<exists>w. ok \<and> same_driver (g_world s) w \<and> s' = (update_conn (\<lambda>c. c\<lparr>c_open := False\<rparr>) h s)\<lparr>g_world := w\<rparr>)
    \<or> (\<exists>s1 s2. upgrade_move h s s1 \<and> calm s1 s2 \<and>
        (\<not> ok \<and> s' = s2
         \<or> g_exception s2 = None \<and> (\<not> c_open (conn s2 h) \<and> websocket_server_notify_connection_closed E h s2 = (ok, s')
             \<or> websocket_server_process_buffered_frames E h s2 = (ok, s'))))"
proof -
  let ?needs = "v_on_open s = None \<or> v_on_open_param_count s > 0"
  obtain ok0 w where sb: "websocket_server_send_bytes (c_fd (conn s h)) (websocket_http_upgrade_response key p) 0 (g_world s) = (ok0, w)"
    by fastforce
  have w: "same_driver (g_world s) w" using send_bytes_input [OF sb] by (simp add: same_input_def same_driver_def)
  have ww: "with_world (websocket_server_send_bytes (c_fd (conn s h)) (websocket_http_upgrade_response key p) 0) s = (ok0, s\<lparr>g_world := w\<rparr>)"
    by (simp add: with_world_def sb)
  note run = assms(1) [unfolded websocket_server_finish_upgrade_def Let_def ww prod.case]
  show ?thesis
  proof (cases ok0)
    case False
    then have "ok" "s' = (update_conn (\<lambda>c. c\<lparr>c_open := False\<rparr>) h s)\<lparr>g_world := w\<rparr>"
      using run by (auto simp: update_conn_def put_conn_def)
    then show ?thesis using w by blast
  next
    case True
    define t where "t = update_conn (mark_upgraded p n) h (s\<lparr>g_world := w\<rparr>)"
    obtain ok1 req s1 where oh: "(if ?needs then
                    (case websocket_server_call_open_handler E h True
                            (update_conn (\<lambda>c. c\<lparr>c_defer_close := True\<rparr>) h t) of
                       (r, s) \<Rightarrow> (r, update_conn (\<lambda>c. c\<lparr>c_defer_close := False\<rparr>) h s))
                  else websocket_server_call_open_handler E h False t) = ((ok1, req), s1)"
      by (metis prod_cases3 prod.collapse)
    have tf: "v_on_open t = v_on_open s" "v_on_open_param_count t = v_on_open_param_count s" "g_exception t = None"
      using assms(2) by (simp_all add: t_def update_conn_def put_conn_def)
    have "\<exists>s0. upgrade_move h s s0 \<and> calm s0 s1 \<and> (ok1 \<longrightarrow> g_exception s1 = None)"
    proof (cases ?needs)
      case True
      let ?t = "update_conn (\<lambda>c. c\<lparr>c_defer_close := True\<rparr>) h t"
      obtain s2 where c: "websocket_server_call_open_handler E h True ?t = ((ok1, req), s2)"
        and s1: "s1 = update_conn (\<lambda>c. c\<lparr>c_defer_close := False\<rparr>) h s2"
        using oh True by (auto split: prod.splits)
      have v: "v_on_open ?t = v_on_open s" using tf by (simp add: update_conn_def put_conn_def)
      have tt: "?t = update_conn (\<lambda>c. (mark_upgraded p n c)\<lparr>c_defer_close := True\<rparr>) h (s\<lparr>g_world := w\<rparr>)"
        by (simp add: t_def update_conn_def put_conn_def)
      have u: "upgrade_move h s (announce h ?t)" using w tt by (rule upgrade_moveI)
      have "calm (announce h ?t) s2"
        using open_handler_cases(1) [OF c] tf(3) v by (auto simp: announce_def intro: php_step_calm split: if_splits)
      then have "calm (announce h ?t) s1" using calm_trans [OF _ calm_defer] by (simp add: s1)
      moreover have "ok1 \<longrightarrow> g_exception s1 = None" using open_handler_cases(2) [OF c] tf(3) by (simp add: s1)
      ultimately show ?thesis using u by blast
    next
      case False
      have c: "websocket_server_call_open_handler E h False t = ((ok1, req), s1)" using oh by (simp only: if_not_P [OF False])
      have tt: "t = update_conn (\<lambda>c. (mark_upgraded p n c)\<lparr>c_defer_close := c_defer_close (conn t h)\<rparr>) h (s\<lparr>g_world := w\<rparr>)"
        by (simp add: t_def update_conn_def put_conn_def)
      have u: "upgrade_move h s (announce h t)" using w tt by (rule upgrade_moveI)
      have "calm (announce h t) s1"
        using open_handler_cases(1) [OF c] tf(1,3) False by (auto simp: announce_def intro: php_step_calm split: if_splits)
      then show ?thesis using u open_handler_cases(2) [OF c tf(3)] by blast
    qed
    then obtain s0 where s0: "upgrade_move h s s0" "calm s0 s1" "ok1 \<longrightarrow> g_exception s1 = None" by blast
    let ?o = "update_conn (\<lambda>c. c\<lparr>c_open := False\<rparr>) h s1"
    have o: "calm s0 ?o" using s0(2) calm_close calm_trans by blast
    note run2 = run [unfolded not_not, folded t_def]
    show ?thesis
    proof (cases ok1)
      case False
      then have "\<not> ok \<and> s' = ?o" using run2 \<open>ok0\<close> oh by simp
      then show ?thesis using s0(1) o by blast
    next
      case True
      define s2 where "s2 = (if req then ?o else s1)"
      have s2: "calm s0 s2" "g_exception s2 = None" using s0 o True by (simp_all add: s2_def)
      have "(if \<not> c_open (conn s2 h) then websocket_server_notify_connection_closed E h s2
             else websocket_server_process_buffered_frames E h s2) = (ok, s')"
        using run2 \<open>ok0\<close> oh True by (cases req) (simp_all add: s2_def split: if_splits)
      then show ?thesis using s0(1) s2 by (metis (full_types))
    qed
  qed
qed

lemma with_world_bytes:
  assumes "with_world (websocket_server_send_bytes fd bs 0) s = (r, s')"
  shows "\<exists>w. s' = s\<lparr>g_world := w\<rparr> \<and> same_driver (g_world s) w"
proof -
  obtain ok w where sb: "websocket_server_send_bytes fd bs 0 (g_world s) = (ok, w)" by fastforce
  have "same_driver (g_world s) w" using send_bytes_input [OF sb] by (simp add: same_input_def same_driver_def)
  moreover have "s' = s\<lparr>g_world := w\<rparr>" using assms by (simp add: with_world_def sb)
  ultimately show ?thesis by blast
qed

lemma handshake_exception_cases:
  assumes "websocket_server_handle_handshake_exception h s = (handled, s')"
  shows "if handled then \<exists>w. same_driver (g_world s) w
       \<and> s' = (update_conn (\<lambda>c. c\<lparr>c_open := False\<rparr>) h s)\<lparr>g_world := w, g_exception := None\<rparr> else s' = s"
proof (cases "g_exception s")
  case (Some e)
  show ?thesis
  proof (cases e)
    case (HandshakeException response)
    let ?s = "s\<lparr>g_exception := None\<rparr>"
    obtain r s1 where b: "with_world (case response of
                         Some r \<Rightarrow> websocket_server_send_handshake_response (c_fd (conn ?s h)) r
                       | None \<Rightarrow> websocket_server_send_bytes (c_fd (conn ?s h)) websocket_forbidden_response 0) ?s = (r, s1)"
      by fastforce
    obtain w where w: "s1 = ?s\<lparr>g_world := w\<rparr>" "same_driver (g_world s) w"
      using with_world_bytes [of "c_fd (conn ?s h)" _ ?s r s1] b
      by (auto simp: websocket_server_send_handshake_response_def [abs_def] split: option.splits)
    have "handled" "s' = update_conn (\<lambda>c. c\<lparr>c_open := False\<rparr>) h s1"
      using assms Some HandshakeException b by (simp_all add: websocket_server_handle_handshake_exception_def Let_def)
    then show ?thesis using w by (auto simp: update_conn_def put_conn_def)
  qed (use assms Some in \<open>auto simp: websocket_server_handle_handshake_exception_def\<close>)
qed (use assms in \<open>auto simp: websocket_server_handle_handshake_exception_def\<close>)

lemma handshake_handler_cases:
  assumes "websocket_server_call_handshake_handler E h request s = ((ok, accepted), s')"
    "v_on_handshake s \<noteq> None" "g_exception s = None"
  obtains (rejected) s1 w where "ok" "\<not> accepted" "php_step (log_event (HandshakeEvent h request) s) s1" "same_driver (g_world s1) w"
      "s' = (update_conn (\<lambda>c. c\<lparr>c_open := False\<rparr>) h s1)\<lparr>g_world := w, g_exception := None\<rparr>"
  | (failed) "\<not> ok" "php_step (log_event (HandshakeEvent h request) s) s'" "g_exception s' \<noteq> None"
  | (passed) "ok" "accepted" "php_step (log_event (HandshakeEvent h request) s) s'" "g_exception s' = None"
proof -
  obtain handler where hd: "v_on_handshake s = Some handler" using assms(2) by blast
  obtain out s1 where c: "call_user_function E (handler (g_log s) request) (log_event (HandshakeEvent h request) s) = (out, s1)"
    by fastforce
  note p = call_user_function_step [OF c]
  note run = assms(1) [unfolded websocket_server_call_handshake_handler_def hd option.case c prod.case]
  show thesis
  proof (cases "out \<noteq> CallFailed \<and> g_exception s1 \<noteq> None")
    case True
    obtain handled s2 where hx: "websocket_server_handle_handshake_exception h s1 = (handled, s2)" by fastforce
    note hc = handshake_exception_cases [OF hx]
    show thesis
    proof (cases handled)
      case h: True
      then obtain w where "same_driver (g_world s1) w"
        "s2 = (update_conn (\<lambda>c. c\<lparr>c_open := False\<rparr>) h s1)\<lparr>g_world := w, g_exception := None\<rparr>" using hc by auto
      then show thesis using rejected [OF _ _ p] run True h hx by auto
    next
      case False
      then show thesis using failed p run True hc hx by auto
    qed
  next
    case False
    then show thesis using failed passed p run by (auto split: if_splits)
  qed
qed

lemma finish_rest:
  assumes "session_moves s s2" "server_inv s" "h < g_next_object s"
    "\<not> ok \<and> s' = s2 \<or> g_exception s2 = None \<and> (\<not> c_open (conn s2 h) \<and> websocket_server_notify_connection_closed E h s2 = (ok, s')
             \<or> websocket_server_process_buffered_frames E h s2 = (ok, s'))"
  shows "served ok s s'"
proof -
  have inv: "server_inv s2" by (rule session_moves_inv [OF assms(1,2)])
  have n: "h < g_next_object s2" using assms(3) keeps_next(1) [OF session_moves_keeps [OF assms(1)]] by simp
  consider "\<not> ok" "s' = s2" | "served ok s2 s'"
    using assms(4) notify_served [of E h s2 ok s'] process_buffered_served [of E h s2 ok s'] inv n by blast
  then show ?thesis
  proof cases
    case 2
    then show ?thesis using assms(1) by (meson rtranclp_trans)
  qed (use assms(1) in simp)
qed

lemma first_then: "session_move s s1 \<Longrightarrow> calm s1 s2 \<Longrightarrow> session_moves s s2"
  using calm_last r_into_rtranclp [of session_move s s1] by blast

lemma upgrade_served:
  assumes "websocket_server_call_handshake_handler E h request s = ((ok0, accepted), s1)"
    "(if \<not> ok0 then (Some False, s1) else if \<not> accepted then (Some True, s1)
      else (case websocket_server_finish_upgrade E h key p n s1 of (ok, s) \<Rightarrow> (Some ok, s))) = (r, s')"
    "server_inv s" "g_exception s = None" "h < g_next_object s" "c_open (conn s h)" "\<not> c_upgraded (conn s h)"
  shows "session_moves s s' \<and> (r \<noteq> Some False \<longrightarrow> g_exception s' = None)"
proof (cases "v_on_handshake s")
  case None
  then have h: "ok0" "accepted" "s1 = s" using assms(1) by (simp_all add: websocket_server_call_handshake_handler_def)
  obtain ok s2 where f: "websocket_server_finish_upgrade E h key p n s = (ok, s2)" by fastforce
  have r: "r = Some ok" "s' = s2" using assms(2) h f by simp_all
  consider w where "ok" "same_driver (g_world s) w" "s2 = (update_conn (\<lambda>c. c\<lparr>c_open := False\<rparr>) h s)\<lparr>g_world := w\<rparr>"
    | t t2 where "upgrade_move h s t" "calm t t2"
        "\<not> ok \<and> s2 = t2 \<or> g_exception t2 = None \<and> (\<not> c_open (conn t2 h) \<and> websocket_server_notify_connection_closed E h t2 = (ok, s2)
             \<or> websocket_server_process_buffered_frames E h t2 = (ok, s2))"
    using finish_upgrade_cases [OF f assms(4)] by blast
  then show ?thesis
  proof cases
    case (1 w)
    have "calm s s2" using calm_trans [OF calm_close calm_world] 1(2) by (simp add: 1(3))
    moreover have "g_exception s2 = None" using assms(4) by (simp add: 1(3))
    ultimately show ?thesis using calm_moves r by simp
  next
    case (2 t t2)
    have "session_move s t" using assms(4-7) None 2(1) by (rule session_move.Upgrade)
    then have "session_moves s t2" using 2(2) by (rule first_then)
    then show ?thesis using finish_rest [OF _ assms(3,5) 2(3)] r by auto
  qed
next
  case (Some handler)
  then have "v_on_handshake s \<noteq> None" by simp
  from assms(1) this assms(4) show ?thesis
  proof (cases rule: handshake_handler_cases)
    case (rejected t w)
    have "session_move s s1" using assms(4-7) rejected(3-5) by (rule session_move.Rejected)
    then show ?thesis using assms(2) rejected by auto
  next
    case failed
    have "session_move s s1" using assms(4-7) failed(2,3) by (rule session_move.Failed)
    then show ?thesis using assms(2) failed by auto
  next
    case passed
    obtain ok s2 where f: "websocket_server_finish_upgrade E h key p n s1 = (ok, s2)" by fastforce
    have r: "r = Some ok" "s' = s2" using assms(2) passed f by simp_all
    consider w where "ok" "same_driver (g_world s1) w" "s2 = (update_conn (\<lambda>c. c\<lparr>c_open := False\<rparr>) h s1)\<lparr>g_world := w\<rparr>"
      | t t2 where "upgrade_move h s1 t" "calm t t2"
          "\<not> ok \<and> s2 = t2 \<or> g_exception t2 = None \<and> (\<not> c_open (conn t2 h) \<and> websocket_server_notify_connection_closed E h t2 = (ok, s2)
             \<or> websocket_server_process_buffered_frames E h t2 = (ok, s2))"
      using finish_upgrade_cases [OF f passed(4)] by blast
    then show ?thesis
    proof cases
      case (1 w)
      have "s2 = (update_conn (\<lambda>c. c\<lparr>c_open := False\<rparr>) h s1)\<lparr>g_world := w, g_exception := None\<rparr>"
        using passed(4) by (simp add: 1(3) update_conn_def put_conn_def)
      with assms(4-7) passed(3) 1(2) have "session_move s s2" by (rule session_move.Rejected)
      moreover have "g_exception s2 = None" using passed(4) by (simp add: 1(3))
      ultimately show ?thesis using r by simp
    next
      case (2 t t2)
      have "session_move s t" using assms(4-7) passed(3) 2(1) by (rule session_move.Passed)
      then have "session_moves s t2" using 2(2) by (rule first_then)
      then show ?thesis using finish_rest [OF _ assms(3,5) 2(3)] r by auto
    qed
  qed
qed

end
