(* ===== verification/Ws_Serve.thy ===== *)
theory Ws_Serve
  imports Ws_Moves
begin

text \<open>
  The operations on one connection - reading, the handshake, timeouts, heartbeat and pending
  writes - as sequences of moves.
\<close>

subsection \<open>Reading\<close>

lemma calm_now: "with_world websocket_server_now_usec s = (now, s1) \<Longrightarrow> calm s s1 \<and> (\<exists>w. s1 = s\<lparr>g_world := w\<rparr>)"
  using now_usec_step [of s now s1] calm_world by (auto simp: same_pending_def same_driver_def)

lemma calm_recv: "with_world (sys_recv fd n) s = (r, s1) \<Longrightarrow> calm s s1 \<and> (\<exists>w. s1 = s\<lparr>g_world := w\<rparr>)"
proof -
  assume a: "with_world (sys_recv fd n) s = (r, s1)"
  obtain w where w: "sys_recv fd n (g_world s) = (r, w)" "s1 = s\<lparr>g_world := w\<rparr>"
    using a by (auto simp: with_world_def split: prod.splits)
  have "same_driver (g_world s) w"
    using w(1) by (auto simp: sys_recv_def same_driver_def split: list.splits recv_result.splits)
  then show ?thesis using calm_world w(2) by blast
qed

lemma refuse_request_calm: "calm s (refuse_request E h s)" "g_exception (refuse_request E h s) = g_exception s"
proof -
  obtain r s1 where b: "with_world (websocket_server_send_bytes (c_fd (conn s h)) websocket_bad_request_response 0) s = (r, s1)" by fastforce
  obtain w where w: "s1 = s\<lparr>g_world := w\<rparr>" "same_driver (g_world s) w" using with_world_bytes [OF b] by blast
  have "calm s s1" using w calm_world by blast
  then show "calm s (refuse_request E h s)" using calm_trans [OF _ calm_close] by (simp add: refuse_request_def b)
  show "g_exception (refuse_request E h s) = g_exception s" by (simp add: refuse_request_def b w(1))
qed

text \<open>Room is made, and the chunk is put behind the bytes that are there.\<close>

lemma room_calm:
  assumes "websocket_connection_ensure_read_capacity n limit (c\<lparr>c_last_activity_usec := t\<rparr>) = (ok, c')" "limit \<le> m" "n = length chunk"
  shows "conn_calm m c c'" "ok \<Longrightarrow> conn_calm m c (append_read_bytes chunk c')"
    "c_open c' = c_open c" "c_upgraded c' = c_upgraded c"
proof -
  let ?c = "c\<lparr>c_last_activity_usec := t\<rparr>"
  obtain k where k: "c' = ?c\<lparr>c_read_buffer_capacity := k\<rparr>" using ensure_read_capacity_facts [OF assms(1)] by blast
  have r: "buffer_ok m c \<longrightarrow> length (c_read_buffer c) \<le> k \<and> k \<le> m \<and> (ok \<longrightarrow> length (c_read_buffer c) + n \<le> k)"
  proof
    assume b: "buffer_ok m c"
    then have "length (c_read_buffer ?c) \<le> c_read_buffer_capacity ?c" by (simp add: buffer_ok_def)
    from ensure_read_capacity_room [OF assms(1) this] show "length (c_read_buffer c) \<le> k \<and> k \<le> m \<and> (ok \<longrightarrow> length (c_read_buffer c) + n \<le> k)"
      using b assms(2) by (auto simp: k buffer_ok_def split: if_splits dest!: arg_cong [of _ _ c_read_buffer_capacity])
  qed
  have q: "queue_ok c \<longrightarrow> queue_ok c'" "queue_ok c \<longrightarrow> queue_ok (append_read_bytes chunk c')"
    by (auto simp: k append_read_bytes_def queue_ok_def pending_def split: list.splits)
  show "conn_calm m c c'" "ok \<Longrightarrow> conn_calm m c (append_read_bytes chunk c')"
    using r q assms(3) unfolding conn_calm_def buffer_ok_def by (auto simp: k fragment_ok_def append_read_bytes_def)
  show "c_open c' = c_open c" "c_upgraded c' = c_upgraded c" by (simp_all add: k)
qed

lemma read_request_served:
  assumes "read_request E h chunk s = (r, s')" "server_inv s" "g_exception s = None"
    "h < g_next_object s" "c_open (conn s h)" "\<not> c_upgraded (conn s h)"
  shows "session_moves s s' \<and> (r \<noteq> Some False \<longrightarrow> g_exception s' = None)"
proof -
  obtain now s1 where n: "with_world websocket_server_now_usec s = (now, s1)" by fastforce
  obtain w where s1: "calm s s1" "s1 = s\<lparr>g_world := w\<rparr>" using calm_now [OF n] by blast
  obtain room c where rm: "websocket_connection_ensure_read_capacity (length chunk) WEBSOCKET_HTTP_MAX_REQUEST_SIZE
      ((conn s1 h)\<lparr>c_last_activity_usec := now\<rparr>) = (room, c)" by fastforce
  have "WEBSOCKET_HTTP_MAX_REQUEST_SIZE \<le> read_bound (v_options s1)" by (simp add: read_bound_def)
  note rc = room_calm [OF rm this refl]
  have c1: "calm s (put_conn h c s1)" using s1(1) calm_conn [OF rc(1)] calm_trans by blast
  note run = assms(1) [unfolded read_request_def n prod.case rm]
  show ?thesis
  proof (cases room)
    case False
    then have "r = Some True" "s' = refuse_request E h (put_conn h c s1)" using run by simp_all
    then show ?thesis
      using calm_moves [OF calm_trans [OF c1 refuse_request_calm(1)], of E h] refuse_request_calm(2) [of E h "put_conn h c s1"] assms(3)
      by (simp add: s1(2))
  next
    case True
    define t where "t = put_conn h (append_read_bytes chunk c) s1"
    have t: "calm s t" using s1(1) calm_conn [OF rc(2) [OF True]] calm_trans unfolding t_def by blast
    have tf: "g_exception t = None" "g_next_object t = g_next_object s" "c_open (conn t h)" "\<not> c_upgraded (conn t h)"
      using assms(3,5,6) rc(3,4) by (simp_all add: t_def s1(2) append_read_bytes_def) (simp add: put_conn_def)
    obtain result parsed where ps: "websocket_http_parse_upgrade (e_lib E) (c_read_buffer (conn t h)) (v_subprotocols t)
                        websocket_http_upgrade_init = (result, parsed)" by fastforce
    note run2 = run [unfolded Let_def, folded t_def, unfolded ps prod.case]
    show ?thesis
    proof (cases result)
      case UpgradeIncomplete
      then show ?thesis using run2 True calm_moves [OF t] tf(1) by simp
    next
      case UpgradeInvalid
      then have "r = Some True" "s' = refuse_request E h t" using run2 True by simp_all
      then show ?thesis
        using calm_moves [OF calm_trans [OF t refuse_request_calm(1)], of E h] refuse_request_calm(2) [of E h t] tf(1) by simp
    next
      case UpgradeOk
      obtain ok0 accepted s2 where hh: "websocket_server_call_handshake_handler E h (websocket_server_create_request parsed) t = ((ok0, accepted), s2)"
        by (metis prod_cases3 prod.collapse)
      have "(if \<not> ok0 then (Some False, s2) else if \<not> accepted then (Some True, s2)
      else (case websocket_server_finish_upgrade E h (case up_accept_key parsed of Some k \<Rightarrow> k | None \<Rightarrow> [])
                (up_selected_subprotocol parsed) (up_bytes_consumed parsed) s2 of (ok, s) \<Rightarrow> (Some ok, s))) = (r, s')"
        using run2 True UpgradeOk hh by simp
      from upgrade_served [OF hh this calm_server_inv [OF t assms(2)]] tf assms(4)
      show ?thesis using calm_first [OF t] by auto
    qed
  qed
qed

lemma served_trans:
  assumes "session_moves s s1" "server_inv s" "h < g_next_object s"
    "server_inv s1 \<Longrightarrow> h < g_next_object s1 \<Longrightarrow> served ok s1 s'"
  shows "served ok s s'"
proof -
  have "served ok s1 s'"
    using assms(4) session_moves_inv [OF assms(1,2)] keeps_next(1) [OF session_moves_keeps [OF assms(1)]] assms(3) by simp
  then show ?thesis using assms(1) by (meson rtranclp_trans)
qed

lemma process_handshake_served:
  assumes "websocket_server_process_handshake E h s = (ok, s')" "server_inv s" "g_exception s = None" "h < g_next_object s"
  shows "served ok s s'"
  using assms
proof (induction E h s rule: websocket_server_process_handshake.induct)
  case (1 E h s)
  show ?case
  proof (cases "c_open (conn s h) \<and> \<not> c_upgraded (conn s h)")
    case False
    then show ?thesis using "1.prems" by (auto simp: websocket_server_process_handshake.simps [of E h s])
  next
    case True
    obtain r s1 where rv: "with_world (sys_recv (c_fd (conn s h)) WEBSOCKET_READ_CHUNK_SIZE) s = (r, s1)" by fastforce
    obtain w where s1: "calm s s1" "s1 = s\<lparr>g_world := w\<rparr>" using calm_recv [OF rv] by blast
    have s1f: "g_exception s1 = None" "server_inv s1" "h < g_next_object s1" "c_open (conn s1 h)" "\<not> c_upgraded (conn s1 h)"
      using "1.prems" True calm_server_inv [OF s1(1)] by (simp_all add: s1(2))
    have cl: "calm s (update_conn (\<lambda>c. c\<lparr>c_open := False\<rparr>) h s1)" using s1(1) calm_close calm_trans by blast
    note run = "1.prems"(1) [unfolded websocket_server_process_handshake.simps [of E h s] if_P [OF True] rv prod.case]
    show ?thesis
    proof (cases r)
      case None
      show ?thesis
      proof (cases "w_errno (g_world s1) = EINTR")
        case e: True
        have "served ok s1 s'" using "1.IH"(1) [OF True rv [symmetric] None e] run None e s1f by simp
        then show ?thesis using calm_first [OF s1(1)] by blast
      next
        case False
        then show ?thesis using run None calm_moves [OF cl] calm_moves [OF s1(1)] s1f(1) by (auto split: if_splits)
      qed
    next
      case (Some chunk)
      show ?thesis
      proof (cases "chunk = []")
        case True
        then show ?thesis using run Some calm_moves [OF cl] s1f(1) by auto
      next
        case ne: False
        obtain r2 s2 where rq: "read_request E h chunk s1 = (r2, s2)" by fastforce
        note rs = read_request_served [OF rq s1f(2,1,3,4,5)]
        have m: "session_moves s s2" using rs calm_first [OF s1(1)] by blast
        show ?thesis
        proof (cases r2)
          case n2: None
          have "websocket_server_process_handshake E h s2 = (ok, s')" using run Some ne rq n2 by simp
          with m "1.prems"(2,4) show ?thesis
            using "1.IH"(2) [OF True rv [symmetric] Some ne rq [symmetric] n2] rs n2 by (intro served_trans [OF m]) auto
        next
          case s2: (Some result)
          then show ?thesis using run Some ne rq rs m by auto
        qed
      qed
    qed
  qed
qed

lemma read_frames_served:
  assumes "read_frames E h chunk s = (r, s')" "server_inv s" "g_exception s = None" "h < g_next_object s"
  shows "session_moves s s' \<and> (r \<noteq> Some False \<longrightarrow> g_exception s' = None)"
proof -
  obtain now s1 where n: "with_world websocket_server_now_usec s = (now, s1)" by fastforce
  obtain w where s1: "calm s s1" "s1 = s\<lparr>g_world := w\<rparr>" using calm_now [OF n] by blast
  obtain room c where rm: "websocket_connection_ensure_read_capacity (length chunk) (frame_read_limit (v_options s1))
      ((conn s1 h)\<lparr>c_last_activity_usec := now\<rparr>) = (room, c)" by fastforce
  have "frame_read_limit (v_options s1) \<le> read_bound (v_options s1)" by (simp add: read_bound_def)
  note rc = room_calm [OF rm this refl]
  have c1: "calm s (put_conn h c s1)" using s1(1) calm_conn [OF rc(1)] calm_trans by blast
  note run = assms(1) [unfolded read_frames_def n prod.case rm]
  show ?thesis
  proof (cases room)
    case False
    obtain ok2 s2 where cl: "server_close E CLOSE_MESSAGE_TOO_BIG ''message too big'' h (put_conn h c s1) = (ok2, s2)" by fastforce
    have "r = Some True" "s' = s2" using run False cl by simp_all
    then show ?thesis using calm_moves [OF calm_trans [OF c1 server_close_calm(1) [OF cl]]] server_close_calm(2) [OF cl] assms(3)
      by (simp add: s1(2))
  next
    case True
    let ?t = "put_conn h (append_read_bytes chunk c) s1"
    have t: "calm s ?t" using s1(1) calm_conn [OF rc(2) [OF True]] calm_trans by blast
    have tf: "g_exception ?t = None" "g_next_object ?t = g_next_object s" using assms(3) by (simp_all add: s1(2)) (simp add: put_conn_def)
    obtain ok2 s2 where pb: "websocket_server_process_buffered_frames E h ?t = (ok2, s2)" by fastforce
    have "served ok2 ?t s2" using process_buffered_served [OF pb calm_server_inv [OF t assms(2)] tf(1)] assms(4) tf(2) by simp
    moreover have "s' = s2" "r = (if ok2 then None else Some False)" using run True pb by simp_all
    ultimately show ?thesis using calm_first [OF t] by (auto split: if_splits)
  qed
qed

lemma process_frame_reads_served:
  assumes "websocket_server_process_frame_reads E h s = (ok, s')" "server_inv s" "g_exception s = None" "h < g_next_object s"
  shows "served ok s s'"
  using assms
proof (induction E h s rule: websocket_server_process_frame_reads.induct)
  case (1 E h s)
  show ?case
  proof (cases "c_open (conn s h) \<and> \<not> c_close_after_write (conn s h) \<and> c_upgraded (conn s h)")
    case False
    then show ?thesis using "1.prems" by (auto simp: websocket_server_process_frame_reads.simps [of E h s])
  next
    case True
    obtain r s1 where rv: "with_world (sys_recv (c_fd (conn s h)) WEBSOCKET_READ_CHUNK_SIZE) s = (r, s1)" by fastforce
    obtain w where s1: "calm s s1" "s1 = s\<lparr>g_world := w\<rparr>" using calm_recv [OF rv] by blast
    have s1f: "g_exception s1 = None" "server_inv s1" "h < g_next_object s1"
      using "1.prems" True calm_server_inv [OF s1(1)] by (simp_all add: s1(2))
    have cl: "calm s (update_conn (\<lambda>c. c\<lparr>c_open := False\<rparr>) h s1)" using s1(1) calm_close calm_trans by blast
    note run = "1.prems"(1) [unfolded websocket_server_process_frame_reads.simps [of E h s] if_P [OF True] rv prod.case]
    show ?thesis
    proof (cases r)
      case None
      show ?thesis
      proof (cases "w_errno (g_world s1) = EINTR")
        case e: True
        have "served ok s1 s'" using "1.IH"(1) [OF True rv [symmetric] None e] run None e s1f by simp
        then show ?thesis using calm_first [OF s1(1)] by blast
      next
        case False
        show ?thesis
        proof (cases "w_errno (g_world s1) = EAGAIN \<or> w_errno (g_world s1) = EWOULDBLOCK")
          case True
          then have "served ok s1 s'" using process_buffered_served [OF _ s1f(2,1,3)] run None False by simp
          then show ?thesis using calm_first [OF s1(1)] by blast
        next
          case f: False
          then show ?thesis using run None False calm_moves [OF cl] s1f(1) by auto
        qed
      qed
    next
      case (Some chunk)
      show ?thesis
      proof (cases "chunk = []")
        case True
        then show ?thesis using run Some calm_moves [OF cl] s1f(1) by auto
      next
        case ne: False
        obtain r2 s2 where rq: "read_frames E h chunk s1 = (r2, s2)" by fastforce
        note rs = read_frames_served [OF rq s1f(2,1,3)]
        have m: "session_moves s s2" using rs calm_first [OF s1(1)] by blast
        show ?thesis
        proof (cases r2)
          case n2: None
          have "websocket_server_process_frame_reads E h s2 = (ok, s')" using run Some ne rq n2 by simp
          with m "1.prems"(2,4) show ?thesis
            using "1.IH"(2) [OF True rv [symmetric] Some ne rq [symmetric] n2] rs n2 by (intro served_trans [OF m]) auto
        next
          case s2: (Some result)
          then show ?thesis using run Some ne rq rs m by auto
        qed
      qed
    qed
  qed
qed

subsection \<open>Serving a connection\<close>

lemma same_driver_trans: "same_driver w w' \<Longrightarrow> same_driver w' w'' \<Longrightarrow> same_driver w w''"
  by (simp add: same_driver_def)

lemma flush_calm:
  assumes "websocket_connection_flush D c w = (ok, c', w')" "queue_ok c"
  shows "conn_calm n c c' \<and> same_driver w w'"
proof (cases "\<not> c_open c \<or> c_fd c < 0")
  case True
  then show ?thesis using assms(1) by (simp add: websocket_connection_flush_def same_driver_def)
next
  case g: False
  obtain r c1 w1 where q: "flush_queue (c_write_queue c) c w = (r, c1, w1)" by (metis prod_cases3)
  note f = flush_queue [OF q assms(2)]
  obtain bs where bs: "sent_on (c_fd c) bs w w1" using f by blast
  have "conn_step c c1" using f g by (intro conn_step_queue) auto
  then have c1: "conn_calm n c c1" by (rule conn_step_calm)
  have w1: "same_driver w w1" using sent_onD(2) [OF bs] by (simp add: same_driver_def)
  have watched: "conn_calm n c1 (c1\<lparr>c_write_watched := False\<rparr>)"
    by (auto simp: conn_calm_def buffer_ok_def fragment_ok_def queue_ok_def split: list.splits)
  note run = assms(1) [unfolded websocket_connection_flush_def if_not_P [OF g] q prod.case]
  show ?thesis
  proof (cases r)
    case (Inl b)
    then show ?thesis using run c1 w1 by simp
  next
    case (Inr u)
    have "\<exists>c2 w2. conn_calm n c c2 \<and> same_driver w w2 \<and>
        (if c_close_after_write c2 then (case websocket_connection_close_socket D c2 w2 of (c, w) \<Rightarrow> (True, c, w))
         else (True, c2, w2)) = (ok, c', w')"
    proof (cases "c_write_watched c1 \<and> w_driver w1 \<noteq> None")
      case False
      then have e: "(if c_write_watched c1 then
                     (case w_driver w1 of
                        None \<Rightarrow> (c1, w1)
                      | Some d \<Rightarrow> (c1\<lparr>c_write_watched := False\<rparr>,
                                   driver_call_unwatch (driver_unwatch_write D) (c_fd c1) d w1))
                   else (c1, w1)) = (c1, w1)"
        by auto
      have "r = Inr ()" using Inr by simp
      then have "(if c_close_after_write c1 then (case websocket_connection_close_socket D c1 w1 of (c, w) \<Rightarrow> (True, c, w))
         else (True, c1, w1)) = (ok, c', w')"
        using run by (simp only: sum.case unit.case e prod.case)
      then show ?thesis using c1 w1 by blast
    next
      case True
      then obtain d where d: "w_driver w1 = Some d" by blast
      let ?w = "driver_call_unwatch (driver_unwatch_write D) (c_fd c1) d w1"
      have "same_driver w ?w" using w1 driver_call_quiet(1) [OF d] by (auto simp: same_driver_def quiet_def)
      moreover have "conn_calm n c (c1\<lparr>c_write_watched := False\<rparr>)" using c1 watched conn_calm_trans by blast
      moreover have "(if c_close_after_write (c1\<lparr>c_write_watched := False\<rparr>)
            then (case websocket_connection_close_socket D (c1\<lparr>c_write_watched := False\<rparr>) ?w of (c, w) \<Rightarrow> (True, c, w))
            else (True, c1\<lparr>c_write_watched := False\<rparr>, ?w)) = (ok, c', w')"
      proof -
        have e: "(if c_write_watched c1 then
                     (case w_driver w1 of
                        None \<Rightarrow> (c1, w1)
                      | Some d \<Rightarrow> (c1\<lparr>c_write_watched := False\<rparr>,
                                   driver_call_unwatch (driver_unwatch_write D) (c_fd c1) d w1))
                   else (c1, w1)) = (c1\<lparr>c_write_watched := False\<rparr>, ?w)"
          using True d by simp
        have "r = Inr ()" using Inr by simp
        then show ?thesis using run by (simp only: sum.case unit.case e prod.case)
      qed
      ultimately show ?thesis by blast
    qed
    then obtain c2 w2 where c2: "conn_calm n c c2" "same_driver w w2"
      "(if c_close_after_write c2 then (case websocket_connection_close_socket D c2 w2 of (c, w) \<Rightarrow> (True, c, w))
         else (True, c2, w2)) = (ok, c', w')" by blast
    show ?thesis
    proof (cases "c_close_after_write c2")
      case False
      then show ?thesis using c2 by simp
    next
      case True
      then have "websocket_connection_close_socket D c2 w2 = (c', w')" using c2(3) by (auto split: prod.splits)
      note s = close_socket_step [OF this]
      then have "conn_calm n c2 c'" "same_driver w2 w'" using conn_step_calm by (auto simp: same_input_def same_driver_def)
      then show ?thesis using c2(1,2) conn_calm_trans same_driver_trans by blast
    qed
  qed
qed

lemma heartbeat_step:
  assumes "websocket_server_process_heartbeat D options now c w = (ok, c', w')"
  shows "conn_step c c' \<and> same_input w w' \<and> ok"
proof -
  obtain ok1 c1 w1 where s: "websocket_connection_send_frame D [] OPCODE_PING c w = (ok1, c1, w1)" by (metis prod_cases3)
  note st = send_frame_step [OF s]
  have ping: "conn_step c (c1\<lparr>c_awaiting_pong := True, c_last_ping_usec := now\<rparr>)"
    using st conn_step_same(3) [of c1 True] conn_step_same(4) [of "c1\<lparr>c_awaiting_pong := True\<rparr>" now] conn_step_trans by blast
  consider "c' = c" "w' = w" ok | reason where "websocket_server_close_with_code D CLOSE_NORMAL reason c w = (ok, c', w')"
    | reason where "websocket_server_close_with_code D CLOSE_NORMAL reason c1 w1 = (ok, c', w')"
    | "c' = c1\<lparr>c_awaiting_pong := True, c_last_ping_usec := now\<rparr>" "w' = w1" ok
  proof -
    define pong where "pong = Some (lit ''pong timeout'')"
    define failed where "failed = Some (lit ''heartbeat failed'')"
    note run = assms [unfolded websocket_server_process_heartbeat_def Let_def s prod.case, folded pong_def failed_def]
    let ?last = "if c_last_activity_usec c \<noteq> 0 then c_last_activity_usec c else c_accepted_at_usec c"
    let ?off = "websocket_server_ping_interval_usec options = 0 \<or> now = 0 \<or> \<not> c_open c \<or> \<not> c_upgraded c \<or> c_close_after_write c"
    let ?early = "?last = 0 \<or> now < ?last \<or> now - ?last < websocket_server_ping_interval_usec options"
    let ?late = "c_last_ping_usec c > 0 \<and> now \<ge> c_last_ping_usec c \<and> now - c_last_ping_usec c \<ge> websocket_server_pong_timeout_usec options"
    show thesis
    proof (cases ?off)
      case True
      then show thesis using that(1) run [unfolded if_P [OF True]] by simp
    next
      case off: False
      note run2 = run [unfolded if_not_P [OF off]]
      show thesis
      proof (cases "c_awaiting_pong c")
        case a: True
        note run3 = run2 [unfolded if_P [OF a]]
        show thesis
        proof (cases ?late)
          case True then show thesis using that(2) run3 [unfolded if_P [OF True]] by blast
        next
          case False then show thesis using that(1) run3 [unfolded if_not_P [OF False]] by simp
        qed
      next
        case a: False
        note run3 = run2 [unfolded if_not_P [OF a]]
        show thesis
        proof (cases ?early)
          case True then show thesis using that(1) run3 [unfolded if_P [OF True]] by simp
        next
          case False
          note run4 = run3 [unfolded if_not_P [OF False]]
          show thesis
          proof (cases ok1)
            case True then show thesis using that(4) run4 by simp
          next
            case False then show thesis using that(3) run4 [unfolded if_P [OF False]] by blast
          qed
        qed
      qed
    qed
  qed
  then show ?thesis
  proof cases
    case (2 reason)
    then show ?thesis using close_with_code_step [OF 2] by blast
  next
    case (3 reason)
    then show ?thesis using close_with_code_step [OF 3] st conn_step_trans same_input_trans by blast
  qed (use st ping in auto)
qed

lemma expired_step:
  assumes "websocket_server_close_expired_connection D c w = (c', w')"
  shows "conn_step c c' \<and> same_input w w'"
proof (cases "c_upgraded c")
  case True
  obtain ok where "websocket_server_close_with_code D CLOSE_NORMAL (Some (lit ''idle timeout'')) c w = (ok, c', w')"
    using assms True by (metis (no_types, lifting) prod.collapse snd_conv websocket_server_close_expired_connection_def)
  then show ?thesis using close_with_code_step by blast
next
  case False
  then have "websocket_connection_close_socket D c w = (c', w')" using assms by (simp add: websocket_server_close_expired_connection_def)
  then show ?thesis by (rule close_socket_step)
qed

lemma service_calm:
  assumes "service_connection E now h s = (r, s')" "server_inv s"
  shows "calm s s'" "g_exception s' = g_exception s" "r \<noteq> Some False"
proof -
  let ?D = "e_driver E"
  obtain r0 s0 where e: "with_conn (\<lambda>c w. ((), websocket_server_close_expired_connection ?D c w)) h s = (r0, s0)" by (metis prod.collapse)
  have s0: "calm s s0" "g_exception s0 = g_exception s"
    by (rule with_conn_calm [OF e]; use expired_step in fastforce)+
  obtain ok1 s1 where hb: "with_conn (websocket_server_process_heartbeat ?D (v_options s) now) h s = (ok1, s1)" by fastforce
  have s1: "calm s s1" "g_exception s1 = g_exception s"
    by (rule with_conn_calm [OF hb]; use heartbeat_step in blast)+
  obtain c0 w0 where "websocket_server_process_heartbeat ?D (v_options s) now (conn s h) (g_world s) = (ok1, c0, w0)"
    using hb by (auto simp: with_conn_def split: prod.splits)
  then have ok1: ok1 using heartbeat_step by blast
  obtain ok2 s2 where fl: "with_conn (websocket_connection_flush ?D) h s1 = (ok2, s2)" by fastforce
  obtain c w where c: "websocket_connection_flush ?D (conn s1 h) (g_world s1) = (ok2, c, w)" "s2 = (put_conn h c s1)\<lparr>g_world := w\<rparr>"
    using fl by (auto simp: with_conn_def split: prod.splits)
  have "queue_ok (conn s1 h)" using calm_server_inv [OF s1(1) assms(2)] by (simp add: server_inv_def conns_inv_def)
  note f = flush_calm [OF c(1) this]
  have "calm s1 (put_conn h c s1)" using f by (intro calm_conn) blast
  moreover have "calm (put_conn h c s1) s2" unfolding c(2) by (rule calm_world) (use f in simp)
  ultimately have s2: "calm s s2" "g_exception s2 = g_exception s" using s1 calm_trans by (blast, simp add: c(2))
  note run = assms(1) [unfolded service_connection_def Let_def hb prod.case]
  show "calm s s'" "g_exception s' = g_exception s" "r \<noteq> Some False"
    using run s0 s1 s2 ok1 by (auto simp: e fl split: if_splits)
qed

end
