(* ===== verification/Ws_Run.thy ===== *)
theory Ws_Run
  imports Ws_Serve
begin

text \<open>
  A turn of the loop, closing, and the whole run as sequences of moves, and what follows for a
  program that uses the server.
\<close>

subsection \<open>Runs\<close>

text \<open>Every open descriptor belongs to a connection in the list.\<close>

definition fds_owned :: "'d websocket_server \<Rightarrow> bool" where
  "fds_owned s \<longleftrightarrow> (\<forall>h. c_fd (conn s h) \<ge> 0 \<longrightarrow> h \<in> set (v_connections s))"

text \<open>As long as nothing has been thrown, a session that left the list has been told that it is closed.\<close>

definition told :: "'d websocket_server \<Rightarrow> bool" where
  "told s \<longleftrightarrow> (g_exception s = None \<and> v_on_close s \<noteq> None \<longrightarrow>
     (\<forall>h. c_upgraded (conn s h) \<and> \<not> c_close_notified (conn s h) \<longrightarrow> h \<in> set (v_connections s)))"

definition runs :: "'d websocket_server \<Rightarrow> 'd websocket_server \<Rightarrow> bool" where
  "runs s s' \<longleftrightarrow> moves s s' \<and> (fds_owned s \<longrightarrow> fds_owned s') \<and> (server_inv s \<longrightarrow> told s \<longrightarrow> told s')"

lemma runs_refl [simp]: "runs s s"
  by (simp add: runs_def)

lemma runs_trans: "runs s s' \<Longrightarrow> runs s' s'' \<Longrightarrow> runs s s''"
  unfolding runs_def using moves_inv rtranclp_trans [of move s s' s''] by blast

lemma told_thrown: "g_exception s \<noteq> None \<Longrightarrow> told s"
  by (auto simp: told_def)

lemma session_move_upgrades:
  assumes "session_move s s'" "g_exception s' = None"
  shows "g_exception s = None \<and> (c_upgraded (conn s' h') \<and> \<not> c_close_notified (conn s' h') \<longrightarrow>
     c_upgraded (conn s h') \<and> \<not> c_close_notified (conn s h') \<or> c_open (conn s h'))"
  using assms
proof (induction rule: session_move.induct)
  case (Calm s s')
  then show ?case using calmD(6) [OF Calm(1)] calmD(3) [OF Calm(1), of h'] by (auto simp: conn_calm_def)
next
  case (Upgrade s h s')
  obtain c where c: "conn s' = (conn s)(h := c)" by (rule upgrade_moveD [OF Upgrade(6)])
  show ?case using Upgrade(1,3) by (simp add: c)
next
  case (Rejected s h request s1 w s' x)
  have "conn_step (conn (log_event (HandshakeEvent h request) s) h') (conn s1 h')" using Rejected(5) unfolding php_step_def by blast
  from conn_stepD(3,4) [OF this] show ?case using Rejected(1) by (auto simp: Rejected(7) update_conn_def put_conn_def)
next
  case (Passed s h request s1 s')
  have k: "conn_step (conn (log_event (HandshakeEvent h request) s) h') (conn s1 h')" using Passed(5) unfolding php_step_def by blast
  obtain c where c: "conn s' = (conn s1)(h := c)" by (rule upgrade_moveD [OF Passed(6)])
  show ?case using conn_stepD(3,4) [OF k] Passed(1,3) by (simp add: c)
next
  case (Close s h)
  then show ?case by (simp add: update_conn_def put_conn_def)
qed simp_all

lemma session_move_told:
  assumes "session_move s s'" "server_inv s" "told s"
  shows "told s'"
proof -
  have f: "v_connections s' = v_connections s" "v_on_close s' = v_on_close s"
    using session_move_keeps [OF assms(1)] fixedD(6,10) [of s' s] unfolding keeps_def by blast+
  have o: "c_open (conn s h) \<Longrightarrow> h \<in> set (v_connections s)" for h using assms(2) by (simp add: server_inv_def list_inv_def)
  show ?thesis using session_move_upgrades [OF assms(1)] assms(3) o unfolding told_def f by blast
qed

lemma session_moves_told: "session_moves s s' \<Longrightarrow> server_inv s \<Longrightarrow> told s \<Longrightarrow> told s'"
  by (induction rule: rtranclp_induct) (auto intro: session_move_told session_moves_inv)

lemma runs_inv: "runs s s' \<Longrightarrow> server_inv s \<Longrightarrow> server_inv s'"
  unfolding runs_def using moves_inv by blast

lemma keeps_fds: "keeps s s' \<Longrightarrow> fds_owned s \<Longrightarrow> fds_owned s'"
  unfolding fds_owned_def using keeps_next(3) unfolding keeps_def by (metis not_less)

lemma session_runs: "session_moves s s' \<Longrightarrow> runs s s'"
  unfolding runs_def using session_moves session_moves_keeps keeps_fds session_moves_told by blast

lemma calm_runs: "calm s s' \<Longrightarrow> runs s s'"
  by (rule session_runs) (rule calm_moves)

lemma list_handles: "server_inv s \<Longrightarrow> h \<in> set (v_connections s) \<Longrightarrow> h < g_next_object s"
  by (simp add: server_inv_def list_inv_def)

lemma served_runs: "served ok s s' \<Longrightarrow> runs s s' \<and> (ok \<longrightarrow> g_exception s' = None)"
  using session_runs by blast

subsection \<open>A turn of the loop\<close>

lemma index_where_Some: "index_where P xs = Some i \<Longrightarrow> i < length xs \<and> P (xs ! i)"
  by (induction xs arbitrary: i) (auto split: if_splits option.splits)

lemma process_connection_fd_served:
  assumes "websocket_server_process_connection_fd E fd s = (ok, s')" "server_inv s" "g_exception s = None"
  shows "served ok s s'"
proof -
  obtain now s1 where n: "with_world websocket_server_now_usec s = (now, s1)" by fastforce
  obtain w where s1: "calm s s1" "s1 = s\<lparr>g_world := w\<rparr>" using calm_now [OF n] by blast
  have f1: "server_inv s1" "g_exception s1 = None" using calm_server_inv [OF s1(1) assms(2)] assms(3) by (simp_all add: s1(2))
  note run = assms(1) [unfolded websocket_server_process_connection_fd_def n prod.case]
  show ?thesis
  proof (cases "index_where (\<lambda>h. c_fd (conn s1 h) = fd) (v_connections s1)")
    case None
    then show ?thesis using run calm_moves [OF s1(1)] f1(2) by simp
  next
    case (Some i)
    let ?h = "v_connections s1 ! i"
    have h: "?h < g_next_object s1" using index_where_Some [OF Some] list_handles [OF f1(1)] by simp
    note run2 = run [unfolded Some option.case Let_def]
    show ?thesis
    proof (cases "c_open (conn s1 ?h)")
      case False
      then show ?thesis using run2 calm_moves [OF s1(1)] f1(2) by simp
    next
      case True
      obtain r s2 where sv: "service_connection E now ?h s1 = (r, s2)" by fastforce
      note sc = service_calm [OF sv f1(1)]
      have c2: "calm s s2" using s1(1) sc(1) calm_trans by blast
      have f2: "server_inv s2" "g_exception s2 = None" "?h < g_next_object s2"
        using calm_server_inv [OF c2 assms(2)] sc(2) f1(2) h fixedD(12) [OF calmD(1) [OF sc(1)]] by simp_all
      show ?thesis
      proof (cases r)
        case (Some b)
        then show ?thesis using run2 True sv calm_moves [OF c2] f2(2) by simp
      next
        case None
        then have "served ok s2 s'"
          using run2 True sv process_handshake_served [OF _ f2] process_frame_reads_served [OF _ f2] by (auto split: if_splits)
        then show ?thesis using calm_first [OF c2] by blast
      qed
    qed
  qed
qed

lemma process_each_served:
  assumes "process_each E now hs s = (ok, s')" "server_inv s" "g_exception s = None" "\<forall>h\<in>set hs. h < g_next_object s"
  shows "served ok s s'"
  using assms
proof (induction hs arbitrary: s)
  case (Cons h hs)
  have rest: "served ok s s'" if "session_moves s s0" "g_exception s0 = None" "process_each E now hs s0 = (ok, s')" for s0
  proof -
    have "\<forall>h\<in>set hs. h < g_next_object s0"
      using Cons.prems(4) keeps_next(1) [OF session_moves_keeps [OF that(1)]] by simp
    then have "served ok s0 s'" using Cons.IH [OF that(3) session_moves_inv [OF that(1) Cons.prems(2)] that(2)] by blast
    then show ?thesis using that(1) by (meson rtranclp_trans)
  qed
  show ?case
  proof (cases "c_open (conn s h)")
    case False
    then show ?thesis using Cons.prems rest [of s] by simp
  next
    case True
    obtain r s1 where sv: "service_connection E now h s = (r, s1)" by fastforce
    note sc = service_calm [OF sv Cons.prems(2)]
    have f1: "server_inv s1" "g_exception s1 = None" "h < g_next_object s1"
      using calm_server_inv [OF sc(1) Cons.prems(2)] sc(2) Cons.prems(3,4) fixedD(12) [OF calmD(1) [OF sc(1)]] by simp_all
    note run = Cons.prems(1) [unfolded process_each.simps not_not if_not_P [OF iffD2 [OF not_not True]] sv prod.case]
    show ?thesis
    proof (cases r)
      case (Some b)
      then have b: "b" using sc(3) by simp
      then show ?thesis using run True Some rest [OF calm_moves [OF sc(1)] f1(2)] by simp
    next
      case None
      obtain ok2 s2 where hs2: "(if \<not> c_upgraded (conn s1 h) then websocket_server_process_handshake E h s1 else (True, s1)) = (ok2, s2)"
        by fastforce
      have m2: "served ok2 s1 s2" using hs2 process_handshake_served [OF _ f1] f1(2) by (auto split: if_splits)
      then have m: "session_moves s s2" using calm_first [OF sc(1)] by blast
      show ?thesis
      proof (cases ok2)
        case False
        then show ?thesis using run True None hs2 m by auto
      next
        case ok2: True
        have f2: "server_inv s2" "g_exception s2 = None" "h < g_next_object s2"
          using session_moves_inv [OF m Cons.prems(2)] m2 ok2 Cons.prems(4) keeps_next(1) [OF session_moves_keeps [OF m]] by simp_all
        obtain ok3 s3 where pb: "(if c_upgraded (conn s2 h) \<and> length (c_read_buffer (conn s2 h)) > 0
                          then websocket_server_process_buffered_frames E h s2 else (True, s2)) = (ok3, s3)" by fastforce
        have m3: "served ok3 s2 s3" using pb process_buffered_served [OF _ f2] f2(2) by (auto split: if_splits)
        then have m': "session_moves s s3" using m by (meson rtranclp_trans)
        show ?thesis
        proof (cases ok3)
          case False
          then show ?thesis using run True None hs2 ok2 pb m' by auto
        next
          case ok3: True
          then have "process_each E now hs s3 = (ok, s')" using run True None hs2 ok2 pb by simp
          then show ?thesis using rest [OF m'] m3 ok3 by simp
        qed
      qed
    qed
  qed
qed simp

lemma process_connections_served:
  assumes "websocket_server_process_connections E s = (ok, s')" "server_inv s" "g_exception s = None"
  shows "served ok s s'"
proof -
  obtain now s1 where n: "with_world websocket_server_now_usec s = (now, s1)" by fastforce
  obtain w where s1: "calm s s1" "s1 = s\<lparr>g_world := w\<rparr>" using calm_now [OF n] by blast
  have f1: "server_inv s1" "g_exception s1 = None" using calm_server_inv [OF s1(1) assms(2)] assms(3) by (simp_all add: s1(2))
  have "process_each E now (v_connections s1) s1 = (ok, s')" using assms(1) n by (simp add: websocket_server_process_connections_def)
  from process_each_served [OF this f1] list_handles [OF f1(1)] have "served ok s1 s'" by blast
  then show ?thesis using calm_first [OF s1(1)] by blast
qed

lemma accept_outcome_runs:
  assumes "accept_outcome ok s s'" "server_inv s" "g_exception s = None"
  shows "runs s s'" "ok \<Longrightarrow> g_exception s' = None"
proof -
  have world: "runs s s' \<and> (ok \<longrightarrow> g_exception s' = None)"
    if "s' = s\<lparr>g_world := w, g_exception := x\<rparr>" "w_driver w = None \<longleftrightarrow> w_driver (g_world s) = None"
      "x \<noteq> g_exception s \<longrightarrow> \<not> ok \<and> x \<noteq> None" for w x
  proof -
    have "calm s s'" using assms(3) by (simp add: that(1) calm_def stops_only_def same_driver_def that(2))
    then show ?thesis using calm_runs that(1,3) assms(3) by auto
  qed
  have added: "runs s s' \<and> (ok \<longrightarrow> g_exception s' = None)" if added: "added ok s s'"
  proof -
    have m: "moves s s'" using move.Accept [OF assms(3) added] by blast
    obtain c w i k x where s': "s' = s\<lparr>g_objects := (conn s)(g_next_object s := c), g_next_object := Suc (g_next_object s),
       g_next_connection_id := i, g_world := w, v_connection_capacity := k, g_exception := x,
       v_connections := (if ok then v_connections s @ [g_next_object s] else v_connections s)\<rparr>"
      "if ok then c_open c \<and> x = g_exception s else \<not> c_open c \<and> c_fd c < 0 \<and> x \<noteq> None" "new_connection c"
      using added unfolding added_def by blast
    have "fds_owned s \<longrightarrow> fds_owned s'" using s'(2) by (auto simp: fds_owned_def s'(1) split: if_splits)
    moreover have "\<not> c_upgraded c" using s'(3) by (simp add: new_connection_def)
    then have "told s \<longrightarrow> told s'" using s'(2) assms(3) by (auto simp: told_def s'(1) split: if_splits)
    ultimately show ?thesis using m s'(2) assms(3) by (auto simp: runs_def s'(1) split: if_splits)
  qed
  have "runs s s' \<and> (ok \<longrightarrow> g_exception s' = None)"
    using assms(1) unfolding accept_outcome_def
  proof
    assume "added ok s s'"
    then show ?thesis by (rule added)
  qed (elim exE conjE, rule world)
  then show "runs s s'" "ok \<Longrightarrow> g_exception s' = None" by blast+
qed

lemma accept_loop_runs:
  assumes "accept_loop E n s = (ok, s')" "server_inv s" "g_exception s = None"
  shows "runs s s' \<and> (ok \<longrightarrow> g_exception s' = None)"
  using assms
proof (induction E n s rule: accept_loop.induct)
  case (1 E n s)
  show ?case
  proof (cases "v_running s \<and> \<not> g_stopped s \<and> n < WEBSOCKET_ACCEPT_BATCH_LIMIT")
    case False
    then show ?thesis using "1.prems" by (auto simp: accept_loop.simps [of E n s])
  next
    case True
    obtain ok1 s1 where a: "websocket_server_accept_connection E s = (ok1, s1)" by fastforce
    have "v_reusable_connection s = None" using "1.prems"(2) by (simp add: server_inv_def list_inv_def)
    note o = accept_outcome_runs [OF accept_connection_outcome [OF a this] "1.prems"(2,3)]
    have inv: "server_inv s1" by (rule runs_inv [OF o(1) "1.prems"(2)])
    note run = "1.prems"(1) [unfolded accept_loop.simps [of E n s] if_P [OF True] a prod.case]
    show ?thesis
    proof (cases ok1)
      case ok1: True
      then have "accept_loop E (n + 1) s1 = (ok, s')" using run by simp
      then show ?thesis using "1.IH"(2) [OF True a [symmetric]] ok1 inv o runs_trans by simp blast
    next
      case False
      show ?thesis
      proof (cases "g_exception s1 = None \<and> w_errno (g_world s1) = EINTR")
        case e: True
        then have "accept_loop E n s1 = (ok, s')" using run False by simp
        then show ?thesis using "1.IH"(1) [OF True a [symmetric] False] e inv o(1) runs_trans by simp blast
      next
        case f: False
        then show ?thesis using run False o(1) by (auto split: if_splits)
      qed
    qed
  qed
qed

lemma accept_pending_runs:
  assumes "websocket_server_accept_pending E s = (ok, s')" "server_inv s" "g_exception s = None"
  shows "runs s s'" "ok \<Longrightarrow> g_exception s' = None"
  using accept_loop_runs [of E 0 s ok s'] assms by (simp_all add: websocket_server_accept_pending_def)

subsection \<open>Closing\<close>

lemma drop_connection_exception: "g_exception (drop_connection E h s) = g_exception s"
proof -
  obtain c w where d: "drop_connection E h s = (put_conn h c s)\<lparr>g_world := w\<rparr>"
    by (rule drop_connection [of E h s]) (rule that; assumption)
  show ?thesis unfolding d by simp
qed

lemma drop_connection_calm: "calm s (drop_connection E h s)"
  by (rule php_step_calm [OF drop_connection_step]) (simp add: drop_connection_exception)

lemma unwatch_calm: "calm s (websocket_server_unwatch E fd s)" "g_exception (websocket_server_unwatch E fd s) = g_exception s"
  "conn (websocket_server_unwatch E fd s) = conn s" "g_next_object (websocket_server_unwatch E fd s) = g_next_object s"
proof -
  show "calm s (websocket_server_unwatch E fd s)"
  proof (cases "w_driver (g_world s)")
    case (Some d)
    have "same_driver (g_world s) (driver_call_unwatch (driver_unwatch (e_driver E)) fd d (g_world s))"
      using driver_call_quiet(1) [OF Some] by (auto simp: quiet_def same_driver_def)
    then show ?thesis using calm_world Some by (simp add: websocket_server_unwatch_def)
  qed (simp add: websocket_server_unwatch_def)
qed (simp_all add: websocket_server_unwatch_def split: option.split)

lemma in_remove_at: "h \<in> set xs \<Longrightarrow> h \<noteq> xs ! i \<Longrightarrow> i < length xs \<Longrightarrow> h \<in> set (remove_at i xs)"
  using id_take_nth_drop [of i xs] by (metis Un_iff remove_at_eq set_ConsD set_append)

lemma notify_failed: "websocket_server_notify_connection_closed E h s = (False, s') \<Longrightarrow> g_exception s' \<noteq> None"
  by (auto simp: websocket_server_notify_connection_closed_def websocket_server_call_handler_def throw_error_def
      split: if_splits option.splits prod.splits)

lemma notify_marks:
  assumes "websocket_server_notify_connection_closed E h s = (ok, s')" "v_on_close s \<noteq> None"
  shows "c_upgraded (conn s' h') = c_upgraded (conn s h')"
    "h' \<noteq> h \<Longrightarrow> c_close_notified (conn s' h') = c_close_notified (conn s h')"
    "c_upgraded (conn s' h) \<Longrightarrow> c_close_notified (conn s' h)"
proof -
  let ?t = "log_event (CloseEvent h) (update_conn (\<lambda>c. c\<lparr>c_close_notified := True\<rparr>) h s)"
  consider "s' = s" "\<not> c_upgraded (conn s h) \<or> c_close_notified (conn s h)" | "php_step ?t s'"
    using notify_cases [OF assms(1)] assms(2) by blast
  then have "c_upgraded (conn s' h') = c_upgraded (conn s h')
     \<and> (h' \<noteq> h \<longrightarrow> c_close_notified (conn s' h') = c_close_notified (conn s h'))
     \<and> (c_upgraded (conn s' h) \<longrightarrow> c_close_notified (conn s' h))"
  proof cases
    case 2
    then have k: "conn_step (conn ?t h') (conn s' h')" for h' unfolding php_step_def by blast
    show ?thesis using conn_stepD(3,4) [OF k [of h']] conn_stepD(3,4) [OF k [of h]] by (simp add: update_conn_def put_conn_def)
  qed auto
  then show "c_upgraded (conn s' h') = c_upgraded (conn s h')"
    "h' \<noteq> h \<Longrightarrow> c_close_notified (conn s' h') = c_close_notified (conn s h')"
    "c_upgraded (conn s' h) \<Longrightarrow> c_close_notified (conn s' h)"
    by blast+
qed

lemma close_connection_at_runs:
  assumes "websocket_server_close_connection_at E i notify s = (ok, s')" "server_inv s" "i < length (v_connections s)"
    "notify \<longleftrightarrow> g_exception s = None"
  shows "runs s s'" "notify \<Longrightarrow> ok \<Longrightarrow> g_exception s' = None" "v_connections s' = remove_at i (v_connections s)"
    "\<not> notify \<or> \<not> ok \<Longrightarrow> g_exception s' \<noteq> None"
proof -
  let ?h = "v_connections s ! i"
  define s1 where "s1 = update_conn (\<lambda>c. c\<lparr>c_open := False\<rparr>) ?h (s\<lparr>v_connections := remove_at i (v_connections s)\<rparr>)"
  have rm: "move s s1" using assms(3) s1_def by (rule move.Remove)
  have f1: "server_inv s1" "g_exception s1 = g_exception s" "\<not> c_open (conn s1 ?h)" "?h < g_next_object s1"
    using move_inv [OF rm assms(2)] list_handles [OF assms(2), of ?h] assms(3) by (simp_all add: s1_def) (simp add: update_conn_def put_conn_def)
  define s2 where "s2 = (if c_fd (conn s1 ?h) \<ge> 0 then websocket_server_unwatch E (c_fd (conn s1 ?h)) s1 else s1)"
  have c2: "calm s1 s2" using unwatch_calm(1) [of s1 E "c_fd (conn s1 ?h)"] by (simp add: s2_def)
  have f2: "g_exception s2 = g_exception s" "\<not> c_open (conn s2 ?h)" "?h < g_next_object s2"
    using f1 unwatch_calm(2-4) [of E "c_fd (conn s1 ?h)" s1] by (simp_all add: s2_def)
  obtain ok3 s3 where nt: "(if notify then websocket_server_notify_connection_closed E ?h s2 else (True, s2)) = (ok3, s3)" by fastforce
  have run: "ok = ok3" "s' = drop_connection E ?h s3"
    using assms(1) [unfolded websocket_server_close_connection_at_def Let_def, folded s1_def, folded s2_def] nt by simp_all
  have n3: "session_moves s2 s3 \<and> (notify \<and> ok3 \<longrightarrow> g_exception s3 = None)"
    using nt notify_served [of E ?h s2 ok3 s3] f2 assms(4) by (auto split: if_splits)
  then have m: "session_moves s1 s'"
    using calm_first [OF c2] calm_last [OF _ drop_connection_calm] run(2) by blast
  then have "moves s s'" using rm session_moves by (meson converse_rtranclp_into_rtranclp)
  moreover have "fds_owned s'" if "fds_owned s"
  proof -
    have k: "keeps s1 s3" using n3 c2 session_moves_keeps calm_first by blast
    obtain c w where d: "drop_connection E ?h s3 = (put_conn ?h c s3)\<lparr>g_world := w\<rparr>" "c_fd c < 0"
      by (rule drop_connection [of E ?h s3]) (rule that; assumption)
    have "h \<in> set (v_connections s')" if pos: "c_fd (conn s' h) \<ge> 0" for h
    proof -
      have h: "h \<noteq> ?h" "c_fd (conn s3 h) \<ge> 0" using pos d by (auto simp: run(2) split: if_splits)
      then have "c_fd (conn s1 h) \<ge> 0" using k unfolding keeps_def by (metis not_less)
      then have "h \<in> set (v_connections s)" using h(1) \<open>fds_owned s\<close> by (simp add: s1_def fds_owned_def)
      then show ?thesis using in_remove_at h(1) assms(3) by (simp add: close_connection_at_list(1) [OF assms(1)])
    qed
    then show ?thesis by (simp add: fds_owned_def)
  qed
  moreover have "told s'" if "told s"
  proof (cases "g_exception s' = None \<and> v_on_close s' \<noteq> None")
    case True
    have x3: "g_exception s3 = None" using True by (simp add: run(2) drop_connection_exception)
    have nt': "notify" using x3 nt f2(1) assms(4) by (auto split: if_splits)
    then have nf: "websocket_server_notify_connection_closed E ?h s2 = (ok3, s3)" using nt by simp
    have f: "fixed s' = fixed s1" using session_moves_keeps [OF m] by (simp add: keeps_def)
    have oc: "v_on_close s \<noteq> None" "v_on_close s2 \<noteq> None"
      using True fixedD(6) [OF f] fixedD(6) [OF calmD(1) [OF c2]] by (simp_all add: s1_def) (simp_all add: update_conn_def put_conn_def)
    have k: "conn_calm (read_bound (v_options s3)) (conn s3 h) (conn s' h)" for h
      using calmD(3) [OF drop_connection_calm] by (simp add: run(2))
    have "h \<in> set (v_connections s')" if u: "c_upgraded (conn s' h)" "\<not> c_close_notified (conn s' h)" for h
    proof -
      have u3: "c_upgraded (conn s3 h)" "\<not> c_close_notified (conn s3 h)" using k [of h] u by (simp_all add: conn_calm_def)
      then have h: "h \<noteq> ?h" using notify_marks(3) [OF nf oc(2)] by blast
      then have "c_upgraded (conn s2 h)" "\<not> c_close_notified (conn s2 h)" using notify_marks(1,2) [OF nf oc(2)] u3 by blast+
      then have "c_upgraded (conn s h)" "\<not> c_close_notified (conn s h)"
        using calmD(3) [OF c2, of h] h by (simp_all add: conn_calm_def s1_def)
      then have "h \<in> set (v_connections s)" using \<open>told s\<close> nt' assms(4) oc(1) by (simp add: told_def)
      then show ?thesis using in_remove_at h assms(3) by (simp add: close_connection_at_list(1) [OF assms(1)])
    qed
    then show ?thesis by (simp add: told_def)
  qed (auto simp: told_def)
  ultimately show "runs s s'" by (simp add: runs_def)
  show "notify \<Longrightarrow> ok \<Longrightarrow> g_exception s' = None" using n3 run by (simp add: drop_connection_exception)
  show "v_connections s' = remove_at i (v_connections s)" by (rule close_connection_at_list(1) [OF assms(1)])
  show "\<not> notify \<or> \<not> ok \<Longrightarrow> g_exception s' \<noteq> None"
    using nt notify_failed [of E ?h s2 s3] f2(1) assms(4) run by (auto simp: drop_connection_exception split: if_splits)
qed

lemma purge_from_runs:
  assumes "purge_from E i s = (ok, s')" "server_inv s" "g_exception s = None"
  shows "runs s s' \<and> (ok \<longrightarrow> g_exception s' = None)"
  using assms
proof (induction E i s rule: purge_from.induct)
  case (1 E i s)
  note run = "1.prems"(1) [unfolded purge_from.simps [of E i s]]
  show ?case
  proof (cases "i < length (v_connections s)")
    case False
    then show ?thesis using run "1.prems"(3) by auto
  next
    case i: True
    show ?thesis
    proof (cases "c_open (conn s (v_connections s ! i))")
      case True
      then show ?thesis using run i "1.IH"(2) [OF i] "1.prems"(2,3) by simp
    next
      case False
      obtain ok1 s1 where c: "websocket_server_close_connection_at E i True s = (ok1, s1)" by fastforce
      have r: "runs s s1" "ok1 \<Longrightarrow> g_exception s1 = None"
        using close_connection_at_runs(1,2) [OF c "1.prems"(2) i] "1.prems"(3) by simp_all
      show ?thesis
      proof (cases ok1)
        case True
        then have "purge_from E i s1 = (ok, s')" using run i False c by simp
        then show ?thesis
          using "1.IH"(1) [OF i False c [symmetric]] True runs_inv [OF r(1) "1.prems"(2)] r(1,2) runs_trans by simp blast
      next
        case f: False
        then show ?thesis using run i False c r(1) by simp
      qed
    qed
  qed
qed

lemma close_all_runs:
  assumes "websocket_server_close_all_connections E notify s = (ok, s')" "server_inv s" "notify \<longleftrightarrow> g_exception s = None"
  shows "runs s s' \<and> (ok \<longrightarrow> v_connections s' = []) \<and> (\<not> notify \<longrightarrow> ok) \<and> (\<not> ok \<longrightarrow> g_exception s' \<noteq> None)"
  using assms
proof (induction E notify s rule: websocket_server_close_all_connections.induct)
  case (1 E notify s)
  note run = "1.prems"(1) [unfolded websocket_server_close_all_connections.simps [of E notify s]]
  show ?case
  proof (cases "length (v_connections s) > 0")
    case False
    then show ?thesis using run by auto
  next
    case i: True
    obtain ok1 s1 where c: "websocket_server_close_connection_at E (length (v_connections s) - 1) notify s = (ok1, s1)" by fastforce
    have "length (v_connections s) - 1 < length (v_connections s)" using i by simp
    note r = close_connection_at_runs [OF c "1.prems"(2) this "1.prems"(3)]
    have n: "\<not> notify \<longrightarrow> ok1" using close_connection_at_list(2) [OF c] by blast
    have x: "ok1 \<Longrightarrow> notify \<longleftrightarrow> g_exception s1 = None" using r(2,4) by blast
    show ?thesis
    proof (cases ok1)
      case True
      then have "websocket_server_close_all_connections E notify s1 = (ok, s')" using run i c by simp
      then show ?thesis
        using "1.IH" [OF i c [symmetric]] True x runs_inv [OF r(1) "1.prems"(2)] r(1) runs_trans by simp blast
    next
      case f: False
      then show ?thesis using run i c r(1,4) n by auto
    qed
  qed
qed

lemma close_fd_calm: "calm s (close_fd_of fd s)" "g_exception (close_fd_of fd s) = g_exception s"
proof -
  have "same_driver (g_world s) (websocket_server_close_fd fd (g_world s))"
    using close_fd_pending [of "g_world s" fd] by (simp add: same_pending_def same_driver_def)
  then show "calm s (close_fd_of fd s)" using calm_world by (simp add: close_fd_of_def)
qed (simp add: close_fd_of_def)

lemma listener_runs: "runs s (s\<lparr>v_listener_fd := fd\<rparr>)"
  unfolding runs_def using move.Listener by (auto simp: fds_owned_def told_def)

lemma runtime_close_runs:
  assumes "server_inv s" "notify \<longleftrightarrow> g_exception s = None"
  shows "runs s (websocket_server_runtime_close E notify s)" "v_connections (websocket_server_runtime_close E notify s) = []"
proof -
  define s1 where "s1 = (if v_listener_fd s \<ge> 0
              then (close_fd_of (v_listener_fd s) (websocket_server_unwatch E (v_listener_fd s) s))\<lparr>v_listener_fd := -1\<rparr>
              else s)"
  have "calm s (close_fd_of fd (websocket_server_unwatch E fd s))" for fd
    using unwatch_calm(1) [of s E fd] close_fd_calm(1) [of "websocket_server_unwatch E fd s" fd] calm_trans by blast
  then have r1: "runs s s1" using calm_runs listener_runs runs_trans by (simp add: s1_def) blast
  have e1: "g_exception s1 = g_exception s" by (simp add: s1_def close_fd_calm(2) unwatch_calm(2))
  obtain ok2 s2 where c: "websocket_server_close_all_connections E notify s1 = (ok2, s2)" by fastforce
  have r2: "runs s1 s2 \<and> (ok2 \<longrightarrow> v_connections s2 = []) \<and> (\<not> ok2 \<longrightarrow> g_exception s2 \<noteq> None)"
    using close_all_runs [OF c runs_inv [OF r1 assms(1)]] assms(2) e1 by simp
  obtain ok3 s3 where c3: "websocket_server_close_all_connections E False s2 = (ok3, s3)" by fastforce
  have inv2: "server_inv s2" using runs_inv [OF _ runs_inv [OF r1 assms(1)]] r2 by blast
  have r3: "\<not> ok2 \<longrightarrow> runs s2 s3 \<and> v_connections s3 = []" using close_all_runs [OF c3 inv2] r2 by simp
  have "websocket_server_runtime_close E notify s = (if \<not> ok2 then s3 else s2)"
    by (simp add: websocket_server_runtime_close_def c c3 flip: s1_def)
  then show "runs s (websocket_server_runtime_close E notify s)" "v_connections (websocket_server_runtime_close E notify s) = []"
    using r1 r2 r3 runs_trans by (simp_all) blast
qed

subsection \<open>The loop\<close>

lemma loop_turn_runs:
  assumes "loop_turn E s = (continue, s')" "server_inv s" "g_exception s = None"
  shows "runs s s' \<and> (continue \<longrightarrow> g_exception s' = None)"
proof (cases "w_driver (g_world s)")
  case None
  then show ?thesis using assms(1) by (simp add: loop_turn_def)
next
  case (Some d)
  obtain ready stored d1 e where wt: "driver_wait (e_driver E) WEBSOCKET_LOOP_TIMEOUT_USEC (d, w_errno (g_world s)) = ((ready, stored), d1, e)"
    by (metis prod.collapse)
  define s1 where "s1 = s\<lparr>g_world := (g_world s)\<lparr>w_driver := Some d1, w_errno := e\<rparr>\<rparr>"
  have c1: "calm s s1" using calm_world [of s "(g_world s)\<lparr>w_driver := Some d1, w_errno := e\<rparr>"] Some by (simp add: s1_def same_driver_def)
  have f1: "server_inv s1" "g_exception s1 = None" using calm_server_inv [OF c1 assms(2)] assms(3) by (simp_all add: s1_def)
  note run = assms(1) [unfolded loop_turn_def Some option.case wt prod.case Let_def, folded s1_def]
  show ?thesis
  proof (cases "ready < 0")
    case True
    then show ?thesis using run calm_runs [OF c1] calm_runs [OF calm_throw [OF c1]] f1(2) by (auto split: if_splits)
  next
    case False
    define ready_fd where "ready_fd = (case stored of Some fd \<Rightarrow> fd | None \<Rightarrow> -1)"
    obtain ok2 s2 where st: "(if ready > 0 \<and> ready_fd = v_listener_fd s1 then websocket_server_accept_pending E s1
                        else if ready > 0 \<and> ready_fd \<ge> 0 then websocket_server_process_connection_fd E ready_fd s1
                        else (True, s1)) = (ok2, s2)" by fastforce
    have r2: "runs s1 s2 \<and> (ok2 \<longrightarrow> g_exception s2 = None)"
    proof (cases "ready > 0 \<and> ready_fd = v_listener_fd s1")
      case True
      then have "websocket_server_accept_pending E s1 = (ok2, s2)" using st by simp
      from accept_pending_runs [OF this f1] show ?thesis by blast
    next
      case n: False
      show ?thesis
      proof (cases "ready > 0 \<and> ready_fd \<ge> 0")
        case True
        then have "websocket_server_process_connection_fd E ready_fd s1 = (ok2, s2)" using st n by auto
        from process_connection_fd_served [OF this f1] show ?thesis by (rule served_runs)
      next
        case False
        then show ?thesis using st n f1(2) by (auto split: if_splits)
      qed
    qed
    have rs2: "runs s s2" using calm_runs [OF c1] r2 runs_trans by blast
    note run2 = run [folded ready_fd_def, unfolded if_not_P [OF False] st prod.case]
    show ?thesis
    proof (cases ok2)
      case False
      then show ?thesis using run2 rs2 by simp
    next
      case True
      obtain ok3 s3 where pc: "websocket_server_process_connections E s2 = (ok3, s3)" by fastforce
      have f2: "server_inv s2" "g_exception s2 = None" using runs_inv [OF rs2 assms(2)] r2 True by simp_all
      have r3: "runs s2 s3 \<and> (ok3 \<longrightarrow> g_exception s3 = None)" using process_connections_served [OF pc f2] by (rule served_runs)
      have rs3: "runs s s3" using rs2 r3 runs_trans by blast
      show ?thesis
      proof (cases ok3)
        case False
        then show ?thesis using run2 True pc rs3 by simp
      next
        case ok3: True
        have "purge_from E 0 s3 = (continue, s')"
          using run2 True pc ok3 by (simp add: websocket_server_purge_closed_connections_def)
        from purge_from_runs [OF this runs_inv [OF rs3 assms(2)]] show ?thesis using r3 ok3 runs_trans [OF rs3, of s'] by simp
      qed
    qed
  qed
qed

lemma server_loop_runs:
  assumes "server_loop E s = Some s'"
  shows "server_inv s \<longrightarrow> g_exception s = None \<longrightarrow> runs s s'"
proof (rule server_loop.raw_induct [of "\<lambda>E s s'. server_inv s \<longrightarrow> g_exception s = None \<longrightarrow> runs s s'", OF _ assms], intro impI)
  fix loop :: "'a environment \<Rightarrow> 'a websocket_server \<Rightarrow> 'a websocket_server option" and E s s'
  assume IH: "\<And>E s s'. loop E s = Some s' \<Longrightarrow> server_inv s \<longrightarrow> g_exception s = None \<longrightarrow> runs s s'"
    and run: "(if v_running s \<and> \<not> g_stopped s then case loop_turn E s of (continue, s) \<Rightarrow> if continue then loop E s else Some s
       else Some s) = Some s'"
    and i: "server_inv s" and x: "g_exception s = None"
  show "runs s s'"
  proof (cases "v_running s \<and> \<not> g_stopped s")
    case False
    then show ?thesis using run by auto
  next
    case True
    obtain c s1 where t: "loop_turn E s = (c, s1)" by fastforce
    note r = loop_turn_runs [OF t i x]
    show ?thesis
    proof (cases c)
      case c: True
      then have "loop E s1 = Some s'" using run True t by simp
      then have "runs s1 s'" using IH r c runs_inv [OF _ i, of s1] by simp
      then show ?thesis using r runs_trans [of s s1 s'] by simp
    next
      case False
      then show ?thesis using run True t r by auto
    qed
  qed
qed

subsection \<open>The run\<close>

lemma listen_on_pending: "listen_on as e w = (r, w') \<Longrightarrow> same_pending w w'"
proof (induction as e w rule: listen_on.induct)
  case (2 a as e w)
  obtain nb w1 where n: "websocket_server_set_nonblocking w = (nb, w1)" by fastforce
  have w1: "same_pending w w1" by (rule set_nonblocking_pending [OF n])
  have cl: "same_pending w (websocket_server_close_fd fd w1)" "same_pending w (websocket_server_close_fd fd (w1\<lparr>w_errno := e'\<rparr>))" for fd e'
    using w1 close_fd_pending [of w1 fd] close_fd_pending [of "w1\<lparr>w_errno := e'\<rparr>" fd] same_pending_trans by (blast, simp add: same_pending_def)
  show ?case
  proof (cases "la_socket a")
    case (Inl e')
    then show ?thesis using 2 by (simp add: same_pending_def)
  next
    case (Inr fd)
    show ?thesis
    proof (cases nb)
      case False
      then have "same_pending (websocket_server_close_fd fd w1) w'" using 2(2) [OF Inr n [symmetric]] 2(5) Inr n by simp
      then show ?thesis by (rule same_pending_trans [OF cl(1)])
    next
      case True
      show ?thesis
      proof (cases "la_bind a")
        case (Some e')
        then have "same_pending (websocket_server_close_fd fd (w1\<lparr>w_errno := e'\<rparr>)) w'"
          using 2(4) [OF Inr n [symmetric] _ Some] 2(5) Inr n True Some by simp
        then show ?thesis by (rule same_pending_trans [OF cl(2)])
      next
        case b: None
        show ?thesis
        proof (cases "la_listen a")
          case None
          then show ?thesis using 2(5) Inr n True b w1 by simp
        next
          case (Some e')
          then have "same_pending (websocket_server_close_fd fd (w1\<lparr>w_errno := e'\<rparr>)) w'"
            using 2(3) [OF Inr n [symmetric] _ b Some] 2(5) Inr n True b Some by simp
          then show ?thesis by (rule same_pending_trans [OF cl(2)])
        qed
      qed
    qed
  qed
qed simp

lemma create_listener_calm:
  assumes "websocket_server_create_listener E s = (fd, s')" "g_exception s = None"
  shows "calm s s'" "0 \<le> fd \<Longrightarrow> g_exception s' = None"
proof -
  let ?host = "case v_host s of Some b \<Rightarrow> b | None \<Rightarrow> []"
  have "calm s s' \<and> (0 \<le> fd \<longrightarrow> g_exception s' = None)"
  proof (cases "e_addresses E ?host (decimal_int (v_port s))")
    case (Inl m)
    then show ?thesis using assms calm_throw [OF calm_refl] by (auto simp: websocket_server_create_listener_def Let_def)
  next
    case (Inr addresses)
    obtain fd1 last_errno w where l: "listen_on addresses NoErrno (g_world s) = ((fd1, last_errno), w)" by (metis prod.collapse)
    have c: "calm s (s\<lparr>g_world := w\<rparr>)" using listen_on_pending [OF l] calm_world by (auto simp: same_pending_def same_driver_def)
    have ww: "with_world (listen_on addresses NoErrno) s = ((fd1, last_errno), s\<lparr>g_world := w\<rparr>)" by (simp add: with_world_def l)
    show ?thesis
      using assms(1) [unfolded websocket_server_create_listener_def Let_def Inr sum.case ww prod.case] c calm_throw [OF c] assms(2)
      by (cases "fd1 < 0") auto
  qed
  then show "calm s s'" "0 \<le> fd \<Longrightarrow> g_exception s' = None" by blast+
qed

text \<open>The listener stays what it is while connections are closed.\<close>

lemma php_step_listener: "php_step s s' \<Longrightarrow> v_listener_fd s' = v_listener_fd s"
  unfolding php_step_def using fixedD(8) by blast

lemma close_connection_at_listener:
  assumes "websocket_server_close_connection_at E i notify s = (ok, s')"
  shows "v_listener_fd s' = v_listener_fd s"
proof -
  have n: "v_listener_fd s2 = v_listener_fd s1" if "websocket_server_notify_connection_closed E h s1 = (b, s2)" for h b s1 s2
    using notify_cases [OF that] by (auto dest: php_step_listener simp: log_event_def update_conn_def put_conn_def)
  show ?thesis
    using assms n
    by (auto simp: websocket_server_close_connection_at_def Let_def websocket_server_unwatch_def
        php_step_listener [OF drop_connection_step] update_conn_def put_conn_def split: prod.splits if_splits option.splits)
qed

lemma close_all_listener:
  "websocket_server_close_all_connections E notify s = (ok, s') \<Longrightarrow> v_listener_fd s' = v_listener_fd s"
proof (induction E notify s rule: websocket_server_close_all_connections.induct)
  case (1 E notify s)
  then show ?case
    using close_connection_at_listener
    by (auto simp: websocket_server_close_all_connections.simps [of E notify s] split: if_splits prod.splits)
qed

lemma runtime_close_listener: "v_listener_fd (websocket_server_runtime_close E notify s) < 0"
proof -
  define s1 where "s1 = (if v_listener_fd s \<ge> 0
              then (close_fd_of (v_listener_fd s) (websocket_server_unwatch E (v_listener_fd s) s))\<lparr>v_listener_fd := -1\<rparr>
              else s)"
  have s1: "v_listener_fd s1 < 0" by (simp add: s1_def)
  obtain ok2 s2 where c: "websocket_server_close_all_connections E notify s1 = (ok2, s2)" by fastforce
  obtain ok3 s3 where c3: "websocket_server_close_all_connections E False s2 = (ok3, s3)" by fastforce
  have "websocket_server_runtime_close E notify s = (if \<not> ok2 then s3 else s2)"
    by (simp add: websocket_server_runtime_close_def c c3 flip: s1_def)
  then show ?thesis using close_all_listener [OF c] close_all_listener [OF c3] s1 by simp
qed

lemma runtime_run_runs:
  assumes "websocket_server_runtime_run E s = Some (ok, s')" "server_inv s" "g_exception s = None" "v_connections s = []"
  shows "runs s s' \<and> v_connections s' = [] \<and> v_listener_fd s' < 0"
proof -
  obtain fd s1 where cl: "websocket_server_create_listener E s = (fd, s1)" by fastforce
  note c1 = create_listener_calm [OF cl assms(3)]
  define s2 where "s2 = s1\<lparr>v_listener_fd := fd\<rparr>"
  have r2: "runs s s2" using runs_trans [OF calm_runs [OF c1(1)] listener_runs] by (simp add: s2_def)
  have f2: "v_connections s2 = []" using fixedD(10) [OF calmD(1) [OF c1(1)]] assms(4) by (simp add: s2_def)
  note run = assms(1) [unfolded websocket_server_runtime_run_def cl prod.case Let_def, folded s2_def]
  show ?thesis
  proof (cases "fd < 0")
    case True
    then have "s' = s2" using run by simp
    then show ?thesis using r2 f2 True by (simp add: s2_def)
  next
    case fd: False
    obtain ok3 s3 where w: "websocket_server_watch_read E fd s2 = (ok3, s3)" by fastforce
    obtain w3 where s3: "s3 = s2\<lparr>g_world := w3\<rparr>" "same_driver (g_world s2) w3"
      using watch_read_pending [OF w] by (auto simp: same_pending_def same_driver_def)
    have x3: "g_exception s3 = None" using c1(2) fd by (simp add: s3(1) s2_def)
    have "calm s2 s3" using calm_world [OF s3(2)] s3(1) by simp
    then have r3: "runs s s3" using runs_trans [OF r2 calm_runs] by blast
    have inv3: "server_inv s3" by (rule runs_inv [OF r3 assms(2)])
    note run2 = run [unfolded if_not_P [OF fd] w prod.case]
    show ?thesis
    proof (cases ok3)
      case False
      obtain e where s': "s' = websocket_server_runtime_close E False (throw_error e s3)" using run2 False by auto
      have t: "runs s (throw_error e s3)" using runs_trans [OF r3 calm_runs [OF calm_throw [OF calm_refl]]] by blast
      have x: "False \<longleftrightarrow> g_exception (throw_error e s3) = None" by simp
      note close = runtime_close_runs [OF runs_inv [OF t assms(2)] x, of E]
      show ?thesis using runs_trans [OF t close(1)] close(2) runtime_close_listener by (simp add: s')
    next
      case True
      obtain s4 where l: "server_loop E s3 = Some s4" and s': "s' = websocket_server_runtime_close E (g_exception s4 = None) s4"
        using run2 True by (auto split: option.splits)
      have r4: "runs s s4" using runs_trans [OF r3] server_loop_runs [OF l] inv3 x3 by blast
      show ?thesis
        using runs_trans [OF r4 runtime_close_runs(1) [OF runs_inv [OF r4 assms(2)]]]
          runtime_close_runs(2) [OF runs_inv [OF r4 assms(2)]] runtime_close_listener by (simp add: s')
    qed
  qed
qed

end
