(* ===== verification/Ws_Example.thy ===== *)
theory Ws_Example
  imports Ws_Run
begin

text \<open>
  Servers to run: a driver that reports a given list of descriptors, one client with a valid opening
  handshake, and whole runs of \<^verbatim>\<open>Server::run\<close> evaluated by the simplifier.
\<close>

subsection \<open>A client\<close>

definition queue_driver :: "int list websocket_driver" where
  "queue_driver = \<lparr>driver_name = ''queue'', driver_init = (\<lambda>(d, e). (True, d, e)),
     driver_shutdown = (\<lambda>de. de), driver_watch_read = (\<lambda>_ (d, e). (True, d, e)),
     driver_watch_write = (\<lambda>_ (d, e). (True, d, e)), driver_unwatch_write = (\<lambda>_ de. de),
     driver_unwatch = (\<lambda>_ de. de),
     driver_wait = (\<lambda>_ (d, e). case d of [] \<Rightarrow> ((0, None), [], e) | fd # fds \<Rightarrow> ((1, Some fd), fds, e))\<rparr>"


definition example_headers :: "(bytes \<times> bytes) list" where
  "example_headers =
     [(lit ''Upgrade'', lit ''websocket''), (lit ''Connection'', lit ''upgrade''),
      (lit ''Sec-WebSocket-Version'', lit ''13''), (lit ''Sec-WebSocket-Key'', lit ''key'')]"

definition example_request :: bytes where
  "example_request = request_text (lit ''GET'') (lit ''/'') (lit ''HTTP/1.1'') example_headers"

definition example_lib :: php_lib where
  "example_lib = \<lparr>lib_sha1 = (\<lambda>_. []), lib_base64_encode = (\<lambda>_. [75]), lib_base64_decode = (\<lambda>_. Some (replicate 16 0))\<rparr>"

definition example_upgrade :: websocket_http_upgrade where
  "example_upgrade = accepted_upgrade example_lib (Some []) (lit ''GET'') (lit ''/'') (lit ''HTTP/1.1'') example_headers"

text \<open>What the client sends: the request and some frames.\<close>

definition example_stream :: "bytes \<Rightarrow> bytes" where
  "example_stream frames = example_request @ frames"



lemma example_request_line: "request_line_ok (lit ''GET'') (lit ''/'') (lit ''HTTP/1.1'')" by (simp add: request_line_ok_def lit_def of_char_def websocket_http_equals_ci_def)
lemma example_headers_ok: "\<forall>h\<in>set example_headers. raw_header_ok h" by (simp add: raw_header_ok_def example_headers_def lit_def of_char_def)
lemma example_handshake_ok: "handshake_ok example_lib (map trimmed example_headers)" by (simp add: ws_eval trimmed_def lit_def of_char_def example_headers_def example_lib_def header_contains_token_from.simps)
lemma example_request_length: "length example_request = 106" by (simp add: ws_eval text_line_def header_line_def request_line_def lit_def of_char_def example_request_def example_headers_def CRLF_def)

lemma example_parse:
  assumes "length frames \<le> 1000"
  shows "websocket_http_parse_upgrade example_lib (example_stream frames) (Some []) websocket_http_upgrade_init = (UpgradeOk, example_upgrade)"
proof -
  have "example_headers \<noteq> []" by (simp add: example_headers_def)
  moreover have "length (example_stream frames) \<le> WEBSOCKET_HTTP_MAX_REQUEST_SIZE"
    using assms by (simp add: example_stream_def example_request_length WEBSOCKET_HTTP_MAX_REQUEST_SIZE_def)
  ultimately show ?thesis
    using parse_upgrade_request_text [OF example_request_line example_headers_ok, of "example_stream frames" frames example_lib "Some []" websocket_http_upgrade_init]
      parsed_headers_Ok_iff [OF refl, of example_lib "Some []"] example_handshake_ok
    by (simp add: example_stream_def example_request_def example_upgrade_def)
qed

text \<open>The surroundings: one address to listen on, with descriptor 3.\<close>

definition example_environment :: "int list environment" where
  "example_environment =
    \<lparr>e_driver = queue_driver, e_lib = example_lib,
     e_strerror = (\<lambda>_. []), e_addresses = (\<lambda>_ _. Inr [\<lparr>la_socket = Inr 3, la_bind = None, la_listen = None\<rparr>]),
     e_best_driver = None\<rparr>"


lemma queue_driver: "driver_name queue_driver = ''queue''" "driver_watch_read queue_driver fd de = (True, de)"
  "driver_watch_write queue_driver fd de = (True, de)" "driver_unwatch_write queue_driver fd de = de"
  "driver_unwatch queue_driver fd de = de" "driver_wait queue_driver t ([], e) = ((0, None), [], e)"
  "driver_wait queue_driver t (fd # fds, e) = ((1, Some fd), fds, e)"
  by (simp_all add: queue_driver_def split_beta)

lemma example_environment: "e_driver example_environment = queue_driver" "e_lib example_environment = example_lib"
  "e_strerror example_environment e = []"
  "e_addresses example_environment h p = Inr [\<lparr>la_socket = Inr 3, la_bind = None, la_listen = None\<rparr>]"
  "e_best_driver example_environment = None"
  by (simp_all add: example_environment_def)

lemma example_stream:
  "length frames \<le> 1000 \<Longrightarrow> take 4096 (example_stream frames) = example_stream frames"
  "length (example_stream frames) = 106 + length frames" "example_stream frames \<noteq> []"
  "drop 106 (example_stream frames) = frames"
  using example_request_length by (auto simp: example_stream_def)

lemma example_upgrade: "up_bytes_consumed example_upgrade = 106"
  "up_selected_subprotocol example_upgrade = None" "up_accept_key example_upgrade = Some [75]"
proof -
  show "up_bytes_consumed example_upgrade = 106"
    using example_request_length by (simp add: example_upgrade_def accepted_upgrade_def example_request_def)
  have v: "values_of ''Sec-WebSocket-Key'' (map trimmed example_headers) = [lit ''key'']"
    "values_of ''Sec-WebSocket-Protocol'' (map trimmed example_headers) = []"
    by (simp_all add: ws_eval trimmed_def lit_def of_char_def example_headers_def)
  show "up_selected_subprotocol example_upgrade = None" "up_accept_key example_upgrade = Some [75]"
    by (simp_all add: example_upgrade_def accepted_upgrade_def v websocket_http_validate_key_def
        websocket_protocol_accept_key_def example_lib_def)
qed

text \<open>
  A network with one client: \<open>ready\<close> are the descriptors the driver reports, one by one, \<open>sends\<close> and \<open>recvs\<close>
  what the calls on the client's socket, 7, do.
\<close>

definition example_network :: "int list \<Rightarrow> send_result list \<Rightarrow> recv_result list \<Rightarrow> int list world" where
  [ws_eval]: "example_network ready sends recvs =
    \<lparr>w_errno = NoErrno, w_driver = Some ready, w_sends = (\<lambda>_. sends), w_recvs = (\<lambda>_. recvs), w_closes = [],
     w_wire = (\<lambda>_. []), w_closed = [], w_peername = (\<lambda>_. Inl EBADF), w_getnameinfo = (\<lambda>_. None),
     w_accepts = [Accepted 7 None], w_fcntls = [], w_clock = []\<rparr>"

text \<open>A server with a handler for openings and closes that does nothing, ready to run.\<close>

definition example_server ::
    "(server_event list \<Rightarrow> nat \<Rightarrow> bytes \<Rightarrow> message_type \<Rightarrow> php_code) \<Rightarrow> int list world \<Rightarrow> int list websocket_server" where
  "example_server handler w =
    \<lparr>v_options = OptionsArray Map.empty, v_subprotocols = Some [], v_on_open = Some (\<lambda>_ _. Finish ReturnedNull),
     v_on_handshake = None, v_on_message = Some handler, v_on_close = Some (\<lambda>_ _. Finish ReturnedNull),
     v_on_error = None, v_on_open_param_count = 1, v_on_open_cache_initialized = True, v_host = Some [], v_port = 80,
     v_listening = True, v_running = False, v_listener_fd = -1, v_reusable_connection = None, v_connections = [],
     v_connection_capacity = 0, g_next_connection_id = 1, g_running = False, g_stopped = False, g_exception = None,
     g_world = w, g_objects = (\<lambda>_. websocket_connection_create_object), g_next_object = 0, g_kept = (\<lambda>_. 0),
     g_log = []\<rparr>"

lemmas run_eval = ws_eval example_environment queue_driver example_stream example_upgrade example_parse example_server_def
  server_loop.simps accept_loop.simps purge_from.simps websocket_server_close_all_connections.simps
  websocket_server_process_handshake.simps websocket_server_process_frame_reads.simps
  websocket_server_process_buffered_frames.simps websocket_server_send_bytes.simps websocket_connection_write_some.simps
  index_where.simps grow_read_capacity.simps mask_copy_bytes.simps utf8_loop.simps

text \<open>The handler sends each message back and stops the server.\<close>

definition echo_server :: "int list websocket_server" where
  "echo_server = example_server (\<lambda>_ h payload type. Call (ApiSend h payload (Some type)) (\<lambda>_. Call ApiStop (\<lambda>_. Finish ReturnedNull)))
     (example_network [3, 7] [Sent 1000, Sent 1000] [Received (example_stream [0x81, 0x82, 1, 2, 3, 4, 105, 107])])"

text \<open>The whole session: the 101 response and the echoed frame on the wire, the handlers in order, both sockets closed.\<close>

lemma echo_run: "case Server_run example_environment echo_server of
     None \<Rightarrow> False
   | Some s \<Rightarrow>
       g_log s = [CloseEvent 0, ApiEvent ApiStop ApiDone, ApiEvent (ApiSend 0 [104, 105] (Some Text)) ApiDone,
                  MessageEvent 0 [104, 105] Text, OpenEvent 0]
     \<and> w_wire (g_world s) 7 = websocket_http_upgrade_response [75] None @ [0x81, 2, 104, 105]
     \<and> w_closed (g_world s) = [7, 3] \<and> g_exception s = None"
  by (simp add: echo_server_def run_eval Let_def del: websocket_http_parse_upgrade_def websocket_http_upgrade_init_def)

end
