(* ===== verification/Ws_Guarantees.thy ===== *)
theory Ws_Guarantees
  imports Ws_Example
begin

text \<open>
  What a PHP program can rely on when it runs a server.
\<close>

subsection \<open>From a fresh server to the return of \<^verbatim>\<open>Server::run\<close>\<close>

definition fresh_server :: "'d websocket_server \<Rightarrow> bool" where
  "fresh_server s \<longleftrightarrow> v_connections s = [] \<and> v_reusable_connection s = None \<and> v_listener_fd s < 0
     \<and> g_exception s = None \<and> g_log s = [] \<and> g_objects s = (\<lambda>_. websocket_connection_create_object)"

lemma fresh_inv:
  assumes "fresh_server s"
  shows "server_inv s" "fds_owned s" "told s"
proof -
  have "buffer_ok n websocket_connection_create_object" "fragment_ok websocket_connection_create_object"
    "queue_ok websocket_connection_create_object" for n
    by (simp_all add: buffer_ok_def fragment_ok_def websocket_connection_create_object_def queue_ok_empty)
  then show "server_inv s" "fds_owned s" "told s"
    using assms
    by (simp_all add: fresh_server_def server_inv_def list_inv_def conns_inv_def phase_inv_def log_inv_def conn_phase_ok_def fds_owned_def told_def)
      (simp_all add: websocket_connection_create_object_def)
qed

definition started :: "'d environment \<Rightarrow> 'd websocket_server \<Rightarrow> 'd websocket_server" where
  "started E s = (let s = (if w_driver (g_world s) = None
                 then s\<lparr>g_world := (g_world s)\<lparr>w_driver := e_best_driver E\<rparr>\<rparr> else s)
     in s\<lparr>g_running := True, g_stopped := False, v_running := True\<rparr>)"

lemma started_inv:
  "server_inv s \<Longrightarrow> server_inv (started E s)" "fds_owned s \<Longrightarrow> fds_owned (started E s)"
  "told s \<Longrightarrow> told (started E s)"
  "g_exception (started E s) = g_exception s" "v_connections (started E s) = v_connections s" "g_log (started E s) = g_log s"
  "v_options (started E s) = v_options s" "v_on_open (started E s) = v_on_open s" "v_on_close (started E s) = v_on_close s"
  by (simp_all add: started_def Let_def server_inv_def list_inv_def conns_inv_def phase_inv_def log_inv_def fds_owned_def told_def)

lemma Server_run_cases:
  assumes "Server_run E s = Some s'"
  obtains (refused) w e where "s' = throw_error e (s\<lparr>g_world := w\<rparr>)"
  | (ran) ok s1 where "websocket_server_runtime_run E (started E s) = Some (ok, s1)" "s' = s1\<lparr>v_running := False, g_running := False\<rparr>"
proof (cases "g_running s \<or> \<not> v_listening s")
  case True
  have "throw_error e s = throw_error e (s\<lparr>g_world := g_world s\<rparr>)" for e by simp
  then show thesis using assms True refused [of _ "g_world s"] by (auto simp: Server_run_def split: if_splits)
next
  case False
  define s0 where "s0 = (if w_driver (g_world s) = None then s\<lparr>g_world := (g_world s)\<lparr>w_driver := e_best_driver E\<rparr>\<rparr> else s)"
  have st: "started E s = s0\<lparr>g_running := True, g_stopped := False, v_running := True\<rparr>" by (simp add: started_def s0_def Let_def)
  note run = assms [unfolded Server_run_def Let_def, folded s0_def, folded st]
  show thesis
  proof (cases "w_driver (g_world s0) = None")
    case True
    have "s0 = s\<lparr>g_world := g_world s0\<rparr>" by (simp add: s0_def)
    then show thesis using run False True refused [of _ "g_world s0"] by auto
  next
    case d: False
    show thesis using run False d ran by auto
  qed
qed

text \<open>What no move changes: the set-up; and the log only grows, with the server stopped once
  \<^verbatim>\<open>stop\<close> is in it.\<close>

definition grows :: "'d websocket_server \<Rightarrow> 'd websocket_server \<Rightarrow> bool" where
  "grows s s' \<longleftrightarrow> v_options s' = v_options s \<and> v_on_open s' = v_on_open s \<and> v_on_close s' = v_on_close s \<and> stops_only s s'
     \<and> (\<exists>es. g_log s' = es @ g_log s \<and> (stop_called es \<longrightarrow> g_stopped s'))"

lemma grows_trans:
  assumes "grows s s'" "grows s' s''"
  shows "grows s s''"
proof -
  have stops: "g_stopped s' \<longrightarrow> g_stopped s''" using assms by (simp add: grows_def stops_only_def)
  have "stops_only s s''" using assms by (auto simp: grows_def stops_only_def)
  moreover obtain es es' where "g_log s' = es @ g_log s" "stop_called es \<longrightarrow> g_stopped s'"
      "g_log s'' = es' @ g_log s'" "stop_called es' \<longrightarrow> g_stopped s''"
    using assms unfolding grows_def by blast
  then have "\<exists>es. g_log s'' = es @ g_log s \<and> (stop_called es \<longrightarrow> g_stopped s'')"
    using stops by (intro exI [of _ "es' @ es"]) auto
  ultimately show ?thesis using assms by (simp add: grows_def)
qed

lemma move_grows: "move s s' \<Longrightarrow> grows s s'"
proof (induction rule: move.induct)
  case (Session s s')
  then have "keeps s s'" by (rule session_move_keeps)
  then have f: "fixed s' = fixed s" and r: "stops_only s s'" "\<exists>es. g_log s' = es @ g_log s \<and> (stop_called es \<longrightarrow> g_stopped s')"
    unfolding keeps_def by blast+
  then show ?case using fixedD(1,3,6) [OF f] by (simp add: grows_def)
next
  case (Accept s ok s')
  then show ?case unfolding added_def by (auto simp: grows_def stops_only_def)
next
  case (Remove i s s')
  then show ?case by (simp add: grows_def stops_only_def) (simp add: update_conn_def put_conn_def)
qed (simp add: grows_def stops_only_def)

lemma moves_grow: "moves s s' \<Longrightarrow> grows s s'"
proof (induction rule: rtranclp_induct)
  case base
  show ?case by (simp add: grows_def stops_only_def)
next
  case (step y z)
  then show ?case using move_grows grows_trans by blast
qed

lemma Server_run_result:
  assumes "Server_run E s = Some s'" "fresh_server s"
  shows "server_inv s'" "fds_owned s'" "told s'" "v_connections s' = []" "v_listener_fd s' < 0"
    "v_options s' = v_options s" "v_on_open s' = v_on_open s" "v_on_close s' = v_on_close s"
proof -
  note inv = fresh_inv [OF assms(2)]
  have f: "g_exception s = None" "v_connections s = []" "v_listener_fd s < 0" using assms(2) by (simp_all add: fresh_server_def)
  have "server_inv s' \<and> fds_owned s' \<and> told s' \<and> v_connections s' = [] \<and> v_listener_fd s' < 0
      \<and> v_options s' = v_options s \<and> v_on_open s' = v_on_open s \<and> v_on_close s' = v_on_close s"
    using assms(1)
  proof (cases rule: Server_run_cases)
    case (refused w e)
    have "phase_inv s'" using inv(1) by (auto simp: refused server_inv_def phase_inv_def throw_error_def intro: phase_ok_mono)
    then show ?thesis using inv f
      by (simp add: refused server_inv_def list_inv_def conns_inv_def log_inv_def fds_owned_def told_def throw_error_def)
  next
    case (ran ok s1)
    note st = started_inv(4-9) [of E s]
    have r: "runs (started E s) s1 \<and> v_connections s1 = [] \<and> v_listener_fd s1 < 0"
      using runtime_run_runs [OF ran(1) started_inv(1) [OF inv(1)]] st f by simp
    have i: "server_inv s1" using runs_inv [OF _ started_inv(1) [OF inv(1)]] r by blast
    have "fds_owned s1" "told s1" using r started_inv(1-3) [of s E] inv by (simp_all add: runs_def)
    moreover have "v_options s1 = v_options s" "v_on_open s1 = v_on_open s" "v_on_close s1 = v_on_close s"
      using moves_grow [of "started E s" s1] r st by (simp_all add: runs_def grows_def)
    ultimately show ?thesis using r i
      by (simp add: ran(2) server_inv_def list_inv_def conns_inv_def phase_inv_def log_inv_def fds_owned_def told_def)
  qed
  then show "server_inv s'" "fds_owned s'" "told s'" "v_connections s' = []" "v_listener_fd s' < 0"
    "v_options s' = v_options s" "v_on_open s' = v_on_open s" "v_on_close s' = v_on_close s"
    by blast+
qed

text \<open>The states of the loop's condition in a run of \<open>s\<close>.\<close>

inductive loop_head :: "'d environment \<Rightarrow> 'd websocket_server \<Rightarrow> 'd websocket_server \<Rightarrow> bool" for E s where
  Entry: "\<lbrakk>websocket_server_create_listener E (started E s) = (fd, s1); 0 \<le> fd;
     websocket_server_watch_read E fd (s1\<lparr>v_listener_fd := fd\<rparr>) = (True, t)\<rbrakk> \<Longrightarrow> loop_head E s t"
| Turn: "\<lbrakk>loop_head E s t; v_running t; \<not> g_stopped t; loop_turn E t = (True, t')\<rbrakk> \<Longrightarrow> loop_head E s t'"

lemma loop_head_runs:
  assumes "loop_head E s t" "server_inv (started E s)" "g_exception s = None"
  shows "runs (started E s) t \<and> server_inv t \<and> g_exception t = None"
  using assms
proof (induction rule: loop_head.induct)
  case (Entry fd s1 t)
  have x: "g_exception (started E s) = None" using Entry.prems(2) by (simp add: started_inv)
  note c1 = create_listener_calm [OF Entry(1) x]
  obtain w where t: "t = s1\<lparr>v_listener_fd := fd\<rparr>\<lparr>g_world := w\<rparr>" "same_driver (g_world s1) w"
    using watch_read_pending [OF Entry(3)] by (auto simp: same_pending_def same_driver_def)
  have "runs s1 t" using runs_trans [OF listener_runs calm_runs [OF calm_world]] t by simp
  then have r: "runs (started E s) t" using runs_trans [OF calm_runs [OF c1(1)]] by blast
  then show ?case using runs_inv [OF r Entry.prems(1)] c1(2) Entry(2) by (simp add: t)
next
  case (Turn t t')
  then have t: "runs (started E s) t" "server_inv t" "g_exception t = None" by simp_all
  have "runs t t' \<and> g_exception t' = None" using loop_turn_runs [OF Turn(4) t(2,3)] by simp
  then show ?case using runs_trans [OF t(1)] runs_inv [OF _ t(2)] by blast
qed

text \<open>What can be seen of a run: the state it returns with, or, while it goes on and perhaps never returns,
  the state at the head of any turn of the loop.\<close>

definition observed :: "'d environment \<Rightarrow> 'd websocket_server \<Rightarrow> 'd websocket_server \<Rightarrow> bool" where
  "observed E s s' \<longleftrightarrow> Server_run E s = Some s' \<or> loop_head E s s'"

lemma observed_inv:
  assumes "observed E s s'" "fresh_server s"
  shows "server_inv s'" "v_options s' = v_options s" "v_on_open s' = v_on_open s"
proof -
  have "server_inv s' \<and> v_options s' = v_options s \<and> v_on_open s' = v_on_open s"
    using assms(1) unfolding observed_def
  proof
    assume "Server_run E s = Some s'"
    then show ?thesis using Server_run_result(1,6,7) [OF _ assms(2)] by blast
  next
    assume h: "loop_head E s s'"
    have "g_exception s = None" using assms(2) by (simp add: fresh_server_def)
    then have r: "runs (started E s) s'" "server_inv s'"
      using loop_head_runs [OF h started_inv(1) [OF fresh_inv(1) [OF assms(2)]]] by blast+
    then show ?thesis using moves_grow [of "started E s" s'] by (simp add: runs_def grows_def started_inv)
  qed
  then show "server_inv s'" "v_options s' = v_options s" "v_on_open s' = v_on_open s" by blast+
qed

text \<open>C1. Whatever a peer sends, the \<^verbatim>\<open>onMessage\<close> handler is only ever given messages of type Text
  or Binary, of at most \<^verbatim>\<open>maxMessageSize\<close> bytes, and a Text message is the UTF-8 encoding of a
  sequence of Unicode scalar values, however the message was cut into frames and reads. This holds of
  a run that returns and, at every turn of the loop, of one that does not.\<close>

theorem messages_are_valid:
  assumes "observed E s s'" "fresh_server s" "MessageEvent h payload t \<in> set (g_log s')"
  shows "length payload \<le> websocket_server_max_message_size (v_options s)
     \<and> (t = Text \<and> utf8_text payload \<or> t = Binary)"
proof -
  have "list_all (event_ok (v_options s)) (g_log s')"
    using observed_inv [OF assms(1,2)] by (simp add: server_inv_def log_inv_def)
  then have "event_ok (v_options s) (MessageEvent h payload t)" using assms(3) by (simp only: list_all_iff)
  then show ?thesis by (simp add: message_ok_def)
qed


lemma fresh_echo: "fresh_server echo_server"
  by (simp add: fresh_server_def echo_server_def example_server_def)

lemma echo_result:
  obtains s where "Server_run example_environment echo_server = Some s"
    "g_log s = [CloseEvent 0, ApiEvent ApiStop ApiDone, ApiEvent (ApiSend 0 [104, 105] (Some Text)) ApiDone,
                MessageEvent 0 [104, 105] Text, OpenEvent 0]"
  using echo_run by (auto split: option.splits)

theorem messages_are_valid_witness:
  "\<exists>s. Server_run example_environment echo_server = Some s \<and> MessageEvent 0 [104, 105] Text \<in> set (g_log s)
     \<and> utf8_text [104, 105]"
proof -
  obtain s where s: "Server_run example_environment echo_server = Some s"
    "g_log s = [CloseEvent 0, ApiEvent ApiStop ApiDone, ApiEvent (ApiSend 0 [104, 105] (Some Text)) ApiDone,
                MessageEvent 0 [104, 105] Text, OpenEvent 0]" by (rule echo_result)
  have "MessageEvent 0 [104, 105] Text \<in> set (g_log s)" by (simp add: s(2))
  moreover have "observed example_environment echo_server s" using s(1) by (simp add: observed_def)
  ultimately show ?thesis using messages_are_valid [OF _ fresh_echo] s(1) by blast
qed

text \<open>C2. The handlers of one connection are called in order: the handshake handler at most once, then
  \<^verbatim>\<open>onOpen\<close> at most once, then the messages, then \<^verbatim>\<open>onClose\<close> at most once and nothing after it; if
  there is an \<^verbatim>\<open>onOpen\<close> handler, no message and no close comes before it. This holds of a run that
  returns and, at every turn of the loop, of one that does not.\<close>

theorem sessions_in_order:
  assumes "observed E s s'" "fresh_server s"
  shows "session_phase (v_on_open s \<noteq> None) h (g_log s') \<noteq> None"
proof -
  have "conn_phase_ok (v_on_open s \<noteq> None) (g_exception s' \<noteq> None) (conn s' h) (session_phase (v_on_open s \<noteq> None) h (g_log s'))"
    using observed_inv [OF assms] unfolding server_inv_def phase_inv_def by metis
  then show ?thesis by (auto simp: conn_phase_ok_def split: if_splits)
qed

theorem sessions_in_order_witness:
  "\<exists>s. Server_run example_environment echo_server = Some s \<and> session_phase True 0 (g_log s) \<noteq> None"
proof -
  obtain s where s: "Server_run example_environment echo_server = Some s" by (rule echo_result)
  have "v_on_open echo_server \<noteq> None" by (simp add: echo_server_def example_server_def)
  moreover have "observed example_environment echo_server s" using s by (simp add: observed_def)
  ultimately show ?thesis using sessions_in_order [OF _ fresh_echo, of example_environment s 0] s by simp
qed



lemma session_events:
  assumes "session_phase opens h es = Some p"
  shows "OpenEvent h \<in> set es \<or> MessageEvent h m t \<in> set es \<Longrightarrow> p = Live \<or> p = Closed"
    "p = Closed \<Longrightarrow> CloseEvent h \<in> set es"
proof -
  have "(OpenEvent h \<in> set es \<or> MessageEvent h m t \<in> set es \<longrightarrow> p = Live \<or> p = Closed) \<and> (p = Closed \<longrightarrow> CloseEvent h \<in> set es)"
    using assms
  proof (induction es arbitrary: p)
    case (Cons e es)
    then obtain q where q: "session_phase opens h es = Some q" "phase_step opens h e q = Some p" by (auto split: bind_splits)
    show ?case using Cons.IH [OF q(1)] q(2) by (cases e) (auto split: if_splits)
  qed simp
  then show "OpenEvent h \<in> set es \<or> MessageEvent h m t \<in> set es \<Longrightarrow> p = Live \<or> p = Closed"
    "p = Closed \<Longrightarrow> CloseEvent h \<in> set es" by blast+
qed

text \<open>C6. A session that was opened is closed: if a run ends without an exception and there is an \<^verbatim>\<open>onClose\<close>
  handler, then every connection that \<^verbatim>\<open>onOpen\<close> or \<^verbatim>\<open>onMessage\<close> was called for has had its \<^verbatim>\<open>onClose\<close> call.\<close>

theorem sessions_are_closed:
  assumes "Server_run E s = Some s'" "fresh_server s" "v_on_close s \<noteq> None" "g_exception s' = None"
    and "OpenEvent h \<in> set (g_log s') \<or> MessageEvent h payload t \<in> set (g_log s')"
  shows "CloseEvent h \<in> set (g_log s')"
proof -
  note r = Server_run_result [OF assms(1,2)]
  let ?p = "session_phase (v_on_open s \<noteq> None) h (g_log s')"
  have c: "conn_phase_ok (v_on_open s \<noteq> None) False (conn s' h) ?p"
    using r(1) assms(4) unfolding server_inv_def phase_inv_def r(7) by simp
  then obtain p where p: "?p = Some p" by (auto simp: conn_phase_ok_def split: if_splits)
  have live: "p = Live \<or> p = Closed" using session_events(1) [OF p] assms(5) by blast
  note c' = c [unfolded p]
  have "c_upgraded (conn s' h)" using c' live by (auto simp: conn_phase_ok_def split: if_splits)
  then have "c_close_notified (conn s' h)" using r(3,4,8) assms(3,4) by (simp add: told_def)
  then have "p = Closed" using c' by (simp add: conn_phase_ok_def)
  then show ?thesis by (rule session_events(2) [OF p])
qed

theorem sessions_are_closed_witness:
  "\<exists>s. Server_run example_environment echo_server = Some s \<and> OpenEvent 0 \<in> set (g_log s) \<and> CloseEvent 0 \<in> set (g_log s)"
proof -
  obtain s where s: "Server_run example_environment echo_server = Some s" "OpenEvent 0 \<in> set (g_log s)" "g_exception s = None"
    using echo_run by (auto split: option.splits)
  have "v_on_close echo_server \<noteq> None" by (simp add: echo_server_def example_server_def)
  from sessions_are_closed [OF s(1) fresh_echo this s(3)] s show ?thesis by blast
qed

end
