(* ===== verification/Ws_Turns.thy ===== *)
theory Ws_Turns
  imports Ws_Guarantees
begin

text \<open>
  The loop of the server, turn by turn: what holds whenever it waits, when it ends, and what a
  client that is one too many, or one that breaks off, makes it do.
\<close>

subsection \<open>The loop as turns\<close>

text \<open>At most \<open>n\<close> turns; \<open>None\<close> if the loop is not over by then.\<close>

primrec server_turns :: "nat \<Rightarrow> 'd environment \<Rightarrow> 'd websocket_server \<Rightarrow> 'd websocket_server option" where
  "server_turns 0 E s = None"
| "server_turns (Suc n) E s =
    (if v_running s \<and> \<not> g_stopped s then
       (case loop_turn E s of (continue, s) \<Rightarrow> if continue then server_turns n E s else Some s)
     else Some s)"

lemma server_loop_turns:
  assumes "server_loop E s = Some s'"
  shows "\<exists>n. server_turns n E s = Some s'"
proof (rule server_loop.raw_induct [of "\<lambda>E s s'. \<exists>n. server_turns n E s = Some s'", OF _ assms])
  fix loop :: "'a environment \<Rightarrow> 'a websocket_server \<Rightarrow> 'a websocket_server option" and E s s'
  assume IH: "\<And>E s s'. loop E s = Some s' \<Longrightarrow> \<exists>n. server_turns n E s = Some s'"
    and run: "(if v_running s \<and> \<not> g_stopped s then case loop_turn E s of (continue, s) \<Rightarrow> if continue then loop E s else Some s
       else Some s) = Some s'"
  show "\<exists>n. server_turns n E s = Some s'"
  proof (cases "v_running s \<and> \<not> g_stopped s \<and> fst (loop_turn E s)")
    case True
    then have "loop E (snd (loop_turn E s)) = Some s'" using run by (simp add: split_beta)
    then obtain n where "server_turns n E (snd (loop_turn E s)) = Some s'" using IH by blast
    then have "server_turns (Suc n) E s = Some s'" using True by (simp add: split_beta)
    then show ?thesis by blast
  next
    case False
    then have "server_turns (Suc 0) E s = Some s'" using run by (auto simp: split_beta split: if_splits)
    then show ?thesis by blast
  qed
qed

lemma turns_server_loop: "server_turns n E s = Some s' \<Longrightarrow> server_loop E s = Some s'"
proof (induction n arbitrary: s)
  case (Suc n)
  then show ?case
    by (subst server_loop.simps) (auto split: if_splits prod.splits)
qed simp


subsection \<open>Whenever the server waits\<close>

text \<open>C7. Whenever the server waits, its state is within its bounds: the list of connections has no
  duplicates, is as long as its array and \<^verbatim>\<open>maxConnections\<close> allow, and holds every open connection; no
  read buffer is longer than its capacity nor that than a request or a frame may be; no queue holds more
  bytes than its limit; and no exception is pending.\<close>

theorem waits_within_bounds:
  assumes "loop_head E s t" "fresh_server s"
  shows "distinct (v_connections t) \<and> length (v_connections t) \<le> v_connection_capacity t
     \<and> length (v_connections t) \<le> websocket_server_max_connections (v_options s)
     \<and> (c_open (conn t h) \<longrightarrow> h \<in> set (v_connections t))
     \<and> length (c_read_buffer (conn t h)) \<le> c_read_buffer_capacity (conn t h)
     \<and> c_read_buffer_capacity (conn t h) \<le> read_bound (v_options s)
     \<and> c_queued_bytes (conn t h) \<le> c_max_queued_bytes (conn t h)
     \<and> length (pending (conn t h)) = c_queued_bytes (conn t h)
     \<and> g_exception t = None"
proof -
  have f: "server_inv (started E s)" "g_exception s = None"
    using fresh_inv(1) [OF assms(2)] started_inv(1) assms(2) by (simp_all add: fresh_server_def) blast
  note h = loop_head_runs [OF assms(1) f]
  have "v_options t = v_options s"
    using moves_grow [of "started E s" t] h by (simp add: runs_def grows_def started_inv)
  moreover have "buffer_ok (read_bound (v_options t)) (conn t h)" "queue_ok (conn t h)"
    using h by (simp_all add: server_inv_def conns_inv_def)
  ultimately show ?thesis using h by (simp add: server_inv_def list_inv_def buffer_ok_def queue_ok_def)
qed

text \<open>The first wait of the run of \<open>echo_server\<close>.\<close>

definition echo_waiting :: "int list websocket_server" where
  "echo_waiting = (started example_environment echo_server)\<lparr>v_listener_fd := 3\<rparr>"

lemma echo_waiting: "loop_head example_environment echo_server echo_waiting"
  by (rule loop_head.Entry [of _ _ 3 "started example_environment echo_server"])
    (simp_all add: echo_waiting_def echo_server_def started_def run_eval Let_def)

lemma echo_turn:
  obtains t where "loop_turn example_environment echo_waiting = (True, t)"
    "g_log t = [ApiEvent ApiStop ApiDone, ApiEvent (ApiSend 0 [104, 105] (Some Text)) ApiDone,
                MessageEvent 0 [104, 105] Text, OpenEvent 0] @ g_log echo_waiting"
    "v_connections t = [0]" "c_queued_bytes (conn t 0) = 0"
proof -
  have "case loop_turn example_environment echo_waiting of (continue, t) \<Rightarrow>
      continue \<and> g_log t = [ApiEvent ApiStop ApiDone, ApiEvent (ApiSend 0 [104, 105] (Some Text)) ApiDone,
                MessageEvent 0 [104, 105] Text, OpenEvent 0] @ g_log echo_waiting
      \<and> v_connections t = [0] \<and> c_queued_bytes (conn t 0) = 0"
    by (simp add: echo_waiting_def started_def echo_server_def run_eval Let_def
        del: websocket_http_parse_upgrade_def websocket_http_upgrade_init_def)
  then show thesis using that by (auto split: prod.splits)
qed

lemma echo_running: "v_running echo_waiting" "\<not> g_stopped echo_waiting"
  by (simp_all add: echo_waiting_def started_def Let_def)

theorem waits_within_bounds_witness:
  "\<exists>t. loop_head example_environment echo_server t \<and> v_connections t = [0] \<and> c_read_buffer_capacity (conn t 0) \<le> 16781326"
proof -
  obtain t where t: "loop_turn example_environment echo_waiting = (True, t)" "v_connections t = [0]" by (rule echo_turn)
  have h: "loop_head example_environment echo_server t" by (rule loop_head.Turn [OF echo_waiting echo_running t(1)])
  have "read_bound (v_options echo_server) = 16781326"
    by (simp add: read_bound_def echo_server_def example_server_def ws_eval)
  then show ?thesis using waits_within_bounds [OF h fresh_echo, of 0] h t(2) by auto
qed

text \<open>C14. Once a handler has called \<^verbatim>\<open>Server::stop\<close>, the loop ends with the turn the call was made in.\<close>

theorem stop_ends_the_loop:
  assumes "loop_head E s t" "fresh_server s" "v_running t" "\<not> g_stopped t"
    and "loop_turn E t = (continue, t')" "g_log t' = es @ g_log t" "ApiEvent ApiStop r \<in> set es"
  shows "server_loop E t = Some t'"
proof -
  have f: "server_inv (started E s)" "g_exception s = None"
    using fresh_inv(1) [OF assms(2)] started_inv(1) assms(2) by (simp_all add: fresh_server_def) blast
  have t: "server_inv t" "g_exception t = None" using loop_head_runs [OF assms(1) f] by simp_all
  have "runs t t'" using loop_turn_runs [OF assms(5) t] by simp
  then obtain es' where "g_log t' = es' @ g_log t" "stop_called es' \<longrightarrow> g_stopped t'"
    using moves_grow by (auto simp: runs_def grows_def)
  moreover have "stop_called es" using assms(7) by (auto simp: stop_called_def list_ex_iff intro: bexI [of _ "ApiEvent ApiStop r"])
  ultimately have "g_stopped t'" using assms(6) by simp
  then have "server_loop E t' = Some t'" by (subst server_loop.simps) simp
  then show ?thesis using assms(3-5) by (subst server_loop.simps) simp
qed

theorem stop_ends_the_loop_witness:
  "\<exists>t. loop_turn example_environment echo_waiting = (True, t) \<and> server_loop example_environment echo_waiting = Some t"
proof -
  obtain t where t: "loop_turn example_environment echo_waiting = (True, t)"
    "g_log t = [ApiEvent ApiStop ApiDone, ApiEvent (ApiSend 0 [104, 105] (Some Text)) ApiDone,
                MessageEvent 0 [104, 105] Text, OpenEvent 0] @ g_log echo_waiting" by (rule echo_turn)
  from stop_ends_the_loop [OF echo_waiting fresh_echo echo_running t, of ApiDone] t(1) show ?thesis by simp
qed

subsection \<open>One client too many\<close>


text \<open>A server for one connection, which it has.\<close>

definition full_server :: "int list websocket_server" where
  "full_server = (example_server (\<lambda>_ _ _ _. Finish ReturnedNull) (example_network [] [Sent 5, SendFailed EPIPE] []))
     \<lparr>v_options := OptionsArray [''maxConnections'' \<mapsto> 1], v_connections := [0]\<rparr>"


subsection \<open>A client that breaks off\<close>

text \<open>The client has sent a PING and is gone: its PONG cannot be sent. The driver has more to report.\<close>

definition ping_server :: "int list websocket_server" where
  "ping_server = example_server (\<lambda>_ _ _ _. Finish ReturnedNull)
     (example_network [3, 7, 3, 3, 3] [Sent 1000, SendFailed EPIPE] [Received (example_stream [0x89, 0x80, 1, 2, 3, 4])])"


end
