(* ===== verification/Ws_Messages.thy ===== *)
theory Ws_Messages
  imports Ws_Turns
begin

text \<open>
  How a message arrives: the frames it was cut into are put together again, whole and in order.
\<close>

subsection \<open>Messages in fragments\<close>

text \<open>The frames of a message: the first has the opcode, the others are continuations, the last is final.
  Each piece has a masking key of its own.\<close>

fun fragment_frames :: "byte \<Rightarrow> (bytes \<times> bytes) list \<Rightarrow> bytes" where
  "fragment_frames opcode [] = []"
| "fragment_frames opcode [(key, piece)] = client_frame (0x80 OR opcode) key piece"
| "fragment_frames opcode ((key, piece) # pieces) = client_frame opcode key piece @ fragment_frames OPCODE_CONTINUATION pieces"

definition message_of :: "(bytes \<times> bytes) list \<Rightarrow> bytes" where
  "message_of pieces = concat (map snd pieces)"

text \<open>What the server is ready to read from a connection.\<close>

definition readable :: "'d websocket_server \<Rightarrow> nat \<Rightarrow> bool" where
  "readable s h \<longleftrightarrow> c_open (conn s h) \<and> \<not> c_close_after_write (conn s h) \<and> c_upgraded (conn s h)"

lemma process_frame:
  assumes "readable s h" "c_read_buffer (conn s h) = client_frame b0 key payload @ rest" "length key = 4"
    "length payload < 2 ^ 63" "client_frame_ok b0 payload (websocket_server_max_message_size (v_options s))"
  shows "websocket_server_process_buffered_frames E h s =
    (case websocket_server_handle_frame E h
            \<lparr>sf_opcode = b0 AND 0x0f, sf_final = bit b0 7, sf_bytes_consumed = length (client_frame b0 key payload), sf_payload = Some payload\<rparr>
            (put_conn h ((conn s h)\<lparr>c_read_buffer := rest\<rparr>) s) of
       (ok, s') \<Rightarrow> if \<not> ok then (False, s') else websocket_server_process_buffered_frames E h s')"
proof -
  have "client_frame b0 key payload \<noteq> []" by (simp add: client_frame_def raw_frame_def)
  moreover have "update_conn (websocket_connection_discard_read_bytes (length (client_frame b0 key payload))) h s
      = put_conn h ((conn s h)\<lparr>c_read_buffer := rest\<rparr>) s"
    using assms(2) by (simp add: update_conn_def websocket_connection_discard_read_bytes_def)
  ultimately show ?thesis
    using assms(1,2) parse_client_frame(1) [OF assms(5,3,4), of rest]
    by (subst websocket_server_process_buffered_frames.simps) (simp add: Let_def readable_def)
qed

definition delivers :: "nat \<Rightarrow> bytes \<Rightarrow> message_type \<Rightarrow> 'd websocket_server \<Rightarrow> 'd websocket_server \<Rightarrow> bool" where
  "delivers h message t s s' \<longleftrightarrow> (\<exists>es. g_log s' = es @ MessageEvent h message t # g_log s)"

lemma message_handler_delivers:
  assumes "websocket_server_call_message_handler E h message opcode s = (ok, s')" "v_on_message s \<noteq> None"
    "websocket_protocol_message_type_from_opcode opcode = Some t"
  shows "delivers h message t s s'"
proof -
  obtain handler where h: "v_on_message s = Some handler" using assms(2) by blast
  obtain out s1 where c: "call_with_conn E 2 h (handler (g_log s) h message t) (log_event (MessageEvent h message t) s) = (out, s1)" by fastforce
  obtain es where "g_log s1 = es @ MessageEvent h message t # g_log s"
    using call_with_conn_step [OF c] unfolding php_step_def by auto
  moreover have "g_log s' = g_log s1" using assms(1,3) h c by (auto simp: websocket_server_call_message_handler_def split: if_splits)
  ultimately show ?thesis by (auto simp: delivers_def)
qed

lemma delivers_later:
  assumes "delivers h message t s s1" "g_log s2 = g_log s1" "websocket_server_process_buffered_frames E h s2 = (ok, s')"
  shows "delivers h message t s s'"
  using assms process_buffered_step [OF assms(3)] unfolding delivers_def server_step_def by auto

lemma data_opcode_ok:
  assumes "opcode \<in> {0, 1, 2 :: byte}" "length payload \<le> n"
  shows "client_frame_ok opcode payload n" "client_frame_ok (0x80 OR opcode) payload n"
    "opcode AND 0x0f = opcode" "(0x80 OR opcode) AND 0x0f = opcode" "\<not> bit opcode 7" "bit (0x80 OR opcode) 7"
  using assms by (auto simp: client_frame_ok_def)

lemma append_fragment:
  assumes "c_fragmented_payload c = Some before" "length before + length piece \<le> n"
  shows "websocket_server_append_fragment piece n c = (True, c\<lparr>c_fragmented_payload := Some (before @ piece)\<rparr>)"
proof -
  have "\<not> (length piece > n \<or> length before > n - length piece)" using assms(2) by auto
  then show ?thesis using assms(1) by (cases c) (auto simp: websocket_server_append_fragment_def Let_def)
qed

text \<open>What a continuation does: it is appended, and the last one hands the message over.\<close>

lemma handle_continuation:
  assumes "c_fragmented (conn s h)" "c_fragmented_payload (conn s h) = Some before"
    "length before + length piece \<le> websocket_server_max_message_size (v_options s)" "g_exception s = None"
  defines "s1 \<equiv> put_conn h ((conn s h)\<lparr>c_fragmented_payload := Some (before @ piece)\<rparr>) s"
  shows "websocket_server_handle_frame E h \<lparr>sf_opcode = 0, sf_final = False, sf_bytes_consumed = n, sf_payload = Some piece\<rparr> s = (True, s1)"
    "\<lbrakk>c_fragmented_opcode (conn s h) = OPCODE_TEXT \<longrightarrow> websocket_protocol_is_valid_utf8 (before @ piece);
      websocket_server_call_message_handler E h (before @ piece) (c_fragmented_opcode (conn s h)) s1 = (ok, s2)\<rbrakk> \<Longrightarrow>
     websocket_server_handle_frame E h \<lparr>sf_opcode = 0, sf_final = True, sf_bytes_consumed = n, sf_payload = Some piece\<rparr> s
       = (ok \<and> g_exception s2 = None, update_conn websocket_server_clear_fragment h s2)"
  using assms append_fragment [OF assms(2,3)]
  by (auto simp: websocket_server_handle_frame_def websocket_server_handle_data_frame_def Let_def split: prod.splits)

text \<open>The pieces after the first one.\<close>

lemma continuations_deliver:
  assumes "websocket_server_process_buffered_frames E h s = (ok, s')" "readable s h"
    "c_fragmented (conn s h)" "c_fragmented_payload (conn s h) = Some before" "c_fragmented_opcode (conn s h) = opcode"
    "c_read_buffer (conn s h) = fragment_frames OPCODE_CONTINUATION pieces @ rest" "pieces \<noteq> []"
    "\<forall>(key, piece)\<in>set pieces. length key = 4 \<and> length piece < 2 ^ 63"
    "length (before @ message_of pieces) \<le> websocket_server_max_message_size (v_options s)"
    "opcode = OPCODE_TEXT \<and> t = Text \<and> utf8_text (before @ message_of pieces) \<or> opcode = OPCODE_BINARY \<and> t = Binary"
    "v_on_message s \<noteq> None" "g_exception s = None"
  shows "delivers h (before @ message_of pieces) t s s'"
  using assms
proof (induction pieces arbitrary: s before)
  case (Cons kp pieces)
  obtain key piece where kp: "kp = (key, piece)" by (cases kp) auto
  let ?max = "websocket_server_max_message_size (v_options s)"
  have k: "length key = 4" "length piece < 2 ^ 63" and len: "length before + length piece \<le> ?max"
    using Cons.prems(8,9) by (simp_all add: kp message_of_def)
  note ob = data_opcode_ok [of 0 piece ?max]
  define c where "c = (conn s h)\<lparr>c_read_buffer := fragment_frames OPCODE_CONTINUATION pieces @ rest\<rparr>"
  define s1 where "s1 = put_conn h (c\<lparr>c_fragmented_payload := Some (before @ piece)\<rparr>) (put_conn h c s)"
  have c: "c_fragmented (conn (put_conn h c s) h)" "c_fragmented_payload (conn (put_conn h c s) h) = Some before"
    "length before + length piece \<le> websocket_server_max_message_size (v_options (put_conn h c s))"
    "g_exception (put_conn h c s) = None" "c_fragmented_opcode (conn (put_conn h c s) h) = opcode"
    using Cons.prems(3-5,12) len by (simp_all add: c_def)
  note cont = handle_continuation [OF c(1-4), of E, folded s1_def]
  have log1: "g_log s1 = g_log s" by (simp add: s1_def)
  show ?case
  proof (cases "pieces = []")
    case True
    have b: "c_read_buffer (conn s h) = client_frame (0x80 OR 0) key piece @ rest" using Cons.prems(6) by (simp add: kp True)
    let ?frame = "\<lparr>sf_opcode = 0, sf_final = True, sf_bytes_consumed = length (client_frame (0x80 OR 0) key piece), sf_payload = Some piece\<rparr>"
    have run: "websocket_server_process_buffered_frames E h s = (case websocket_server_handle_frame E h ?frame (put_conn h c s) of
        (ok, s') \<Rightarrow> if \<not> ok then (False, s') else websocket_server_process_buffered_frames E h s')"
      using process_frame [OF Cons.prems(2) b k ob(2), of E] len by (simp add: c_def True)
    obtain okm s2 where m: "websocket_server_call_message_handler E h (before @ piece) opcode s1 = (okm, s2)" by fastforce
    have u: "opcode = OPCODE_TEXT \<longrightarrow> websocket_protocol_is_valid_utf8 (before @ piece)"
      using Cons.prems(10) by (auto simp: kp True message_of_def valid_utf8_text)
    have "websocket_server_handle_frame E h ?frame (put_conn h c s)
        = (okm \<and> g_exception s2 = None, update_conn websocket_server_clear_fragment h s2)"
      by (rule cont(2)) (use u m c(5) in \<open>simp_all add: s1_def\<close>)
    note run2 = Cons.prems(1) [unfolded run this prod.case]
    have "websocket_protocol_message_type_from_opcode opcode = Some t" using Cons.prems(10) from_opcode by blast
    moreover have "v_on_message s1 \<noteq> None" using Cons.prems(11) by (simp add: s1_def put_conn_def)
    ultimately have d: "delivers h (before @ piece) t s1 s2" using message_handler_delivers [OF m] by blast
    then have d: "delivers h (before @ message_of (kp # pieces)) t s s2" by (simp add: delivers_def log1 message_of_def kp True)
    show ?thesis
    proof (cases "okm \<and> g_exception s2 = None")
      case ok: True
      then have "websocket_server_process_buffered_frames E h (update_conn websocket_server_clear_fragment h s2) = (ok, s')" using run2 by simp
      from delivers_later [OF d _ this] show ?thesis by (simp add: update_conn_def put_conn_def)
    next
      case False
      then have "g_log s' = g_log s2" using run2 by (auto simp: update_conn_def put_conn_def)
      then show ?thesis using d by (simp add: delivers_def)
    qed
  next
    case False
    then obtain q qs where q: "pieces = q # qs" by (cases pieces) auto
    have b: "c_read_buffer (conn s h) = client_frame 0 key piece @ fragment_frames OPCODE_CONTINUATION pieces @ rest"
      using Cons.prems(6) by (simp add: kp q)
    have run: "websocket_server_process_buffered_frames E h s = websocket_server_process_buffered_frames E h s1"
      using process_frame [OF Cons.prems(2) b k ob(1), of E] len cont(1) by (simp add: c_def s1_def)
    have "delivers h ((before @ piece) @ message_of pieces) t s1 s'"
    proof (rule Cons.IH [OF Cons.prems(1) [unfolded run]])
      show "length ((before @ piece) @ message_of pieces) \<le> websocket_server_max_message_size (v_options s1)"
        using Cons.prems(9) by (simp add: s1_def kp message_of_def)
    qed (use Cons.prems False in \<open>simp_all add: s1_def c_def readable_def kp message_of_def put_conn_def\<close>)
    then show ?thesis by (simp add: delivers_def log1 message_of_def kp)
  qed
qed simp

text \<open>A message in one frame, and the first frame of a longer one.\<close>

lemma whole_message_delivers:
  assumes "websocket_server_process_buffered_frames E h s = (ok, s')" "readable s h" "\<not> c_fragmented (conn s h)"
    "c_read_buffer (conn s h) = client_frame (0x80 OR opcode) key payload @ rest" "length key = 4" "length payload < 2 ^ 63"
    "length payload \<le> websocket_server_max_message_size (v_options s)"
    "opcode = OPCODE_TEXT \<and> t = Text \<and> utf8_text payload \<or> opcode = OPCODE_BINARY \<and> t = Binary"
    "v_on_message s \<noteq> None"
  shows "delivers h payload t s s'"
proof -
  have op: "opcode \<in> {0, 1, 2}" "opcode \<noteq> 0" using assms(8) by auto
  note ob = data_opcode_ok [OF op(1) assms(7)]
  define s1 where "s1 = put_conn h ((conn s h)\<lparr>c_read_buffer := rest\<rparr>) s"
  have s1: "\<not> c_fragmented (conn s1 h)" "v_on_message s1 \<noteq> None" "g_log s1 = g_log s"
    using assms(3,9) by (simp_all add: s1_def put_conn_def)
  obtain okm s2 where m: "websocket_server_call_message_handler E h payload opcode s1 = (okm, s2)" by fastforce
  have u: "opcode = OPCODE_TEXT \<longrightarrow> websocket_protocol_is_valid_utf8 payload" using assms(8) by (auto simp: valid_utf8_text)
  have "websocket_server_handle_frame E h \<lparr>sf_opcode = opcode, sf_final = True,
      sf_bytes_consumed = length (client_frame (0x80 OR opcode) key payload), sf_payload = Some payload\<rparr> s1
      = (okm \<and> g_exception s2 = None, s2)"
    using s1(1) u m op assms(8)
    by (auto simp: websocket_server_handle_frame_def websocket_server_handle_data_frame_def Let_def split: prod.splits)
  then have run: "websocket_server_process_buffered_frames E h s =
      (if \<not> (okm \<and> g_exception s2 = None) then (False, s2) else websocket_server_process_buffered_frames E h s2)"
    using process_frame [OF assms(2,4-6) ob(2), of E] ob(4,6) by (simp add: s1_def)
  have "websocket_protocol_message_type_from_opcode opcode = Some t" using assms(8) from_opcode by blast
  then have d: "delivers h payload t s s2" using message_handler_delivers [OF m s1(2)] s1(3) by (simp add: delivers_def)
  show ?thesis
  proof (cases "okm \<and> g_exception s2 = None")
    case True
    then have "websocket_server_process_buffered_frames E h s2 = (ok, s')" using run assms(1) by simp
    then show ?thesis by (rule delivers_later [OF d refl])
  next
    case False
    then show ?thesis using d run assms(1) by (auto simp: delivers_def)
  qed
qed

lemma first_fragment:
  assumes "readable s h" "\<not> c_fragmented (conn s h)"
    "c_read_buffer (conn s h) = client_frame opcode key piece @ rest" "length key = 4" "length piece < 2 ^ 63"
    "length piece \<le> websocket_server_max_message_size (v_options s)" "opcode \<in> {OPCODE_TEXT, OPCODE_BINARY}" "g_exception s = None"
  defines "s1 \<equiv> put_conn h ((conn s h)\<lparr>c_read_buffer := rest, c_fragmented := True, c_fragmented_opcode := opcode,
      c_fragmented_payload := Some piece\<rparr>) s"
  shows "websocket_server_process_buffered_frames E h s = websocket_server_process_buffered_frames E h s1"
proof -
  have op: "opcode \<in> {0, 1, 2}" "opcode \<noteq> 0" "opcode = 1 \<or> opcode = 2" using assms(7) by auto
  note ob = data_opcode_ok [OF op(1) assms(6)]
  define s0 where "s0 = put_conn h ((conn s h)\<lparr>c_read_buffer := rest\<rparr>) s"
  have s0: "\<not> c_fragmented (conn s0 h)" "g_exception s0 = None"
    and s1: "s1 = update_conn (\<lambda>c. c\<lparr>c_fragmented := True, c_fragmented_opcode := opcode, c_fragmented_payload := Some piece\<rparr>) h s0"
    using assms(2,8) by (simp_all add: s0_def s1_def update_conn_def put_conn_def)
  have "websocket_server_handle_frame E h \<lparr>sf_opcode = opcode, sf_final = False,
      sf_bytes_consumed = length (client_frame opcode key piece), sf_payload = Some piece\<rparr> s0 = (True, s1)"
    using s0 op(2,3) by (simp add: websocket_server_handle_frame_def websocket_server_handle_data_frame_def Let_def s1)
  then show ?thesis using process_frame [OF assms(1,3-5) ob(1), of E] ob(3,5) by (simp add: s0_def)
qed

text \<open>C3. A message arrives whole, however it was cut: once all its frames are in the read buffer, each with
  a masking key of its own, the next thing that happens is that \<^verbatim>\<open>onMessage\<close> gets the pieces joined in order.\<close>

theorem fragments_deliver_message:
  assumes "websocket_server_process_buffered_frames E h s = (ok, s')" "readable s h" "\<not> c_fragmented (conn s h)"
    and "c_read_buffer (conn s h) = fragment_frames opcode pieces @ rest" "pieces \<noteq> []"
    and "\<forall>(key, piece)\<in>set pieces. length key = 4 \<and> length piece < 2 ^ 63"
    and "length (message_of pieces) \<le> websocket_server_max_message_size (v_options s)"
    and "opcode = OPCODE_TEXT \<and> t = Text \<and> utf8_text (message_of pieces) \<or> opcode = OPCODE_BINARY \<and> t = Binary"
    and "v_on_message s \<noteq> None" "g_exception s = None"
  shows "\<exists>es. g_log s' = es @ MessageEvent h (message_of pieces) t # g_log s"
proof -
  obtain key piece qs where kp: "pieces = (key, piece) # qs" using assms(5) by (cases pieces) auto
  have k: "length key = 4" "length piece < 2 ^ 63" and len: "length piece \<le> websocket_server_max_message_size (v_options s)"
    using assms(6,7) by (simp_all add: kp message_of_def)
  have "delivers h (message_of pieces) t s s'"
  proof (cases "qs = []")
    case True
    then have m: "message_of pieces = piece" by (simp add: kp message_of_def)
    have "c_read_buffer (conn s h) = client_frame (0x80 OR opcode) key piece @ rest" using assms(4) by (simp add: kp True)
    from whole_message_delivers [OF assms(1-3) this k len _ assms(9)] assms(8) m show ?thesis by simp
  next
    case False
    let ?rest = "fragment_frames OPCODE_CONTINUATION qs @ rest"
    define s1 where "s1 = put_conn h ((conn s h)\<lparr>c_read_buffer := ?rest, c_fragmented := True, c_fragmented_opcode := opcode,
        c_fragmented_payload := Some piece\<rparr>) s"
    have "c_read_buffer (conn s h) = client_frame opcode key piece @ ?rest"
      using assms(4) False by (cases qs) (simp_all add: kp)
    then have run: "websocket_server_process_buffered_frames E h s1 = (ok, s')"
      using first_fragment [OF assms(2,3) _ k len _ assms(10), of opcode ?rest E] assms(1,8) by (auto simp: s1_def)
    have "delivers h (piece @ message_of qs) t s1 s'"
    proof (rule continuations_deliver [OF run])
      show "length (piece @ message_of qs) \<le> websocket_server_max_message_size (v_options s1)"
        using assms(7) by (simp add: s1_def kp message_of_def)
    qed (use assms False in \<open>simp_all add: s1_def readable_def kp message_of_def put_conn_def\<close>)
    then show ?thesis by (simp add: delivers_def s1_def message_of_def kp)
  qed
  then show ?thesis by (simp add: delivers_def)
qed

text \<open>A session with a text message in two fragments waiting in its read buffer.\<close>

definition fragments_server :: "int list websocket_server" where
  "fragments_server = put_conn 0
     (websocket_connection_create_object\<lparr>c_fd := 7, c_open := True, c_upgraded := True,
        c_read_buffer := fragment_frames OPCODE_TEXT [([1, 2, 3, 4], [0xc3]), ([5, 6, 7, 8], [0xa9])] @ [0x81]\<rparr>)
     (example_server (\<lambda>_ _ _ _. Finish ReturnedNull) (example_network [] [Sent 100] []))"

lemma fragments_server: "readable fragments_server 0" "\<not> c_fragmented (conn fragments_server 0)"
  "c_read_buffer (conn fragments_server 0) = fragment_frames OPCODE_TEXT [([1, 2, 3, 4], [0xc3]), ([5, 6, 7, 8], [0xa9])] @ [0x81]"
  "websocket_server_max_message_size (v_options fragments_server) = 16777216" "v_on_message fragments_server \<noteq> None"
  "g_exception fragments_server = None" "g_log fragments_server = []"
  "queue_ok (conn fragments_server 0)" "c_fd (conn fragments_server 0) = 7"
  by (simp_all add: readable_def fragments_server_def example_server_def ws_eval)

theorem fragments_deliver_message_witness:
  "\<exists>ok s es. websocket_server_process_buffered_frames example_environment 0 fragments_server = (ok, s)
     \<and> g_log s = es @ [MessageEvent 0 [0xc3, 0xa9] Text]"
proof -
  let ?pieces = "[([1, 2, 3, 4], [0xc3]), ([5, 6, 7, 8], [0xa9])] :: (bytes \<times> bytes) list"
  obtain ok s where r: "websocket_server_process_buffered_frames example_environment 0 fragments_server = (ok, s)" by fastforce
  have m: "message_of ?pieces = [0xc3, 0xa9]" by (simp add: message_of_def)
  have "websocket_protocol_is_valid_utf8 [0xc3, 0xa9]" by code_simp
  then have u: "utf8_text (message_of ?pieces)" by (simp only: m valid_utf8_text)
  have "\<exists>es. g_log s = es @ MessageEvent 0 (message_of ?pieces) Text # g_log fragments_server"
    by (rule fragments_deliver_message [OF r fragments_server(1-3)]) (simp_all add: fragments_server u, simp add: m)
  then show ?thesis using r by (auto simp: m fragments_server)
qed

subsection \<open>Pings\<close>

text \<open>C23. A PING is answered by a PONG with the same payload, behind everything sent before, and without any
  call into PHP code.\<close>

theorem ping_is_answered:
  assumes "websocket_server_handle_frame E h
      \<lparr>sf_opcode = OPCODE_PING, sf_final = True, sf_bytes_consumed = n, sf_payload = Some payload\<rparr> s = (True, s')"
    and "queue_ok (conn s h)"
  shows "w_wire (g_world s') (c_fd (conn s h)) @ pending (conn s' h)
     = w_wire (g_world s) (c_fd (conn s h)) @ pending (conn s h) @ server_frame payload OPCODE_PONG
   \<and> g_log s' = g_log s \<and> queue_ok (conn s' h) \<and> c_open (conn s' h)"
proof -
  obtain ok c w where f: "websocket_connection_send_frame (e_driver E) payload OPCODE_PONG (conn s h) (g_world s) = (ok, c, w)"
    by (metis prod_cases3)
  have ok: ok and s': "s' = (put_conn h c s)\<lparr>g_world := w\<rparr>"
    using assms(1) by (auto simp: websocket_server_handle_frame_def Let_def with_conn_def f)
  note sf = send_frame [OF f assms(2)]
  then obtain w1 bs where w: "sent_on (c_fd (conn s h)) bs (g_world s) w1" "quiet w1 w"
    "bs @ pending c = pending (conn s h) @ server_frame payload OPCODE_PONG" using ok by blast
  have "w_wire w (c_fd (conn s h)) = w_wire (g_world s) (c_fd (conn s h)) @ bs"
    using sent_onD(1) [OF w(1)] quietD(1) [OF w(2)] by simp
  then show ?thesis using w(3) sf ok by (simp add: s' put_conn_def)
qed

theorem ping_is_answered_witness:
  "\<exists>s. websocket_server_handle_frame example_environment 0
      \<lparr>sf_opcode = OPCODE_PING, sf_final = True, sf_bytes_consumed = 8, sf_payload = Some [104, 105]\<rparr> fragments_server = (True, s)
     \<and> w_wire (g_world s) 7 @ pending (conn s 0) = [0x8a, 2, 104, 105]"
proof -
  let ?f = "\<lparr>sf_opcode = OPCODE_PING, sf_final = True, sf_bytes_consumed = 8, sf_payload = Some [104, 105]\<rparr>"
  obtain ok s where r: "websocket_server_handle_frame example_environment 0 ?f fragments_server = (ok, s)" by fastforce
  have "fst (websocket_server_handle_frame example_environment 0 ?f fragments_server)"
    by (simp add: fragments_server_def run_eval Let_def)
  then have ok: ok using r by simp
  have "server_frame [104, 105] OPCODE_PONG = [0x8a, 2, 104, 105]" by code_simp
  moreover have "w_wire (g_world fragments_server) 7 = []" "pending (conn fragments_server 0) = []"
    by (simp_all add: fragments_server_def example_server_def ws_eval)
  ultimately show ?thesis using ping_is_answered [OF r [unfolded eqTrueI [OF ok]] fragments_server(8)] r ok fragments_server(9) by auto
qed

end
