(* ===== verification/Ws_Kernel_Drivers.thy ===== *)
theory Ws_Kernel_Drivers
  imports Ws_Messages
begin

text \<open>
  The drivers that keep their table in the kernel (\<^verbatim>\<open>drivers/epoll.c\<close>, \<^verbatim>\<open>drivers/kqueue.c\<close>). The system
  calls on the table are parameters: functions on a kernel state of any type. The results of calls
  that are retried after \<^verbatim>\<open>EINTR\<close> are listed in the state, as those of \<^verbatim>\<open>close\<close> are in a world.
\<close>

subsection \<open>The \<^verbatim>\<open>epoll\<close> driver\<close>

abbreviation (input) EPOLLIN :: "32 word" where "EPOLLIN \<equiv> 0x001"
abbreviation (input) EPOLLOUT :: "32 word" where "EPOLLOUT \<equiv> 0x004"

datatype epoll_op = EPOLL_CTL_ADD | EPOLL_CTL_MOD | EPOLL_CTL_DEL

text \<open>\<^verbatim>\<open>epoll_create1\<close>: a descriptor or an error. \<^verbatim>\<open>epoll_ctl\<close>: \<open>None\<close> is 0. \<^verbatim>\<open>epoll_wait\<close> for one
  event: the return value and \<^verbatim>\<open>data.fd\<close>, or an error.\<close>

record 'k epoll_calls =
  epoll_create1 :: "'k \<Rightarrow> (errno + int) \<times> 'k"
  epoll_ctl :: "int \<Rightarrow> epoll_op \<Rightarrow> int \<Rightarrow> 32 word \<Rightarrow> 'k \<Rightarrow> errno option \<times> 'k"
  epoll_wait :: "int \<Rightarrow> int \<Rightarrow> 'k \<Rightarrow> (errno + int \<times> int) \<times> 'k"

record 'k epoll_state =
  epoll_fd :: int
  epoll_closes :: "errno option list"
  epoll_kernel :: 'k

definition websocket_epoll_init :: "'k epoll_calls \<Rightarrow> 'k epoll_state \<times> errno \<Rightarrow> bool \<times> 'k epoll_state \<times> errno" where
  [ws_eval]: "websocket_epoll_init C de =
    (case de of (d, e) \<Rightarrow>
       (case epoll_create1 C (epoll_kernel d) of
          (Inl e', k) \<Rightarrow> (False, d\<lparr>epoll_fd := -1, epoll_kernel := k\<rparr>, e')
        | (Inr fd, k) \<Rightarrow> (fd \<ge> 0, d\<lparr>epoll_fd := fd, epoll_kernel := k\<rparr>, e)))"

definition websocket_epoll_shutdown :: "'k epoll_state \<times> errno \<Rightarrow> 'k epoll_state \<times> errno" where
  [ws_eval]: "websocket_epoll_shutdown de =
    (case de of (d, e) \<Rightarrow>
       if epoll_fd d \<ge> 0 then
         (case close_loop (epoll_closes d) e of (rs, e) \<Rightarrow> (d\<lparr>epoll_closes := rs, epoll_fd := -1\<rparr>, e))
       else (d, e))"

text \<open>A call of \<^verbatim>\<open>epoll_ctl\<close>, with \<^verbatim>\<open>errno\<close> set when it fails.\<close>

definition ctl :: "'k epoll_calls \<Rightarrow> epoll_op \<Rightarrow> int \<Rightarrow> 32 word \<Rightarrow> 'k epoll_state \<times> errno \<Rightarrow> bool \<times> 'k epoll_state \<times> errno" where
  [ws_eval]: "ctl C opn fd events de =
    (case de of (d, e) \<Rightarrow>
       (case epoll_ctl C (epoll_fd d) opn fd events (epoll_kernel d) of
          (None, k) \<Rightarrow> (True, d\<lparr>epoll_kernel := k\<rparr>, e)
        | (Some e', k) \<Rightarrow> (False, d\<lparr>epoll_kernel := k\<rparr>, e')))"

definition websocket_epoll_watch_read :: "'k epoll_calls \<Rightarrow> int \<Rightarrow> 'k epoll_state \<times> errno \<Rightarrow> bool \<times> 'k epoll_state \<times> errno" where
  [ws_eval]: "websocket_epoll_watch_read C fd de =
    (if epoll_fd (fst de) < 0 then (False, fst de, EBADF)
     else
       (case ctl C EPOLL_CTL_ADD fd EPOLLIN de of
          (True, de) \<Rightarrow> (True, de)
        | (False, de) \<Rightarrow> if snd de \<noteq> EEXIST then (False, de) else ctl C EPOLL_CTL_MOD fd EPOLLIN de))"

definition websocket_epoll_watch_write :: "'k epoll_calls \<Rightarrow> int \<Rightarrow> 'k epoll_state \<times> errno \<Rightarrow> bool \<times> 'k epoll_state \<times> errno" where
  [ws_eval]: "websocket_epoll_watch_write C fd de =
    (if epoll_fd (fst de) < 0 then (False, fst de, EBADF)
     else
       (case ctl C EPOLL_CTL_MOD fd (EPOLLIN OR EPOLLOUT) de of
          (True, de) \<Rightarrow> (True, de)
        | (False, de) \<Rightarrow> if snd de \<noteq> ENOENT then (False, de) else ctl C EPOLL_CTL_ADD fd (EPOLLIN OR EPOLLOUT) de))"

definition websocket_epoll_unwatch_write :: "'k epoll_calls \<Rightarrow> int \<Rightarrow> 'k epoll_state \<times> errno \<Rightarrow> 'k epoll_state \<times> errno" where
  [ws_eval]: "websocket_epoll_unwatch_write C fd de =
    (if epoll_fd (fst de) \<ge> 0 then (fst (snd (ctl C EPOLL_CTL_MOD fd EPOLLIN de)), snd de) else de)"

definition websocket_epoll_unwatch :: "'k epoll_calls \<Rightarrow> int \<Rightarrow> 'k epoll_state \<times> errno \<Rightarrow> 'k epoll_state \<times> errno" where
  [ws_eval]: "websocket_epoll_unwatch C fd de =
    (if epoll_fd (fst de) \<ge> 0 then (fst (snd (ctl C EPOLL_CTL_DEL fd 0 de)), snd de) else de)"

definition websocket_epoll_wait ::
    "'k epoll_calls \<Rightarrow> int \<Rightarrow> 'k epoll_state \<times> errno \<Rightarrow> (int \<times> int option) \<times> 'k epoll_state \<times> errno" where
  [ws_eval]: "websocket_epoll_wait C timeout_usec de =
    (case de of (d, e) \<Rightarrow>
       if epoll_fd d < 0 then ((-1, None), d, EBADF)
       else
         (case epoll_wait C (epoll_fd d) (timeout_usec sdiv 1000) (epoll_kernel d) of
            (Inl e', k) \<Rightarrow> ((-1, None), d\<lparr>epoll_kernel := k\<rparr>, e')
          | (Inr (ready, fd), k) \<Rightarrow> ((ready, if ready > 0 then Some fd else None), d\<lparr>epoll_kernel := k\<rparr>, e)))"

definition epoll_driver :: "'k epoll_calls \<Rightarrow> 'k epoll_state websocket_driver" where
  [ws_eval]: "epoll_driver C =
    \<lparr>driver_name = ''epoll'', driver_init = websocket_epoll_init C,
     driver_shutdown = websocket_epoll_shutdown, driver_watch_read = websocket_epoll_watch_read C,
     driver_watch_write = websocket_epoll_watch_write C,
     driver_unwatch_write = websocket_epoll_unwatch_write C,
     driver_unwatch = websocket_epoll_unwatch C, driver_wait = websocket_epoll_wait C\<rparr>"

subsection \<open>The \<^verbatim>\<open>kqueue\<close> driver\<close>

datatype kqueue_filter = EVFILT_READ | EVFILT_WRITE

text \<open>What is asked of the kernel for a filter: \<^verbatim>\<open>EV_ADD | EV_ENABLE | EV_CLEAR\<close> or \<^verbatim>\<open>EV_DELETE\<close>.\<close>

datatype kqueue_action = EV_ADD_ENABLE_CLEAR | EV_DELETE

text \<open>What a wait returns: an error, no event, an event with \<^verbatim>\<open>EV_ERROR\<close> and its \<^verbatim>\<open>data\<close>, or the
  descriptor of an event.\<close>

datatype kevent_result = KeventFailed errno | NoEvent | ErrorEvent "errno option" | Event int

record 'k kqueue_calls =
  kqueue_create :: "'k \<Rightarrow> (errno + int) \<times> 'k"
  kevent_change :: "int \<Rightarrow> int \<Rightarrow> kqueue_filter \<Rightarrow> kqueue_action \<Rightarrow> 'k \<Rightarrow> errno option \<times> 'k"
  kevent_wait :: "int \<Rightarrow> int \<times> int \<Rightarrow> 'k \<Rightarrow> kevent_result \<times> 'k"

text \<open>\<open>kqueue_interrupts\<close>: how often each of the coming changes returns \<^verbatim>\<open>EINTR\<close> before the call that
  \<open>kevent_change\<close> describes.\<close>

record 'k kqueue_state =
  kqueue_fd :: int
  kqueue_closes :: "errno option list"
  kqueue_interrupts :: "nat list"
  kqueue_kernel :: 'k

definition websocket_kqueue_init :: "'k kqueue_calls \<Rightarrow> 'k kqueue_state \<times> errno \<Rightarrow> bool \<times> 'k kqueue_state \<times> errno" where
  [ws_eval]: "websocket_kqueue_init C de =
    (case de of (d, e) \<Rightarrow>
       (case kqueue_create C (kqueue_kernel d) of
          (Inl e', k) \<Rightarrow> (False, d\<lparr>kqueue_fd := -1, kqueue_kernel := k\<rparr>, e')
        | (Inr fd, k) \<Rightarrow> (fd \<ge> 0, d\<lparr>kqueue_fd := fd, kqueue_kernel := k\<rparr>, e)))"

definition websocket_kqueue_shutdown :: "'k kqueue_state \<times> errno \<Rightarrow> 'k kqueue_state \<times> errno" where
  [ws_eval]: "websocket_kqueue_shutdown de =
    (case de of (d, e) \<Rightarrow>
       if kqueue_fd d \<ge> 0 then
         (case close_loop (kqueue_closes d) e of (rs, e) \<Rightarrow> (d\<lparr>kqueue_closes := rs, kqueue_fd := -1\<rparr>, e))
       else (d, e))"

text \<open>\<^verbatim>\<open>while (kevent(...) < 0) { if (errno == EINTR) continue; ... }\<close>\<close>

fun kevent_loop ::
    "'k kqueue_calls \<Rightarrow> int \<Rightarrow> int \<Rightarrow> kqueue_filter \<Rightarrow> kqueue_action \<Rightarrow> nat \<Rightarrow> 'k \<times> errno \<Rightarrow> bool \<times> 'k \<times> errno" where
  "kevent_loop C kq fd filt action (Suc n) (k, e) = kevent_loop C kq fd filt action n (k, EINTR)"
| "kevent_loop C kq fd filt action 0 (k, e) =
    (case kevent_change C kq fd filt action k of
       (None, k) \<Rightarrow> (True, k, e)
     | (Some e', k) \<Rightarrow> (False, k, e'))"

definition change ::
    "'k kqueue_calls \<Rightarrow> int \<Rightarrow> kqueue_filter \<Rightarrow> kqueue_action \<Rightarrow> 'k kqueue_state \<times> errno \<Rightarrow> bool \<times> 'k kqueue_state \<times> errno" where
  [ws_eval]: "change C fd filt action de =
    (case de of (d, e) \<Rightarrow>
       let n = (case kqueue_interrupts d of [] \<Rightarrow> 0 | n # _ \<Rightarrow> n) in
       case kevent_loop C (kqueue_fd d) fd filt action n (kqueue_kernel d, e) of
         (ok, k, e) \<Rightarrow> (ok, d\<lparr>kqueue_kernel := k, kqueue_interrupts := tl (kqueue_interrupts d)\<rparr>, e))"

definition websocket_kqueue_watch_read :: "'k kqueue_calls \<Rightarrow> int \<Rightarrow> 'k kqueue_state \<times> errno \<Rightarrow> bool \<times> 'k kqueue_state \<times> errno" where
  [ws_eval]: "websocket_kqueue_watch_read C fd de =
    (if kqueue_fd (fst de) < 0 then (False, fst de, EBADF) else change C fd EVFILT_READ EV_ADD_ENABLE_CLEAR de)"

definition websocket_kqueue_watch_write :: "'k kqueue_calls \<Rightarrow> int \<Rightarrow> 'k kqueue_state \<times> errno \<Rightarrow> bool \<times> 'k kqueue_state \<times> errno" where
  [ws_eval]: "websocket_kqueue_watch_write C fd de =
    (if kqueue_fd (fst de) < 0 then (False, fst de, EBADF) else change C fd EVFILT_WRITE EV_ADD_ENABLE_CLEAR de)"

definition websocket_kqueue_unwatch_event ::
    "'k kqueue_calls \<Rightarrow> int \<Rightarrow> kqueue_filter \<Rightarrow> 'k kqueue_state \<times> errno \<Rightarrow> 'k kqueue_state \<times> errno" where
  [ws_eval]: "websocket_kqueue_unwatch_event C fd filt de =
    (if kqueue_fd (fst de) < 0 then de else snd (change C fd filt EV_DELETE de))"

definition websocket_kqueue_unwatch_write :: "'k kqueue_calls \<Rightarrow> int \<Rightarrow> 'k kqueue_state \<times> errno \<Rightarrow> 'k kqueue_state \<times> errno" where
  [ws_eval]: "websocket_kqueue_unwatch_write C fd de =
    (fst (websocket_kqueue_unwatch_event C fd EVFILT_WRITE de), snd de)"

definition websocket_kqueue_unwatch :: "'k kqueue_calls \<Rightarrow> int \<Rightarrow> 'k kqueue_state \<times> errno \<Rightarrow> 'k kqueue_state \<times> errno" where
  [ws_eval]: "websocket_kqueue_unwatch C fd de =
    (fst (websocket_kqueue_unwatch_event C fd EVFILT_WRITE (websocket_kqueue_unwatch_event C fd EVFILT_READ de)), snd de)"

definition websocket_kqueue_wait ::
    "'k kqueue_calls \<Rightarrow> int \<Rightarrow> 'k kqueue_state \<times> errno \<Rightarrow> (int \<times> int option) \<times> 'k kqueue_state \<times> errno" where
  [ws_eval]: "websocket_kqueue_wait C timeout_usec de =
    (case de of (d, e) \<Rightarrow>
       if kqueue_fd d < 0 then ((-1, None), d, EBADF)
       else
         (case kevent_wait C (kqueue_fd d) (timeout_usec sdiv 1000000, (timeout_usec smod 1000000) * 1000) (kqueue_kernel d) of
            (result, k) \<Rightarrow>
              (let d = d\<lparr>kqueue_kernel := k\<rparr> in
               case result of
                 KeventFailed e' \<Rightarrow> ((-1, None), d, e')
               | NoEvent \<Rightarrow> ((0, None), d, e)
               | ErrorEvent data \<Rightarrow> ((-1, None), d, case data of Some e' \<Rightarrow> e' | None \<Rightarrow> EIO)
               | Event fd \<Rightarrow> ((1, Some fd), d, e))))"

definition kqueue_driver :: "'k kqueue_calls \<Rightarrow> 'k kqueue_state websocket_driver" where
  [ws_eval]: "kqueue_driver C =
    \<lparr>driver_name = ''kqueue'', driver_init = websocket_kqueue_init C,
     driver_shutdown = websocket_kqueue_shutdown, driver_watch_read = websocket_kqueue_watch_read C,
     driver_watch_write = websocket_kqueue_watch_write C,
     driver_unwatch_write = websocket_kqueue_unwatch_write C,
     driver_unwatch = websocket_kqueue_unwatch C, driver_wait = websocket_kqueue_wait C\<rparr>"

subsection \<open>What the kernel documents\<close>

text \<open>\<^verbatim>\<open>epoll_ctl(2)\<close>: an entry is added, changed or deleted; to add one that is there is \<^verbatim>\<open>EEXIST\<close>, to change or
  delete one that is not is \<^verbatim>\<open>ENOENT\<close>. \<open>events\<close> is the table of an epoll descriptor \<open>ep\<close>.\<close>

definition epoll_documented :: "'k epoll_calls \<Rightarrow> int \<Rightarrow> ('k \<Rightarrow> int \<Rightarrow> 32 word option) \<Rightarrow> bool" where
  "epoll_documented C ep events \<longleftrightarrow> (\<forall>opn fd ev k r k'. epoll_ctl C ep opn fd ev k = (r, k') \<longrightarrow>
     (case opn of
        EPOLL_CTL_ADD \<Rightarrow> if events k fd = None then r = None \<and> events k' = (events k)(fd \<mapsto> ev)
                         else r = Some EEXIST \<and> events k' = events k
      | EPOLL_CTL_MOD \<Rightarrow> if events k fd \<noteq> None then r = None \<and> events k' = (events k)(fd \<mapsto> ev)
                         else r = Some ENOENT \<and> events k' = events k
      | EPOLL_CTL_DEL \<Rightarrow> if events k fd \<noteq> None then r = None \<and> events k' = (events k)(fd := None)
                         else r = Some ENOENT \<and> events k' = events k))"

text \<open>\<^verbatim>\<open>kevent(2)\<close>: a filter is added or deleted; to delete one that is not there is \<^verbatim>\<open>ENOENT\<close>.\<close>

definition kqueue_documented :: "'k kqueue_calls \<Rightarrow> int \<Rightarrow> ('k \<Rightarrow> int \<Rightarrow> kqueue_filter \<Rightarrow> bool) \<Rightarrow> bool" where
  "kqueue_documented C kq filters \<longleftrightarrow> (\<forall>fd filt action k r k'. kevent_change C kq fd filt action k = (r, k') \<longrightarrow>
     (case action of
        EV_ADD_ENABLE_CLEAR \<Rightarrow> r = None \<and> filters k' = (filters k)(fd := (filters k fd)(filt := True))
      | EV_DELETE \<Rightarrow> if filters k fd filt then r = None \<and> filters k' = (filters k)(fd := (filters k fd)(filt := False))
                     else r = Some ENOENT \<and> filters k' = filters k))"

subsection \<open>The table in the kernel\<close>

definition epoll_watched :: "('k \<Rightarrow> int \<Rightarrow> 32 word option) \<Rightarrow> 'k epoll_state \<Rightarrow> interest" where
  "epoll_watched events d = (\<lambda>fd. case events (epoll_kernel d) fd of
     None \<Rightarrow> (False, False) | Some ev \<Rightarrow> (ev AND EPOLLIN \<noteq> 0, ev AND EPOLLOUT \<noteq> 0))"

definition kqueue_watched :: "('k \<Rightarrow> int \<Rightarrow> kqueue_filter \<Rightarrow> bool) \<Rightarrow> 'k kqueue_state \<Rightarrow> interest" where
  "kqueue_watched filters d = (\<lambda>fd. (filters (kqueue_kernel d) fd EVFILT_READ, filters (kqueue_kernel d) fd EVFILT_WRITE))"

text \<open>The order in which the server uses a driver: a descriptor is watched for reading first, and for writing
  only while it is.\<close>

fun server_order :: "driver_op list \<Rightarrow> interest \<Rightarrow> bool" where
  "server_order [] w \<longleftrightarrow> True"
| "server_order (a # as) w \<longleftrightarrow> (case a of WatchRead fd \<Rightarrow> \<not> snd (w fd) | WatchWrite fd \<Rightarrow> fst (w fd) | _ \<Rightarrow> True)
     \<and> server_order as (op_interest a w)"

lemma kevent_loop: "kevent_loop C kq fd filt action n (k, e) =
    (case kevent_change C kq fd filt action k of
       (None, k) \<Rightarrow> (True, k, if n = 0 then e else EINTR)
     | (Some e', k) \<Rightarrow> (False, k, e'))"
  by (induction n arbitrary: e) (auto split: prod.splits option.splits)

definition epoll_ok :: "int \<Rightarrow> ('k \<Rightarrow> int \<Rightarrow> 32 word option) \<Rightarrow> 'k epoll_state \<Rightarrow> bool" where
  "epoll_ok ep events d \<longleftrightarrow> epoll_fd d = ep \<and> 0 \<le> ep
     \<and> (\<forall>fd. events (epoll_kernel d) fd \<in> {None, Some EPOLLIN, Some (EPOLLIN OR EPOLLOUT)})"

lemma ctl_documented:
  assumes "epoll_documented C (epoll_fd d) events"
  defines "t \<equiv> events (epoll_kernel d)"
  shows "\<exists>k. ctl C EPOLL_CTL_ADD fd ev (d, e) = (t fd = None, d\<lparr>epoll_kernel := k\<rparr>, if t fd = None then e else EEXIST)
       \<and> events k = (if t fd = None then t(fd \<mapsto> ev) else t)"
    "\<exists>k. ctl C EPOLL_CTL_MOD fd ev (d, e) = (t fd \<noteq> None, d\<lparr>epoll_kernel := k\<rparr>, if t fd \<noteq> None then e else ENOENT)
       \<and> events k = (if t fd \<noteq> None then t(fd \<mapsto> ev) else t)"
    "\<exists>k. ctl C EPOLL_CTL_DEL fd ev (d, e) = (t fd \<noteq> None, d\<lparr>epoll_kernel := k\<rparr>, if t fd \<noteq> None then e else ENOENT)
       \<and> events k = t(fd := None)"
proof -
  have doc: "epoll_ctl C (epoll_fd d) opn fd ev (epoll_kernel d) = (r, k) \<Longrightarrow>
     (case opn of
        EPOLL_CTL_ADD \<Rightarrow> if t fd = None then r = None \<and> events k = t(fd \<mapsto> ev) else r = Some EEXIST \<and> events k = t
      | EPOLL_CTL_MOD \<Rightarrow> if t fd \<noteq> None then r = None \<and> events k = t(fd \<mapsto> ev) else r = Some ENOENT \<and> events k = t
      | EPOLL_CTL_DEL \<Rightarrow> if t fd \<noteq> None then r = None \<and> events k = t(fd := None) else r = Some ENOENT \<and> events k = t)" for opn r k
    using assms(1) unfolding epoll_documented_def t_def by blast
  have n: "t fd = None \<Longrightarrow> t(fd := None) = t" by auto
  obtain r k where "epoll_ctl C (epoll_fd d) EPOLL_CTL_ADD fd ev (epoll_kernel d) = (r, k)" by fastforce
  with doc [OF this] show "\<exists>k. ctl C EPOLL_CTL_ADD fd ev (d, e) = (t fd = None, d\<lparr>epoll_kernel := k\<rparr>, if t fd = None then e else EEXIST)
       \<and> events k = (if t fd = None then t(fd \<mapsto> ev) else t)"
    by (intro exI [of _ k]) (auto simp: ctl_def split: if_splits)
  obtain r k where "epoll_ctl C (epoll_fd d) EPOLL_CTL_MOD fd ev (epoll_kernel d) = (r, k)" by fastforce
  with doc [OF this] show "\<exists>k. ctl C EPOLL_CTL_MOD fd ev (d, e) = (t fd \<noteq> None, d\<lparr>epoll_kernel := k\<rparr>, if t fd \<noteq> None then e else ENOENT)
       \<and> events k = (if t fd \<noteq> None then t(fd \<mapsto> ev) else t)"
    by (intro exI [of _ k]) (auto simp: ctl_def split: if_splits)
  obtain r k where "epoll_ctl C (epoll_fd d) EPOLL_CTL_DEL fd ev (epoll_kernel d) = (r, k)" by fastforce
  with doc [OF this] n show "\<exists>k. ctl C EPOLL_CTL_DEL fd ev (d, e) = (t fd \<noteq> None, d\<lparr>epoll_kernel := k\<rparr>, if t fd \<noteq> None then e else ENOENT)
       \<and> events k = t(fd := None)"
    by (intro exI [of _ k]) (auto simp: ctl_def split: if_splits)
qed

text \<open>The table after an operation.\<close>

fun op_table :: "driver_op \<Rightarrow> (int \<Rightarrow> 32 word option) \<Rightarrow> int \<Rightarrow> 32 word option" where
  "op_table (WatchRead fd) t = t(fd \<mapsto> EPOLLIN)"
| "op_table (WatchWrite fd) t = t(fd \<mapsto> EPOLLIN OR EPOLLOUT)"
| "op_table (UnwatchWrite fd) t = (if t fd = None then t else t(fd \<mapsto> EPOLLIN))"
| "op_table (Unwatch fd) t = t(fd := None)"

lemma epoll_table:
  assumes "epoll_documented C (epoll_fd d) events" "0 \<le> epoll_fd d"
  shows "\<exists>k. fst (apply_op (epoll_driver C) a (d, e)) = d\<lparr>epoll_kernel := k\<rparr> \<and> events k = op_table a (events (epoll_kernel d))"
proof (cases a)
  case (WatchRead fd)
  obtain k where k: "ctl C EPOLL_CTL_ADD fd EPOLLIN (d, e) = (events (epoll_kernel d) fd = None, d\<lparr>epoll_kernel := k\<rparr>,
        if events (epoll_kernel d) fd = None then e else EEXIST)"
      "events k = (if events (epoll_kernel d) fd = None then (events (epoll_kernel d))(fd \<mapsto> EPOLLIN) else events (epoll_kernel d))"
    using ctl_documented(1) [OF assms(1)] by blast
  obtain k' where "ctl C EPOLL_CTL_MOD fd EPOLLIN (d\<lparr>epoll_kernel := k\<rparr>, EEXIST) = (events k fd \<noteq> None, d\<lparr>epoll_kernel := k'\<rparr>,
        if events k fd \<noteq> None then EEXIST else ENOENT)" "events k' = (if events k fd \<noteq> None then (events k)(fd \<mapsto> EPOLLIN) else events k)"
    using ctl_documented(2) [of C "d\<lparr>epoll_kernel := k\<rparr>" events fd EPOLLIN EEXIST] assms(1) by auto
  then show ?thesis
    using k assms(2) by (cases "events (epoll_kernel d) fd = None") (auto simp: WatchRead epoll_driver_def websocket_epoll_watch_read_def)
next
  case (WatchWrite fd)
  let ?ev = "EPOLLIN OR EPOLLOUT"
  obtain k where k: "ctl C EPOLL_CTL_MOD fd ?ev (d, e) = (events (epoll_kernel d) fd \<noteq> None, d\<lparr>epoll_kernel := k\<rparr>,
        if events (epoll_kernel d) fd \<noteq> None then e else ENOENT)"
      "events k = (if events (epoll_kernel d) fd \<noteq> None then (events (epoll_kernel d))(fd \<mapsto> ?ev) else events (epoll_kernel d))"
    using ctl_documented(2) [OF assms(1)] by blast
  obtain k' where "ctl C EPOLL_CTL_ADD fd ?ev (d\<lparr>epoll_kernel := k\<rparr>, ENOENT) = (events k fd = None, d\<lparr>epoll_kernel := k'\<rparr>,
        if events k fd = None then ENOENT else EEXIST)" "events k' = (if events k fd = None then (events k)(fd \<mapsto> ?ev) else events k)"
    using ctl_documented(1) [of C "d\<lparr>epoll_kernel := k\<rparr>" events fd ?ev ENOENT] assms(1) by auto
  then show ?thesis
    using k assms(2) by (cases "events (epoll_kernel d) fd = None") (auto simp: WatchWrite epoll_driver_def websocket_epoll_watch_write_def)
next
  case (UnwatchWrite fd)
  then show ?thesis using ctl_documented(2) [OF assms(1), of fd EPOLLIN e] assms(2)
    by (auto simp: epoll_driver_def websocket_epoll_unwatch_write_def)
next
  case (Unwatch fd)
  then show ?thesis using ctl_documented(3) [OF assms(1), of fd 0 e] assms(2)
    by (auto simp: epoll_driver_def websocket_epoll_unwatch_def)
qed

text \<open>In the server's order every operation keeps its promise.\<close>

lemma epoll_steps:
  assumes "epoll_documented C ep events" "epoll_ok ep events d" "server_order as (epoll_watched events d)"
  shows "epoll_ok ep events (fst (fold (apply_op (epoll_driver C)) as (d, e)))
    \<and> epoll_watched events (fst (fold (apply_op (epoll_driver C)) as (d, e))) = fold op_interest as (epoll_watched events d)"
  using assms(2,3)
proof (induction as arbitrary: d e)
  case (Cons a as)
  obtain d' e' where s: "apply_op (epoll_driver C) a (d, e) = (d', e')" by fastforce
  obtain k where k: "d' = d\<lparr>epoll_kernel := k\<rparr>" "events k = op_table a (events (epoll_kernel d))"
    using epoll_table [of C d events a e] assms(1) Cons.prems(1) s by (auto simp: epoll_ok_def)
  have t: "events (epoll_kernel d) fd \<in> {None, Some EPOLLIN, Some (EPOLLIN OR EPOLLOUT)}" for fd
    using Cons.prems(1) by (simp add: epoll_ok_def)
  have ok: "epoll_ok ep events d'"
    using Cons.prems(1) by (cases a) (auto simp: k epoll_ok_def)
  have w: "epoll_watched events d' = op_interest a (epoll_watched events d)"
  proof
    fix fd
    show "epoll_watched events d' fd = op_interest a (epoll_watched events d) fd"
      using Cons.prems(2) t [of "op_fd a"] by (cases a) (auto simp: k epoll_watched_def)
  qed
  show ?case using Cons.IH [OF ok, of e'] Cons.prems(2) by (simp add: s w)
qed simp

lemma change_documented:
  assumes "kqueue_documented C (kqueue_fd d) filters"
  obtains k and r :: "errno option" and e' where
    "change C fd filt action (d, e) = (r = None, d\<lparr>kqueue_kernel := k, kqueue_interrupts := tl (kqueue_interrupts d)\<rparr>, e')"
    "filters k = (filters (kqueue_kernel d))(fd := (filters (kqueue_kernel d) fd)(filt := (action = EV_ADD_ENABLE_CLEAR)))"
proof -
  obtain r k where c: "kevent_change C (kqueue_fd d) fd filt action (kqueue_kernel d) = (r, k)" by fastforce
  have "filters k = (filters (kqueue_kernel d))(fd := (filters (kqueue_kernel d) fd)(filt := (action = EV_ADD_ENABLE_CLEAR)))"
    using assms c unfolding kqueue_documented_def by (cases action) (force split: if_splits)+
  moreover obtain e' where ch: "change C fd filt action (d, e) = (r = None, d\<lparr>kqueue_kernel := k, kqueue_interrupts := tl (kqueue_interrupts d)\<rparr>, e')"
    using c by (cases r) (auto simp: change_def Let_def kevent_loop)
  ultimately show thesis by (intro that [OF ch])
qed

lemma kqueue_step:
  assumes "kqueue_documented C (kqueue_fd d) filters" "0 \<le> kqueue_fd d" "apply_op (kqueue_driver C) a (d, e) = (d', e')"
  shows "kqueue_fd d' = kqueue_fd d \<and> kqueue_watched filters d' = op_interest a (kqueue_watched filters d)"
proof (cases a)
  case (WatchRead fd)
  obtain k and r :: "errno option" and e1 where c: "change C fd EVFILT_READ EV_ADD_ENABLE_CLEAR (d, e) = (r = None, d\<lparr>kqueue_kernel := k, kqueue_interrupts := tl (kqueue_interrupts d)\<rparr>, e1)"
    "filters k = (filters (kqueue_kernel d))(fd := (filters (kqueue_kernel d) fd)(EVFILT_READ := (EV_ADD_ENABLE_CLEAR = EV_ADD_ENABLE_CLEAR)))"
    by (rule change_documented [OF assms(1)])
  have "d' = d\<lparr>kqueue_kernel := k, kqueue_interrupts := tl (kqueue_interrupts d)\<rparr>"
    using assms(2,3) by (simp add: WatchRead kqueue_driver_def websocket_kqueue_watch_read_def c(1))
  then show ?thesis by (auto simp: WatchRead kqueue_watched_def c(2))
next
  case (WatchWrite fd)
  obtain k and r :: "errno option" and e1 where c: "change C fd EVFILT_WRITE EV_ADD_ENABLE_CLEAR (d, e) = (r = None, d\<lparr>kqueue_kernel := k, kqueue_interrupts := tl (kqueue_interrupts d)\<rparr>, e1)"
    "filters k = (filters (kqueue_kernel d))(fd := (filters (kqueue_kernel d) fd)(EVFILT_WRITE := (EV_ADD_ENABLE_CLEAR = EV_ADD_ENABLE_CLEAR)))"
    by (rule change_documented [OF assms(1)])
  have "d' = d\<lparr>kqueue_kernel := k, kqueue_interrupts := tl (kqueue_interrupts d)\<rparr>"
    using assms(2,3) by (simp add: WatchWrite kqueue_driver_def websocket_kqueue_watch_write_def c(1))
  then show ?thesis by (auto simp: WatchWrite kqueue_watched_def c(2))
next
  case (UnwatchWrite fd)
  obtain k and r :: "errno option" and e1 where c: "change C fd EVFILT_WRITE EV_DELETE (d, e) = (r = None, d\<lparr>kqueue_kernel := k, kqueue_interrupts := tl (kqueue_interrupts d)\<rparr>, e1)"
    "filters k = (filters (kqueue_kernel d))(fd := (filters (kqueue_kernel d) fd)(EVFILT_WRITE := (EV_DELETE = EV_ADD_ENABLE_CLEAR)))"
    by (rule change_documented [OF assms(1)])
  have "d' = d\<lparr>kqueue_kernel := k, kqueue_interrupts := tl (kqueue_interrupts d)\<rparr>"
    using assms(2,3) by (simp add: UnwatchWrite kqueue_driver_def websocket_kqueue_unwatch_write_def websocket_kqueue_unwatch_event_def c(1))
  then show ?thesis by (auto simp: UnwatchWrite kqueue_watched_def c(2))
next
  case (Unwatch fd)
  obtain k and r :: "errno option" and e1 where c: "change C fd EVFILT_READ EV_DELETE (d, e) = (r = None, d\<lparr>kqueue_kernel := k, kqueue_interrupts := tl (kqueue_interrupts d)\<rparr>, e1)"
    "filters k = (filters (kqueue_kernel d))(fd := (filters (kqueue_kernel d) fd)(EVFILT_READ := (EV_DELETE = EV_ADD_ENABLE_CLEAR)))"
    by (rule change_documented [OF assms(1)])
  define d1 where "d1 = d\<lparr>kqueue_kernel := k, kqueue_interrupts := tl (kqueue_interrupts d)\<rparr>"
  have doc: "kqueue_documented C (kqueue_fd d1) filters" using assms(1) by (simp add: d1_def)
  obtain k2 and r2 :: "errno option" and e2 where c2: "change C fd EVFILT_WRITE EV_DELETE (d1, e1) = (r2 = None, d1\<lparr>kqueue_kernel := k2, kqueue_interrupts := tl (kqueue_interrupts d1)\<rparr>, e2)"
    "filters k2 = (filters (kqueue_kernel d1))(fd := (filters (kqueue_kernel d1) fd)(EVFILT_WRITE := (EV_DELETE = EV_ADD_ENABLE_CLEAR)))"
    by (rule change_documented [OF doc])
  have "d' = d1\<lparr>kqueue_kernel := k2, kqueue_interrupts := tl (kqueue_interrupts d1)\<rparr>" "kqueue_fd d1 = kqueue_fd d" "kqueue_kernel d1 = k"
    using assms(2,3) c(1) c2(1)
    by (simp_all add: Unwatch kqueue_driver_def websocket_kqueue_unwatch_def websocket_kqueue_unwatch_event_def d1_def [symmetric])
      (simp_all add: d1_def)
  then show ?thesis by (auto simp: Unwatch kqueue_watched_def c(2) c2(2))
qed

lemma kqueue_steps:
  assumes "kqueue_documented C kq filters" "kqueue_fd d = kq" "0 \<le> kq"
  shows "kqueue_watched filters (fst (fold (apply_op (kqueue_driver C)) as (d, e))) = fold op_interest as (kqueue_watched filters d)"
  using assms(2)
proof (induction as arbitrary: d e)
  case (Cons a as)
  obtain d' e' where s: "apply_op (kqueue_driver C) a (d, e) = (d', e')" by fastforce
  have "kqueue_fd d' = kq \<and> kqueue_watched filters d' = op_interest a (kqueue_watched filters d)"
    using kqueue_step [OF _ _ s] assms(1,3) Cons.prems by simp
  then show ?case using Cons.IH [of d' e'] by (simp add: s)
qed simp


text \<open>A kernel to run them on: its state is the table.\<close>

definition example_epoll :: "(int \<Rightarrow> 32 word option) epoll_calls" where
  [ws_eval]: "example_epoll =
    \<lparr>epoll_create1 = (\<lambda>k. (Inr 5, k)),
     epoll_ctl = (\<lambda>_ opn fd ev t. case opn of
        EPOLL_CTL_ADD \<Rightarrow> if t fd = None then (None, t(fd \<mapsto> ev)) else (Some EEXIST, t)
      | EPOLL_CTL_MOD \<Rightarrow> if t fd = None then (Some ENOENT, t) else (None, t(fd \<mapsto> ev))
      | EPOLL_CTL_DEL \<Rightarrow> if t fd = None then (Some ENOENT, t) else (None, t(fd := None))),
     epoll_wait = (\<lambda>_ _ k. (Inr (0, 0), k))\<rparr>"

definition example_kqueue :: "(int \<Rightarrow> kqueue_filter \<Rightarrow> bool) kqueue_calls" where
  [ws_eval]: "example_kqueue =
    \<lparr>kqueue_create = (\<lambda>k. (Inr 5, k)),
     kevent_change = (\<lambda>_ fd filt action t. case action of
        EV_ADD_ENABLE_CLEAR \<Rightarrow> (None, t(fd := (t fd)(filt := True)))
      | EV_DELETE \<Rightarrow> if t fd filt then (None, t(fd := (t fd)(filt := False))) else (Some ENOENT, t)),
     kevent_wait = (\<lambda>_ _ k. (NoEvent, k))\<rparr>"


end
