(* ===== verification/Ws_Handshake.thy ===== *)
theory Ws_Handshake
  imports Ws_Kernel_Drivers
begin

text \<open>
  How a session begins: what a client that sends a good opening handshake gets.
\<close>

subsection \<open>After the 101 response\<close>

definition opens_session :: "nat \<Rightarrow> bytes \<Rightarrow> 'd websocket_server \<Rightarrow> 'd websocket_server \<Rightarrow> bool" where
  "opens_session h response s s' \<longleftrightarrow> c_upgraded (conn s' h) \<and> (\<exists>es. g_log s' = es @ OpenEvent h # g_log s)
     \<and> prefix (w_wire (g_world s) (c_fd (conn s h)) @ response) (w_wire (g_world s') (c_fd (conn s h)))"

definition cannot_answer :: "nat \<Rightarrow> bytes \<Rightarrow> 'd websocket_server \<Rightarrow> 'd websocket_server \<Rightarrow> bool" where
  "cannot_answer h response s s' \<longleftrightarrow> \<not> c_open (conn s' h) \<and> \<not> c_upgraded (conn s' h) \<and> g_log s' = g_log s
     \<and> (\<exists>n. n < length response
         \<and> w_wire (g_world s') (c_fd (conn s h)) = w_wire (g_world s) (c_fd (conn s h)) @ take n response)"

lemma buffer_step_opened:
  assumes "buffer_step (log_event (OpenEvent h) s1) s'" "c_upgraded (conn s1 h)" "g_log s1 = g_log s"
    "w_wire (g_world s1) (c_fd (conn s h)) = w_wire (g_world s) (c_fd (conn s h)) @ response"
  shows "opens_session h response s s'"
proof -
  note b = server_stepD [OF assms(1)]
  have "c_upgraded (conn s' h)" using b(4) [of h] assms(2) by (simp add: conn_later_def)
  moreover obtain es where "g_log s' = es @ OpenEvent h # g_log s"
    using assms(1,3) unfolding server_step_def by auto
  moreover have "prefix (w_wire (g_world s1) (c_fd (conn s h))) (w_wire (g_world s') (c_fd (conn s h)))"
    using b(3) unfolding same_input_def by simp
  ultimately show ?thesis using assms(4) by (auto simp: opens_session_def)
qed

lemma buffer_step_close: "buffer_step s (update_conn (\<lambda>c. c\<lparr>c_open := False\<rparr>) h s)"
  and buffer_step_defer: "buffer_step s (update_conn (\<lambda>c. c\<lparr>c_defer_close := b\<rparr>) h s)"
  by (rule buf.update, simp add: conn_later_def)+

lemma notify_step:
  assumes "websocket_server_notify_connection_closed E h s = (ok, s')"
  shows "buffer_step s s'"
proof -
  let ?t = "update_conn (\<lambda>c. c\<lparr>c_close_notified := True\<rparr>) h s"
  have "buffer_step s ?t" by (rule buf.update) (simp add: conn_later_def)
  then have "buffer_step s (log_event (CloseEvent h) ?t)" using buf.log buf.trans by blast
  then show ?thesis
    using notify_cases [OF assms] buf.refl [of s] frame_step_buffer [OF php_step_frame] buf.trans by blast
qed

lemma finish_upgrade_answers:
  assumes "websocket_server_finish_upgrade E h key p n s = (ok, s')" "v_on_open s \<noteq> None" "\<not> c_upgraded (conn s h)"
  defines "response \<equiv> websocket_http_upgrade_response key p"
  shows "opens_session h response s s' \<or> cannot_answer h response s s'"
proof -
  let ?fd = "c_fd (conn s h)"
  obtain ok0 w where sb: "websocket_server_send_bytes ?fd response 0 (g_world s) = (ok0, w)" by fastforce
  obtain k where k: "k \<le> length response" "sent_on ?fd (take k response) (g_world s) w" "ok0 \<longleftrightarrow> k = length response"
    using send_bytes [OF sb] by auto
  note wire = sent_onD(1) [OF k(2)]
  have ww: "with_world (websocket_server_send_bytes ?fd response 0) s = (ok0, s\<lparr>g_world := w\<rparr>)"
    by (simp add: with_world_def sb)
  note run = assms(1) [unfolded websocket_server_finish_upgrade_def Let_def response_def [symmetric] ww prod.case]
  show ?thesis
  proof (cases ok0)
    case False
    then have "cannot_answer h response s s'"
      using run k wire assms(3) by (auto simp: cannot_answer_def update_conn_def put_conn_def intro!: exI [of _ k])
    then show ?thesis ..
  next
    case True
    define t where "t = update_conn (mark_upgraded p n) h (s\<lparr>g_world := w\<rparr>)"
    define needs where "needs \<longleftrightarrow> v_on_open_param_count s > 0"
    define t1 where "t1 = (if needs then update_conn (\<lambda>c. c\<lparr>c_defer_close := True\<rparr>) h t else t)"
    obtain ok1 req s2 where oh: "websocket_server_call_open_handler E h needs t1 = ((ok1, req), s2)" by (metis prod.collapse)
    define s1 where "s1 = (if needs then update_conn (\<lambda>c. c\<lparr>c_defer_close := False\<rparr>) h s2 else s2)"
    have "v_on_open t1 \<noteq> None" using assms(2) by (simp add: t1_def t_def update_conn_def put_conn_def)
    then have "php_step (log_event (OpenEvent h) t1) s2" using open_handler_cases(1) [OF oh] by (simp only: if_False)
    then have "buffer_step (log_event (OpenEvent h) t1) s2" by (rule frame_step_buffer [OF php_step_frame])
    then have s1: "buffer_step (log_event (OpenEvent h) t1) s1"
      by (cases needs) (auto simp: s1_def intro: buf.trans [OF _ buffer_step_defer])
    let ?o = "update_conn (\<lambda>c. c\<lparr>c_open := False\<rparr>) h s1"
    have o: "buffer_step (log_event (OpenEvent h) t1) ?o" using s1 buffer_step_close buf.trans by blast
    have "(if needs then
                    (case websocket_server_call_open_handler E h True
                            (update_conn (\<lambda>c. c\<lparr>c_defer_close := True\<rparr>) h t) of
                       (r, s) \<Rightarrow> (r, update_conn (\<lambda>c. c\<lparr>c_defer_close := False\<rparr>) h s))
                  else websocket_server_call_open_handler E h False t) = ((ok1, req), s1)"
      using oh by (auto simp: t1_def s1_def)
    moreover have "(v_on_open s = None \<or> v_on_open_param_count s > 0) = needs" using assms(2) by (auto simp: needs_def)
    ultimately have "(if \<not> ok1 then (False, ?o)
        else (let s = (if req then ?o else s1) in
              if \<not> c_open (conn s h) then websocket_server_notify_connection_closed E h s
              else websocket_server_process_buffered_frames E h s)) = (ok, s')"
      using run [folded t_def] True by (simp add: Let_def split: if_splits)
    then have "buffer_step (log_event (OpenEvent h) t1) s'"
      using s1 o buf.trans [OF _ notify_step] buf.trans [OF _ process_buffered_step]
      by (auto simp: Let_def split: if_splits)
    moreover have "c_upgraded (conn t1 h)" "g_log t1 = g_log s" "w_wire (g_world t1) ?fd = w_wire (g_world s) ?fd @ response"
      using wire k True by (simp_all add: t1_def t_def mark_upgraded_def websocket_connection_discard_read_bytes_def)
    ultimately show ?thesis using buffer_step_opened by blast
  qed
qed

subsection \<open>From the last bytes of the request\<close>

lemma read_capacity_room:
  assumes "length (c_read_buffer c) + n \<le> limit"
  obtains k where "websocket_connection_ensure_read_capacity n limit c = (True, c\<lparr>c_read_buffer_capacity := k\<rparr>)"
proof -
  have "fst (websocket_connection_ensure_read_capacity n limit c)"
    using assms by (auto simp: websocket_connection_ensure_read_capacity_def Let_def)
  then show thesis using that ensure_read_capacity_facts [OF prod.collapse [symmetric]] by (metis prod.collapse)
qed


text \<open>A client whose request comes in two pieces: the first is in the read buffer.\<close>

definition greeting_server :: "int list websocket_server" where
  "greeting_server = put_conn 0
     (websocket_connection_create_object\<lparr>c_fd := 7, c_open := True, c_read_buffer := take 50 example_request\<rparr>)
     (example_server (\<lambda>_ _ _ _. Finish ReturnedNull) (example_network [] [Sent 1000] [Received (drop 50 example_request)]))"

lemma greeting_server: "c_open (conn greeting_server 0)" "\<not> c_upgraded (conn greeting_server 0)" "c_fd (conn greeting_server 0) = 7"
  "w_recvs (g_world greeting_server) 7 = Received (drop 50 example_request) # []"
  "c_read_buffer (conn greeting_server 0) = take 50 example_request"
  "v_on_handshake greeting_server = None" "v_on_open greeting_server \<noteq> None" "v_subprotocols greeting_server = Some []"
  "w_wire (g_world greeting_server) 7 = []" "g_log greeting_server = []"
  by (simp_all add: greeting_server_def example_server_def ws_eval)


end
